(* ===== verification/Prelude.thy ===== *)
theory Prelude
  imports Main "HOL-Library.Word" "HOL-Library.AList" "HOL-Library.Sublist"
begin

section \<open>Shared vocabulary of the signal-core development\<close>

text \<open>
  What every component theory uses: names for the machine integers of the Rust code, the
  operations of \<^verbatim>\<open>std\<close> the sources call on integers and strings (checked and saturating
  arithmetic, ASCII case folding, substring search, UTF-8 iteration, hexadecimal), association
  lists for \<^verbatim>\<open>HashMap\<close>, the abstract view of an event sink, and one generic
  locale for state machines driven by a list of operations.

  \<^item> A \<^verbatim>\<open>u64\<close> is a \<open>64 word\<close>; \<^verbatim>\<open>usize\<close> on the supported 64-bit targets is a \<open>nat\<close>
    whose overflow is written out against \<open>usize_limit\<close>.
  \<^item> A \<^verbatim>\<open>String\<close> is its UTF-8 encoding, a \<open>string\<close> of 8-bit characters.
  \<^item> A \<^verbatim>\<open>Result<T, String>\<close> is \<open>string + 'a\<close>, \<open>Inl\<close> carrying the message.
\<close>

type_synonym u8 = "8 word"
type_synonym u16 = "16 word"
type_synonym u32 = "32 word"
type_synonym u64 = "64 word"
type_synonym usize = nat
type_synonym bytes = "u8 list"

type_synonym 'a rresult = "string + 'a"

named_theorems model_defs "definitions of operations, unfolded together"
named_theorems inv_defs "definitions of invariants"

subsection \<open>Integer operations of the standard library\<close>

definition usize_limit :: nat where
  "usize_limit = 2 ^ 64"

text \<open>\<^verbatim>\<open>usize::checked_add\<close>: \<open>None\<close> on overflow.\<close>

definition checked_add :: "usize \<Rightarrow> usize \<Rightarrow> usize option" where
  "checked_add a b = (if a + b < usize_limit then Some (a + b) else None)"

text \<open>\<^verbatim>\<open>usize::checked_mul\<close>.\<close>

definition checked_mul :: "usize \<Rightarrow> usize \<Rightarrow> usize option" where
  "checked_mul a b = (if a * b < usize_limit then Some (a * b) else None)"

text \<open>\<^verbatim>\<open>usize::saturating_add\<close>.\<close>

definition saturating_add :: "usize \<Rightarrow> usize \<Rightarrow> usize" where
  "saturating_add a b = min (a + b) (usize_limit - 1)"

text \<open>\<^verbatim>\<open>Option::is_none_or\<close> on the value of a checked operation.\<close>

definition is_none_or :: "'a option \<Rightarrow> ('a \<Rightarrow> bool) \<Rightarrow> bool" where
  "is_none_or x p = (case x of None \<Rightarrow> True | Some v \<Rightarrow> p v)"

lemma is_none_or_simps [simp]:
  "is_none_or None p"
  "is_none_or (Some v) p = p v"
  by (simp_all add: is_none_or_def)

lemma checked_add_eq_Some [simp]:
  "checked_add a b = Some c \<longleftrightarrow> c = a + b \<and> a + b < usize_limit"
  by (auto simp: checked_add_def)

lemma is_none_or_checked_add [simp]:
  "is_none_or (checked_add a b) (\<lambda>t. t > m) \<longleftrightarrow> \<not> (a + b < usize_limit \<and> a + b \<le> m)"
  by (auto simp: checked_add_def)

text \<open>\<^verbatim>\<open>u64::checked_add(1)\<close> on words: \<open>None\<close> exactly at \<^verbatim>\<open>u64::MAX\<close>.\<close>

definition checked_succ :: "u64 \<Rightarrow> u64 option" where
  "checked_succ w = (if w = - 1 then None else Some (w + 1))"

lemma unat_succ: "(w :: u64) \<noteq> - 1 \<Longrightarrow> unat (w + 1) = unat w + 1"
  by (metis add_eq_0_iff2 unatSuc Suc_eq_plus1 add.commute)

lemma checked_succ_unat:
  "checked_succ w = Some v \<Longrightarrow> unat v = unat w + 1"
  by (auto simp: checked_succ_def unat_succ split: if_splits)

lemma checked_succ_greater: "checked_succ w = Some v \<Longrightarrow> w < v"
  by (drule checked_succ_unat) (simp add: word_less_nat_alt)

text \<open>\<^verbatim>\<open>u64::wrapping_add(1).max(1)\<close>, the successor of every identifier counter: never zero.\<close>

definition next_id :: "u64 \<Rightarrow> u64" where
  "next_id w = max (w + 1) 1"

lemma next_id_nonzero [simp]: "next_id w \<noteq> 0"
  by (auto simp: next_id_def max_def)

lemma next_id_unat: "w \<noteq> - 1 \<Longrightarrow> unat (next_id w) = unat w + 1"
  by (simp add: next_id_def max_def word_le_nat_alt unat_succ)

subsection \<open>Strings\<close>

text \<open>\<^verbatim>\<open>to_ascii_lowercase\<close>: only the letters \<^verbatim>\<open>A\<close> to \<^verbatim>\<open>Z\<close> change.\<close>

definition ascii_lower :: "char \<Rightarrow> char" where
  "ascii_lower c =
     (let n = (of_char c :: nat) in if 65 \<le> n \<and> n \<le> 90 then char_of (n + 32) else c)"

definition to_ascii_lowercase :: "string \<Rightarrow> string" where
  "to_ascii_lowercase s = map ascii_lower s"

definition eq_ignore_ascii_case :: "string \<Rightarrow> string \<Rightarrow> bool" where
  "eq_ignore_ascii_case a b = (to_ascii_lowercase a = to_ascii_lowercase b)"

text \<open>\<^verbatim>\<open>str::contains\<close> and \<^verbatim>\<open>starts_with\<close>.\<close>

fun contains :: "'a list \<Rightarrow> 'a list \<Rightarrow> bool" where
  "contains [] p = (p = [])"
| "contains (c # s) p = (prefix p (c # s) \<or> contains s p)"

lemma contains_iff_sublist: "contains s p \<longleftrightarrow> sublist p s"
  by (induction s) (auto simp: sublist_Cons_right)

lemma contains_append [intro]: "contains s p \<Longrightarrow> contains (a @ s @ b) p"
  unfolding contains_iff_sublist sublist_def by (metis append.assoc)

text \<open>
  \<^verbatim>\<open>str::chars\<close>: a character is kept as the bytes of its UTF-8 encoding. The length of a sequence
  is read off its leading byte; a continuation byte in leading position, which valid UTF-8
  does not have, is a sequence of its own.
\<close>

definition utf8_len :: "char \<Rightarrow> nat" where
  "utf8_len c =
     (let n = (of_char c :: nat) in
      if n < 192 then 1 else if n < 224 then 2 else if n < 240 then 3 else 4)"

lemma utf8_len_pos [simp]: "0 < utf8_len c"
  by (simp add: utf8_len_def Let_def)

function chars :: "string \<Rightarrow> string list" where
  "chars [] = []"
| "chars (c # s) = take (utf8_len c) (c # s) # chars (drop (utf8_len c) (c # s))"
  by pat_completeness auto
termination
  by (relation "measure length") auto

lemma concat_chars [simp]: "concat (chars s) = s"
  by (induction s rule: chars.induct) (simp_all only: chars.simps concat.simps append_take_drop_id)

text \<open>The decimal rendering used by the \<^verbatim>\<open>format!\<close> calls.\<close>

fun decimal_digits :: "nat \<Rightarrow> string" where
  "decimal_digits n =
     (if n < 10 then [char_of (48 + n)] else decimal_digits (n div 10) @ [char_of (48 + n mod 10)])"

declare decimal_digits.simps [simp del]

text \<open>\<^verbatim>\<open>hex::encode\<close>: two lower-case digits per byte.\<close>

definition hex_digit :: "nat \<Rightarrow> char" where
  "hex_digit n = (if n < 10 then char_of (48 + n) else char_of (87 + n))"

definition hex_encode :: "bytes \<Rightarrow> string" where
  "hex_encode bs = concat (map (\<lambda>b. [hex_digit (unat b div 16), hex_digit (unat b mod 16)]) bs)"

text \<open>\<^verbatim>\<open>hex::decode\<close>: \<open>None\<close> on an odd length or a byte that is no hexadecimal digit.\<close>

definition hex_value :: "char \<Rightarrow> nat option" where
  "hex_value c =
     (let n = (of_char c :: nat) in
      if 48 \<le> n \<and> n \<le> 57 then Some (n - 48)
      else if 97 \<le> n \<and> n \<le> 102 then Some (n - 87)
      else if 65 \<le> n \<and> n \<le> 70 then Some (n - 55)
      else None)"

fun hex_decode :: "string \<Rightarrow> bytes option" where
  "hex_decode [] = Some []"
| "hex_decode [_] = None"
| "hex_decode (a # b # s) =
     (case hex_value a of None \<Rightarrow> None
      | Some h \<Rightarrow> (case hex_value b of None \<Rightarrow> None
        | Some l \<Rightarrow> map_option (\<lambda>bs. word_of_nat (16 * h + l) # bs) (hex_decode s)))"

lemma length_hex_encode [simp]: "length (hex_encode bs) = 2 * length bs"
  by (induction bs) (simp_all add: hex_encode_def)

lemma of_char_char_of_small: "n < 256 \<Longrightarrow> of_char (char_of n) = (n :: nat)"
  by simp

lemma hex_value_digit: "n < 16 \<Longrightarrow> hex_value (hex_digit n) = Some n"
  by (auto simp: hex_value_def hex_digit_def Let_def)

lemma hex_decode_encode [simp]: "hex_decode (hex_encode bs) = Some bs"
proof (induction bs)
  case Nil
  show ?case by (simp add: hex_encode_def)
next
  case (Cons b bs)
  have "unat b < 256" by (rule order_less_le_trans [OF unsigned_less]) simp
  then have "unat b div 16 < 16" and "unat b mod 16 < 16" by auto
  moreover have "word_of_nat (16 * (unat b div 16) + unat b mod 16) = b"
    by simp
  ultimately show ?case
    using Cons.IH by (simp add: hex_encode_def hex_value_digit)
qed

lemma length_hex_decode: "hex_decode s = Some bs \<Longrightarrow> length s = 2 * length bs"
  by (induction s arbitrary: bs rule: hex_decode.induct) (auto split: option.splits)

subsection \<open>Association lists\<close>

text \<open>
  A \<^verbatim>\<open>HashMap\<close> that the code iterates over is an association list with distinct keys; the order of
  the list stands for the unspecified iteration order.
\<close>

lemma map_of_delete_alist: "map_of (AList.delete k al) = (map_of al)(k := None)"
  by (simp add: AList.delete_conv')

lemma set_delete_alist: "set (AList.delete k al) = {p \<in> set al. fst p \<noteq> k}"
  by (auto simp: AList.delete_eq)

lemma length_delete_alist_le: "length (AList.delete k al) \<le> length al"
  by (simp add: AList.delete_eq)

lemma length_delete_alist:
  "distinct (map fst al) \<Longrightarrow> k \<in> fst ` set al \<Longrightarrow> length (AList.delete k al) + 1 = length al"
  by (induction al) (auto simp: AList.delete_simps AList.delete_idem)

lemma update_fresh_alist: "k \<notin> fst ` set al \<Longrightarrow> AList.update k v al = al @ [(k, v)]"
  by (induction al) auto

lemma sum_delete_alist:
  fixes f :: "'v \<Rightarrow> nat"
  assumes "distinct (map fst al)" and "map_of al k = Some v"
  shows "sum_list (map (f \<circ> snd) (AList.delete k al)) + f v = sum_list (map (f \<circ> snd) al)"
  using assms
  by (induction al) (auto simp: AList.delete_simps AList.delete_idem split: if_splits)

subsection \<open>State machines driven by operations\<close>

text \<open>
  A component is a state type and operations on it. \<open>admissible\<close> says that every operation
  of a sequence is applied where the client may apply it; the locale carries an invariant from single
  operations to whole runs, once for all components.
\<close>

fun admissible :: "('op \<Rightarrow> 's \<Rightarrow> bool) \<Rightarrow> ('op \<Rightarrow> 's \<Rightarrow> 's) \<Rightarrow> 's \<Rightarrow> 'op list \<Rightarrow> bool" where
  "admissible ok exec s [] = True"
| "admissible ok exec s (x # xs) = (ok x s \<and> admissible ok exec (exec x s) xs)"

locale guarded_system =
  fixes ok :: "'op \<Rightarrow> 's \<Rightarrow> bool"
    and exec :: "'op \<Rightarrow> 's \<Rightarrow> 's"
    and inv :: "'s \<Rightarrow> bool"
  assumes preserves: "inv s \<Longrightarrow> ok x s \<Longrightarrow> inv (exec x s)"
begin

lemma run_inv: "inv s \<Longrightarrow> admissible ok exec s xs \<Longrightarrow> inv (fold exec xs s)"
  by (induction xs arbitrary: s) (auto intro: preserves)

lemma run_inv_prefix:
  assumes "inv s" and "admissible ok exec s (xs @ ys)"
  shows "inv (fold exec xs s) \<and> admissible ok exec (fold exec xs s) ys"
  using assms by (induction xs arbitrary: s) (auto intro: preserves)

end

locale op_system =
  fixes exec :: "'op \<Rightarrow> 's \<Rightarrow> 's"
    and inv :: "'s \<Rightarrow> bool"
  assumes preserves_all: "inv s \<Longrightarrow> inv (exec x s)"

sublocale op_system \<subseteq> guarded_system "\<lambda>_ _. True" exec inv
  by unfold_locales (rule preserves_all)

lemma admissible_True [simp]: "admissible (\<lambda>_ _. True) exec s xs"
  by (induction xs arbitrary: s) auto

context op_system
begin

lemma run_inv_all: "inv s \<Longrightarrow> inv (fold exec xs s)"
  by (rule run_inv) simp_all

end

end
