(* ===== verification/Events.thy ===== *)
theory Events
  imports Prelude
begin

section \<open>Events crossing the boundary to Purple (event.rs)\<close>

text \<open>
  The event kinds and flags of the ABI, the \<^verbatim>\<open>Event\<close> the backend builds, its error constructors, and
  the owned C representation \<^verbatim>\<open>OwnedEvent\<close> handed to the plugin: every string NUL-terminated and
  free of embedded NULs, every pointer null or addressing the buffer its owner keeps, and the
  \<^verbatim>\<open>repr(C)\<close> layout both sides of the boundary rely on.
\<close>

definition ABI_VERSION :: u32 where
  "ABI_VERSION = 7"

definition EVENT_LINK_QR :: u32 where
  "EVENT_LINK_QR = 1"

definition EVENT_READY :: u32 where
  "EVENT_READY = 2"

definition EVENT_CONTACT :: u32 where
  "EVENT_CONTACT = 3"

definition EVENT_GROUP :: u32 where
  "EVENT_GROUP = 4"

definition EVENT_MESSAGE :: u32 where
  "EVENT_MESSAGE = 5"

definition EVENT_GROUP_MESSAGE :: u32 where
  "EVENT_GROUP_MESSAGE = 6"

definition EVENT_TYPING :: u32 where
  "EVENT_TYPING = 7"

definition EVENT_RECEIPT :: u32 where
  "EVENT_RECEIPT = 8"

definition EVENT_NOTICE_RESERVED :: u32 where
  "EVENT_NOTICE_RESERVED = 9"

definition EVENT_ERROR :: u32 where
  "EVENT_ERROR = 10"

definition EVENT_DISCONNECTED :: u32 where
  "EVENT_DISCONNECTED = 11"

definition EVENT_CONTACT_SYNC_BEGIN :: u32 where
  "EVENT_CONTACT_SYNC_BEGIN = 12"

definition EVENT_CONTACT_SYNC_END :: u32 where
  "EVENT_CONTACT_SYNC_END = 13"

definition EVENT_GROUP_SYNC_BEGIN :: u32 where
  "EVENT_GROUP_SYNC_BEGIN = 14"

definition EVENT_GROUP_SYNC_END :: u32 where
  "EVENT_GROUP_SYNC_END = 15"

definition EVENT_GROUP_MEMBER :: u32 where
  "EVENT_GROUP_MEMBER = 16"

definition EVENT_IDENTITY_CHANGE :: u32 where
  "EVENT_IDENTITY_CHANGE = 17"

definition EVENT_IDENTITY_ACCEPTED :: u32 where
  "EVENT_IDENTITY_ACCEPTED = 18"

definition EVENT_ATTACHMENT :: u32 where
  "EVENT_ATTACHMENT = 19"

definition EVENT_ATTACHMENT_SENT :: u32 where
  "EVENT_ATTACHMENT_SENT = 20"

definition EVENT_GROUP_LEFT :: u32 where
  "EVENT_GROUP_LEFT = 21"

definition EVENT_RECOVERING :: u32 where
  "EVENT_RECOVERING = 22"

definition EVENT_ACCOUNT :: u32 where
  "EVENT_ACCOUNT = 23"

definition EVENT_SESSION_RESET :: u32 where
  "EVENT_SESSION_RESET = 24"

definition EVENT_AVATAR :: u32 where
  "EVENT_AVATAR = 25"

definition FLAG_OUTGOING :: u32 where
  "FLAG_OUTGOING = push_bit 0 1"

definition FLAG_FATAL :: u32 where
  "FLAG_FATAL = push_bit 1 1"

definition FLAG_TRANSIENT :: u32 where
  "FLAG_TRANSIENT = push_bit 2 1"

lemmas event_kind_defs =
  EVENT_LINK_QR_def
  EVENT_READY_def
  EVENT_CONTACT_def
  EVENT_GROUP_def
  EVENT_MESSAGE_def
  EVENT_GROUP_MESSAGE_def
  EVENT_TYPING_def
  EVENT_RECEIPT_def
  EVENT_NOTICE_RESERVED_def
  EVENT_ERROR_def
  EVENT_DISCONNECTED_def
  EVENT_CONTACT_SYNC_BEGIN_def
  EVENT_CONTACT_SYNC_END_def
  EVENT_GROUP_SYNC_BEGIN_def
  EVENT_GROUP_SYNC_END_def
  EVENT_GROUP_MEMBER_def
  EVENT_IDENTITY_CHANGE_def
  EVENT_IDENTITY_ACCEPTED_def
  EVENT_ATTACHMENT_def
  EVENT_ATTACHMENT_SENT_def
  EVENT_GROUP_LEFT_def
  EVENT_RECOVERING_def
  EVENT_ACCOUNT_def
  EVENT_SESSION_RESET_def
  EVENT_AVATAR_def

lemmas event_flag_defs = FLAG_OUTGOING_def FLAG_FATAL_def FLAG_TRANSIENT_def

subsection \<open>The event and its constructors\<close>

record event =
  ev_kind :: u32
  ev_flags :: u32
  ev_request_id :: u64
  ev_timestamp_ms :: u64
  ev_value :: int
  ev_peer_id :: "string option"
  ev_chat_id :: "string option"
  ev_title :: "string option"
  ev_text :: "string option"
  ev_data :: bytes

text \<open>The derived \<^verbatim>\<open>Default\<close>.\<close>

definition event_default :: event where
  "event_default =
     \<lparr>ev_kind = 0, ev_flags = 0, ev_request_id = 0, ev_timestamp_ms = 0, ev_value = 0,
      ev_peer_id = None, ev_chat_id = None, ev_title = None, ev_text = None, ev_data = []\<rparr>"

definition event_error :: "string \<Rightarrow> bool \<Rightarrow> event" where
  "event_error message fatal =
     event_default\<lparr>
       ev_kind := EVENT_ERROR,
       ev_flags := (if fatal then FLAG_FATAL else 0),
       ev_title := Some (if fatal then ''Signal backend stopped'' else ''Signal operation failed''),
       ev_text := Some message\<rparr>"

definition request_error :: "u64 \<Rightarrow> string \<Rightarrow> event" where
  "request_error request_id message = (event_error message False)\<lparr>ev_request_id := request_id\<rparr>"

definition transient_error :: "string \<Rightarrow> event" where
  "transient_error message = (event_error message False)\<lparr>ev_flags := FLAG_TRANSIENT\<rparr>"

definition transient_request_error :: "u64 \<Rightarrow> string \<Rightarrow> event" where
  "transient_request_error request_id message =
     (request_error request_id message)\<lparr>ev_flags := FLAG_TRANSIENT\<rparr>"

definition group_request_error :: "u64 \<Rightarrow> string \<Rightarrow> string \<Rightarrow> event" where
  "group_request_error request_id chat_id message =
     (event_error message False)\<lparr>ev_request_id := request_id, ev_chat_id := Some chat_id\<rparr>"

lemmas event_ctor_defs =
  event_error_def request_error_def transient_error_def transient_request_error_def
  group_request_error_def event_default_def

text \<open>What the plugin reads off an error event: its kind, its request, and that no
  constructor but a fatal \<^verbatim>\<open>Event::error\<close> raises the fatal flag.\<close>

lemma error_ctor_simps [simp]:
  "ev_kind (event_error m f) = EVENT_ERROR"
  "ev_kind (request_error r m) = EVENT_ERROR"
  "ev_kind (transient_error m) = EVENT_ERROR"
  "ev_kind (transient_request_error r m) = EVENT_ERROR"
  "ev_kind (group_request_error r c m) = EVENT_ERROR"
  "ev_request_id (event_error m f) = 0"
  "ev_request_id (transient_error m) = 0"
  "ev_request_id (request_error r m) = r"
  "ev_request_id (transient_request_error r m) = r"
  "ev_request_id (group_request_error r c m) = r"
  "ev_text (event_error m f) = Some m"
  "ev_text (request_error r m) = Some m"
  "ev_text (transient_request_error r m) = Some m"
  "ev_text (group_request_error r c m) = Some m"
  "ev_chat_id (group_request_error r c m) = Some c"
  "ev_data (event_error m f) = []"
  "ev_data (request_error r m) = []"
  "ev_data (transient_error m) = []"
  "ev_data (transient_request_error r m) = []"
  "ev_data (group_request_error r c m) = []"
  by (simp_all add: event_ctor_defs)

subsection \<open>Layout of the shared structures\<close>

text \<open>
  \<^verbatim>\<open>repr(C)\<close>: each field at the next multiple of its alignment, the whole rounded up to the
  largest alignment. A field is its size and alignment on the supported 64-bit targets.
\<close>

definition align_up :: "nat \<Rightarrow> nat \<Rightarrow> nat" where
  "align_up n a = ((n + a - 1) div a) * a"

fun repr_c_offsets :: "nat \<Rightarrow> (nat \<times> nat) list \<Rightarrow> nat list" where
  "repr_c_offsets at [] = []"
| "repr_c_offsets at ((sz, al) # fs) =
     align_up at al # repr_c_offsets (align_up at al + sz) fs"

fun repr_c_end :: "nat \<Rightarrow> (nat \<times> nat) list \<Rightarrow> nat" where
  "repr_c_end at [] = at"
| "repr_c_end at ((sz, al) # fs) = repr_c_end (align_up at al + sz) fs"

definition repr_c_align :: "(nat \<times> nat) list \<Rightarrow> nat" where
  "repr_c_align fs = foldr max (map snd fs) 1"

definition repr_c_size :: "(nat \<times> nat) list \<Rightarrow> nat" where
  "repr_c_size fs = align_up (repr_c_end 0 fs) (repr_c_align fs)"

text \<open>The fields of \<^verbatim>\<open>SignalEvent\<close>: four \<^verbatim>\<open>u32\<close>, two \<^verbatim>\<open>u64\<close>, an \<^verbatim>\<open>i32\<close>, five pointers and a length.\<close>

definition signal_event_fields :: "(nat \<times> nat) list" where
  "signal_event_fields =
     [(4, 4), (4, 4), (4, 4), (4, 4), (8, 8), (8, 8), (4, 4),
      (8, 8), (8, 8), (8, 8), (8, 8), (8, 8), (8, 8)]"

subsection \<open>The owned C representation\<close>

text \<open>A C pointer of \<^verbatim>\<open>SignalEvent\<close>: null, or the start of one of the owner's buffers.\<close>

datatype c_ptr = Null | To_peer_id | To_chat_id | To_title | To_text | To_data

record signal_event =
  se_abi_version :: u32
  se_struct_size :: u32
  se_kind :: u32
  se_flags :: u32
  se_request_id :: u64
  se_timestamp_ms :: u64
  se_value :: int
  se_peer_id :: c_ptr
  se_chat_id :: c_ptr
  se_title :: c_ptr
  se_text :: c_ptr
  se_data :: c_ptr
  se_data_len :: usize

record owned_event =
  oe_public :: signal_event
  oe_peer_id :: "string option"
  oe_chat_id :: "string option"
  oe_title :: "string option"
  oe_text :: "string option"
  oe_data :: bytes

abbreviation NUL :: char where
  "NUL \<equiv> CHR 0x00"

text \<open>U+FFFD in UTF-8.\<close>

definition replacement_character :: string where
  "replacement_character = [CHR 0xEF, CHR 0xBF, CHR 0xBD]"

text \<open>\<^verbatim>\<open>CString::new\<close>: the bytes and a terminating NUL, an error when a NUL is among them.\<close>

definition cstring_new :: "string \<Rightarrow> string option" where
  "cstring_new s = (if NUL \<in> set s then None else Some (s @ [NUL]))"

definition replace_nul :: "string \<Rightarrow> string" where
  "replace_nul s = concat (map (\<lambda>c. if c = NUL then replacement_character else [c]) s)"

text \<open>
  \<^verbatim>\<open>c_string\<close>: the outer option is the \<^verbatim>\<open>expect\<close>, \<open>None\<close> a panic.
\<close>

definition c_string :: "string option \<Rightarrow> string option option" where
  "c_string x =
     (case x of None \<Rightarrow> Some None
      | Some s \<Rightarrow> (case cstring_new (replace_nul s) of None \<Rightarrow> None | Some c \<Rightarrow> Some (Some c)))"

definition ptr_to :: "c_ptr \<Rightarrow> 'a option \<Rightarrow> c_ptr" where
  "ptr_to p x = (case x of None \<Rightarrow> Null | Some _ \<Rightarrow> p)"

definition owned_event_new :: "event \<Rightarrow> owned_event option" where
  "owned_event_new e =
     (case (c_string (ev_peer_id e), c_string (ev_chat_id e), c_string (ev_title e),
            c_string (ev_text e)) of
        (Some peer, Some chat, Some title, Some txt) \<Rightarrow>
          Some \<lparr>oe_public =
                  \<lparr>se_abi_version = ABI_VERSION,
                   se_struct_size = word_of_nat (repr_c_size signal_event_fields),
                   se_kind = ev_kind e,
                   se_flags = ev_flags e,
                   se_request_id = ev_request_id e,
                   se_timestamp_ms = ev_timestamp_ms e,
                   se_value = ev_value e,
                   se_peer_id = ptr_to To_peer_id peer,
                   se_chat_id = ptr_to To_chat_id chat,
                   se_title = ptr_to To_title title,
                   se_text = ptr_to To_text txt,
                   se_data = (if ev_data e = [] then Null else To_data),
                   se_data_len = length (ev_data e)\<rparr>,
                oe_peer_id = peer, oe_chat_id = chat, oe_title = title, oe_text = txt,
                oe_data = ev_data e\<rparr>
      | _ \<Rightarrow> None)"

text \<open>What the plugin reads through a string pointer: the bytes up to the first NUL.\<close>

definition string_buffer :: "owned_event \<Rightarrow> c_ptr \<Rightarrow> string option" where
  "string_buffer oe p =
     (case p of To_peer_id \<Rightarrow> oe_peer_id oe | To_chat_id \<Rightarrow> oe_chat_id oe
      | To_title \<Rightarrow> oe_title oe | To_text \<Rightarrow> oe_text oe | _ \<Rightarrow> None)"

definition read_c_str :: "owned_event \<Rightarrow> c_ptr \<Rightarrow> string option" where
  "read_c_str oe p = map_option (takeWhile (\<lambda>c. c \<noteq> NUL)) (string_buffer oe p)"

lemma NUL_notin_replace_nul [simp]: "NUL \<notin> set (replace_nul s)"
  by (auto simp: replace_nul_def replacement_character_def)

lemma replace_nul_id: "NUL \<notin> set s \<Longrightarrow> replace_nul s = s"
  by (induction s) (auto simp: replace_nul_def)

lemma c_string_total: "c_string x = Some (map_option (\<lambda>s. replace_nul s @ [NUL]) x)"
  by (simp add: c_string_def cstring_new_def split: option.split)

lemma takeWhile_terminated:
  "NUL \<notin> set s \<Longrightarrow> takeWhile (\<lambda>c. c \<noteq> NUL) (s @ [NUL]) = s"
  by (subst takeWhile_append2) auto

text \<open>
  Building the C view of an event never panics, whatever strings the event carries, and
  what the plugin reads back is the event: the scalar fields are copied, a string pointer is null exactly
  when the field is absent and otherwise reads as the field with every embedded NUL replaced by
  U+FFFD, and the data pointer is null exactly for empty data, with the length that belongs to it.
\<close>

lemma owned_event_new_faithful:
  "\<exists>oe. owned_event_new e = Some oe \<and>
     se_kind (oe_public oe) = ev_kind e \<and> se_flags (oe_public oe) = ev_flags e \<and>
     se_request_id (oe_public oe) = ev_request_id e \<and>
     se_timestamp_ms (oe_public oe) = ev_timestamp_ms e \<and>
     se_value (oe_public oe) = ev_value e \<and>
     read_c_str oe (se_peer_id (oe_public oe)) = map_option replace_nul (ev_peer_id e) \<and>
     read_c_str oe (se_chat_id (oe_public oe)) = map_option replace_nul (ev_chat_id e) \<and>
     read_c_str oe (se_title (oe_public oe)) = map_option replace_nul (ev_title e) \<and>
     read_c_str oe (se_text (oe_public oe)) = map_option replace_nul (ev_text e) \<and>
     (se_data (oe_public oe) = Null \<longleftrightarrow> ev_data e = []) \<and>
     oe_data oe = ev_data e \<and> se_data_len (oe_public oe) = length (oe_data oe)"
  by (cases "ev_peer_id e"; cases "ev_chat_id e"; cases "ev_title e"; cases "ev_text e")
     (simp_all add: owned_event_new_def c_string_total ptr_to_def read_c_str_def string_buffer_def
       takeWhile_terminated)

end
