(* ===== verification/Session_State.thy ===== *)
theory Session_State
  imports Prelude
begin

section \<open>Session, departure, timestamp and metadata state\<close>

text \<open>
  The small shared states of the backend: the phase of the connection with its recovery
  backoff (\<^verbatim>\<open>SessionState\<close>, \<^verbatim>\<open>RecoveryBackoff\<close>), the groups being left (\<^verbatim>\<open>DepartedGroups\<close> of
  group_state.rs), the lock-free allocator of message timestamps, and the metadata cache.
\<close>

subsection \<open>Dispositions\<close>

datatype projection_disposition = AwaitingAck | Complete | Retry

record projection_effect =
  pe_remove_pending :: bool
  pe_mark_projected :: bool

definition projection_effect_of :: "projection_disposition \<Rightarrow> projection_effect" where
  "projection_effect_of d =
     (case d of
        AwaitingAck \<Rightarrow> \<lparr>pe_remove_pending = False, pe_mark_projected = False\<rparr>
      | Complete \<Rightarrow> \<lparr>pe_remove_pending = True, pe_mark_projected = True\<rparr>
      | Retry \<Rightarrow> \<lparr>pe_remove_pending = True, pe_mark_projected = False\<rparr>)"

subsection \<open>Groups being left\<close>

record departed_groups =
  dg_leaving :: "string set"
  dg_departed :: "string set"

datatype departure_state = Departure_Active | Departure_Leaving | Departure_Departed

definition departed_groups_new :: departed_groups where
  "departed_groups_new = \<lparr>dg_leaving = {}, dg_departed = {}\<rparr>"

definition departure_projection_disposition :: "departure_state \<Rightarrow> projection_disposition option" where
  "departure_projection_disposition st =
     (case st of Departure_Active \<Rightarrow> None
      | Departure_Leaving \<Rightarrow> Some Retry
      | Departure_Departed \<Rightarrow> Some Complete)"

definition departure_state_of :: "departed_groups \<Rightarrow> string \<Rightarrow> departure_state" where
  "departure_state_of g i =
     (if i \<in> dg_departed g then Departure_Departed
      else if i \<in> dg_leaving g then Departure_Leaving
      else Departure_Active)"

definition departed_contains :: "departed_groups \<Rightarrow> string \<Rightarrow> bool" where
  "departed_contains g i = (departure_state_of g i \<noteq> Departure_Active)"

definition is_departed :: "departed_groups \<Rightarrow> string \<Rightarrow> bool" where
  "is_departed g i = (i \<in> dg_departed g)"

definition begin_leave :: "string \<Rightarrow> departed_groups \<Rightarrow> departed_groups" where
  "begin_leave i g = g\<lparr>dg_leaving := insert i (dg_leaving g)\<rparr>"

definition cancel_leave :: "string \<Rightarrow> departed_groups \<Rightarrow> departed_groups" where
  "cancel_leave i g = g\<lparr>dg_leaving := dg_leaving g - {i}\<rparr>"

definition mark_departed :: "string \<Rightarrow> departed_groups \<Rightarrow> departed_groups" where
  "mark_departed i g = g\<lparr>dg_leaving := dg_leaving g - {i}, dg_departed := insert i (dg_departed g)\<rparr>"

datatype group_leave_completion = Leave_Accepted bool bool | Leave_Failed string

datatype departure_op = Begin_Leave string | Cancel_Leave string | Mark_Departed string

fun departure_exec :: "departure_op \<Rightarrow> departed_groups \<Rightarrow> departed_groups" where
  "departure_exec (Begin_Leave i) = begin_leave i"
| "departure_exec (Cancel_Leave i) = cancel_leave i"
| "departure_exec (Mark_Departed i) = mark_departed i"

lemmas departure_defs [model_defs] =
  departure_state_of_def departed_contains_def is_departed_def begin_leave_def cancel_leave_def
  mark_departed_def

lemma departed_is_permanent: "is_departed g i \<Longrightarrow> is_departed (departure_exec x g) i"
  by (cases x) (auto simp: departure_defs)

interpretation departure: op_system departure_exec "\<lambda>g. is_departed g i" for i
  by unfold_locales (rule departed_is_permanent)

lemma departure_state_simps [simp]:
  "departure_state_of (mark_departed i g) j = (if i = j then Departure_Departed else departure_state_of g j)"
  "departure_state_of (cancel_leave i g) j =
     (if i = j \<and> \<not> is_departed g i then Departure_Active else departure_state_of g j)"
  "departure_state_of (begin_leave i g) j =
     (if i = j \<and> \<not> is_departed g i then Departure_Leaving else departure_state_of g j)"
  by (auto simp: departure_defs)

subsection \<open>Recovery backoff\<close>

definition RECOVERY_RETRY_DELAYS_SECS :: "nat list" where
  "RECOVERY_RETRY_DELAYS_SECS = [1, 2, 4, 8, 16, 32]"

record recovery_backoff =
  rb_next_delay :: usize

definition backoff_default :: recovery_backoff where
  "backoff_default = \<lparr>rb_next_delay = 0\<rparr>"

definition next_delay :: "recovery_backoff \<Rightarrow> nat \<times> recovery_backoff" where
  "next_delay b =
     (let index = min (rb_next_delay b) (length RECOVERY_RETRY_DELAYS_SECS - 1)
      in (RECOVERY_RETRY_DELAYS_SECS ! index,
          b\<lparr>rb_next_delay := saturating_add (rb_next_delay b) 1\<rparr>))"

definition backoff_reset :: "recovery_backoff \<Rightarrow> recovery_backoff" where
  "backoff_reset b = b\<lparr>rb_next_delay := 0\<rparr>"

text \<open>The first \<open>n\<close> delays drawn from a backoff.\<close>

fun delays :: "nat \<Rightarrow> recovery_backoff \<Rightarrow> nat list" where
  "delays 0 b = []"
| "delays (Suc n) b = (case next_delay b of (d, c) \<Rightarrow> d # delays n c)"

subsection \<open>Session phase\<close>

datatype session_phase = Initializing | Recovering | Ready
datatype group_snapshot_state = Snapshot_Pending | Snapshot_Authoritative | Snapshot_Dirty
datatype recovery_transition = Entered | Continued

record session_state =
  ss_phase :: session_phase
  ss_groups :: group_snapshot_state
  ss_recovery_backoff :: recovery_backoff
  ss_last_recovery_error :: "string option"

definition session_default :: session_state where
  "session_default =
     \<lparr>ss_phase = Initializing, ss_groups = Snapshot_Pending, ss_recovery_backoff = backoff_default,
      ss_last_recovery_error = None\<rparr>"

definition is_recovering :: "session_state \<Rightarrow> bool" where
  "is_recovering s = (ss_phase s = Recovering)"

definition is_ready :: "session_state \<Rightarrow> bool" where
  "is_ready s = (ss_phase s = Ready)"

definition groups_authoritative :: "session_state \<Rightarrow> bool" where
  "groups_authoritative s = (ss_groups s \<in> {Snapshot_Authoritative, Snapshot_Dirty})"

definition groups_dirty :: "session_state \<Rightarrow> bool" where
  "groups_dirty s = (ss_groups s = Snapshot_Dirty)"

definition note_group_content :: "bool \<Rightarrow> session_state \<Rightarrow> session_state" where
  "note_group_content has_group_context s =
     (if has_group_context \<and> ss_groups s = Snapshot_Authoritative
      then s\<lparr>ss_groups := Snapshot_Dirty\<rparr> else s)"

definition mark_groups_authoritative :: "session_state \<Rightarrow> session_state" where
  "mark_groups_authoritative s = s\<lparr>ss_groups := Snapshot_Authoritative\<rparr>"

definition mark_groups_pending :: "session_state \<Rightarrow> session_state" where
  "mark_groups_pending s = s\<lparr>ss_groups := Snapshot_Pending\<rparr>"

text \<open>The \<^verbatim>\<open>debug_assert!\<close>s of \<^verbatim>\<open>mark_ready\<close> and \<^verbatim>\<open>next_recovery_delay\<close> are guards: \<open>None\<close> when they fail.\<close>

definition mark_ready :: "session_state \<Rightarrow> session_state option" where
  "mark_ready s = (if is_ready s then None else Some (s\<lparr>ss_phase := Ready\<rparr>))"

definition reset_recovery_backoff :: "session_state \<Rightarrow> session_state" where
  "reset_recovery_backoff s = s\<lparr>ss_recovery_backoff := backoff_reset (ss_recovery_backoff s)\<rparr>"

definition enter_recovery :: "string \<Rightarrow> session_state \<Rightarrow> recovery_transition \<times> session_state" where
  "enter_recovery error s =
     (if is_recovering s then Continued else Entered,
      s\<lparr>ss_phase := Recovering, ss_groups := Snapshot_Pending, ss_last_recovery_error := Some error\<rparr>)"

definition next_recovery_delay :: "session_state \<Rightarrow> (nat \<times> session_state) option" where
  "next_recovery_delay s =
     (if is_recovering s
      then (case next_delay (ss_recovery_backoff s) of
              (d, b) \<Rightarrow> Some (d, s\<lparr>ss_recovery_backoff := b\<rparr>))
      else None)"

lemmas session_defs [model_defs] =
  is_recovering_def is_ready_def groups_authoritative_def groups_dirty_def note_group_content_def
  mark_groups_authoritative_def mark_groups_pending_def mark_ready_def reset_recovery_backoff_def
  enter_recovery_def next_recovery_delay_def

lemma saturating_succ [simp]: "Suc n < usize_limit \<Longrightarrow> saturating_add n (Suc 0) = Suc n"
  by (simp add: saturating_add_def)

lemma retry_delay_table: "m \<le> 5 \<Longrightarrow> RECOVERY_RETRY_DELAYS_SECS ! m = 2 ^ m"
proof -
  assume "m \<le> 5"
  then have "m \<in> {0, 1, 2, 3, 4, 5}" by auto
  then show ?thesis by (auto simp: RECOVERY_RETRY_DELAYS_SECS_def)
qed

lemma length_retry_delays [simp]: "length RECOVERY_RETRY_DELAYS_SECS = 6"
  by (simp add: RECOVERY_RETRY_DELAYS_SECS_def)

lemma delay_at: "fst (next_delay \<lparr>rb_next_delay = n\<rparr>) = 2 ^ min n 5"
  by (simp add: next_delay_def Let_def retry_delay_table)

lemma delays_from:
  "k + n < usize_limit \<Longrightarrow> delays n \<lparr>rb_next_delay = k\<rparr> = map (\<lambda>i. 2 ^ min (k + i) 5) [0..<n]"
proof (induction n arbitrary: k)
  case (Suc n)
  have step: "next_delay \<lparr>rb_next_delay = k\<rparr> = (2 ^ min k 5, \<lparr>rb_next_delay = Suc k\<rparr>)"
    using delay_at [of k] Suc.prems by (simp add: next_delay_def Let_def)
  have "map (\<lambda>i. 2 ^ min (k + i) 5 :: nat) [0..<Suc n] =
      2 ^ min k 5 # map (\<lambda>i. 2 ^ min (Suc k + i) 5) [0..<n]"
    by (subst upt_conv_Cons) (simp_all add: map_Suc_upt [symmetric] del: upt_Suc)
  then show ?case using Suc by (simp add: step del: upt_Suc)
qed simp

lemma delays_default: "n < usize_limit \<Longrightarrow> delays n backoff_default = map (\<lambda>i. 2 ^ min i 5) [0..<n]"
  using delays_from [of 0 n] by (simp add: backoff_default_def)

subsection \<open>Message timestamps\<close>

text \<open>
  One pass of the compare-and-exchange loop of \<^verbatim>\<open>next_at\<close> on the shared cell: \<^verbatim>\<open>previous\<close> is
  what this caller last observed, and a weak exchange may fail spuriously.
\<close>

datatype cas_pass = Cas_Return u64 | Cas_Retry u64 | Cas_Panic

definition next_at_pass :: "u64 \<Rightarrow> u64 \<Rightarrow> bool \<Rightarrow> u64 \<Rightarrow> cas_pass \<times> u64" where
  "next_at_pass wall_clock_ms previous spurious latest =
     (case checked_succ previous of
        None \<Rightarrow> (Cas_Panic, latest)
      | Some minimum \<Rightarrow>
          let nxt = max wall_clock_ms minimum
          in if latest = previous \<and> \<not> spurious then (Cas_Return nxt, nxt) else (Cas_Retry latest, latest))"

text \<open>A call that no other caller interferes with.\<close>

definition next_at :: "u64 \<Rightarrow> u64 \<Rightarrow> (u64 \<times> u64) option" where
  "next_at wall_clock_ms latest =
     (case next_at_pass wall_clock_ms latest False latest of
        (Cas_Return t, l) \<Rightarrow> Some (t, l)
      | _ \<Rightarrow> None)"

text \<open>Concurrent callers: each holds its wall clock reading and the value it observed.\<close>

record timestamp_system =
  ts_latest :: u64
  ts_callers :: "nat \<Rightarrow> (u64 \<times> u64) option"
  ts_issued :: "u64 list"

datatype timestamp_op = T_Load nat u64 | T_Pass nat bool

fun timestamp_exec :: "timestamp_op \<Rightarrow> timestamp_system \<Rightarrow> timestamp_system" where
  "timestamp_exec (T_Load k wall) s =
     (if ts_callers s k = None then s\<lparr>ts_callers := (ts_callers s)(k \<mapsto> (wall, ts_latest s))\<rparr> else s)"
| "timestamp_exec (T_Pass k spurious) s =
     (case ts_callers s k of
        None \<Rightarrow> s
      | Some (wall, previous) \<Rightarrow>
          (case next_at_pass wall previous spurious (ts_latest s) of
             (Cas_Return t, l) \<Rightarrow>
               s\<lparr>ts_latest := l, ts_callers := (ts_callers s)(k := None), ts_issued := ts_issued s @ [t]\<rparr>
           | (Cas_Retry observed, l) \<Rightarrow>
               s\<lparr>ts_latest := l, ts_callers := (ts_callers s)(k \<mapsto> (wall, observed))\<rparr>
           | (Cas_Panic, l) \<Rightarrow> s\<lparr>ts_latest := l, ts_callers := (ts_callers s)(k := None)\<rparr>))"

definition timestamp_init :: timestamp_system where
  "timestamp_init = \<lparr>ts_latest = 0, ts_callers = (\<lambda>_. None), ts_issued = []\<rparr>"

definition timestamp_inv :: "timestamp_system \<Rightarrow> bool" where
  "timestamp_inv s \<longleftrightarrow> sorted_wrt (<) (ts_issued s) \<and> (\<forall>t \<in> set (ts_issued s). t \<le> ts_latest s)"

lemma next_at_pass_return:
  "next_at_pass wall previous spurious latest = (Cas_Return t, l) \<Longrightarrow> latest < t \<and> wall \<le> t \<and> l = t"
  using checked_succ_greater [of previous]
  by (auto simp: next_at_pass_def Let_def max_def split: option.splits if_splits)

lemma next_at_pass_no_return:
  "next_at_pass wall previous spurious latest = (r, l) \<Longrightarrow> (\<And>t. r \<noteq> Cas_Return t) \<Longrightarrow> l = latest"
  by (auto simp: next_at_pass_def Let_def split: option.splits if_splits)

lemma timestamp_inv_step: "timestamp_inv s \<Longrightarrow> timestamp_inv (timestamp_exec x s)"
proof (cases x)
  case (T_Pass k spurious)
  assume inv: "timestamp_inv s"
  show ?thesis
  proof (cases "ts_callers s k")
    case (Some c)
    obtain wall previous where c: "c = (wall, previous)" by (cases c)
    obtain r l where pass: "next_at_pass wall previous spurious (ts_latest s) = (r, l)"
      by (cases "next_at_pass wall previous spurious (ts_latest s)")
    show ?thesis
    proof (cases r)
      case (Cas_Return t)
      then have "ts_latest s < t" "l = t" using next_at_pass_return pass by blast+
      then show ?thesis
        using inv T_Pass Some c pass Cas_Return
        by (auto simp: timestamp_inv_def sorted_wrt_append intro: order.strict_trans1 less_imp_le)
    qed (use inv T_Pass Some c pass next_at_pass_no_return [OF pass] in \<open>simp_all add: timestamp_inv_def\<close>)
  qed (use inv T_Pass in simp)
qed (simp add: timestamp_inv_def)

interpretation timestamps: op_system timestamp_exec timestamp_inv
  by unfold_locales (rule timestamp_inv_step)

lemma next_at_eq:
  "next_at wall latest =
     (if latest = - 1 then None else Some (max wall (latest + 1), max wall (latest + 1)))"
  by (simp add: next_at_def next_at_pass_def checked_succ_def Let_def)

lemma next_at_Some:
  assumes "next_at wall latest = Some (t, l)"
  shows "latest < t" "wall \<le> t" "l = t"
proof -
  have "latest \<noteq> - 1" and t: "t = max wall (latest + 1)" "l = t"
    using assms by (auto simp: next_at_eq split: if_splits)
  then have "latest < latest + 1" using checked_succ_greater [of latest] by (simp add: checked_succ_def)
  then show "latest < t" "wall \<le> t" "l = t" using t by (simp_all add: less_max_iff_disj)
qed

subsection \<open>Metadata cache\<close>

record metadata_cache =
  mc_group_index :: "string \<rightharpoonup> bytes"
  mc_contact_names :: "string \<rightharpoonup> string"

definition metadata_cache_default :: metadata_cache where
  "metadata_cache_default = \<lparr>mc_group_index = Map.empty, mc_contact_names = Map.empty\<rparr>"

definition group_key_for_identifier :: "string \<Rightarrow> metadata_cache \<Rightarrow> bytes option" where
  "group_key_for_identifier i m = mc_group_index m i"

definition index_group :: "string \<Rightarrow> bytes \<Rightarrow> metadata_cache \<Rightarrow> metadata_cache" where
  "index_group i key m = m\<lparr>mc_group_index := (mc_group_index m)(i \<mapsto> key)\<rparr>"

definition remove_group_index :: "string \<Rightarrow> metadata_cache \<Rightarrow> metadata_cache" where
  "remove_group_index i m = m\<lparr>mc_group_index := (mc_group_index m)(i := None)\<rparr>"

definition get_contact_name :: "string \<Rightarrow> metadata_cache \<Rightarrow> string option" where
  "get_contact_name p m = mc_contact_names m p"

definition put_contact_name :: "string \<Rightarrow> string \<Rightarrow> metadata_cache \<Rightarrow> metadata_cache" where
  "put_contact_name p n m = m\<lparr>mc_contact_names := (mc_contact_names m)(p \<mapsto> n)\<rparr>"

lemmas metadata_defs [model_defs] =
  group_key_for_identifier_def index_group_def remove_group_index_def get_contact_name_def
  put_contact_name_def

subsection \<open>Properties\<close>

text \<open>
  C36. Timestamps issued by any number of concurrent callers, under any interleaving, spurious
  exchange failures included, are strictly increasing in the order they are issued, so no two messages share one.
\<close>

theorem timestamps_strictly_increasing:
  "sorted_wrt (<) (ts_issued (fold timestamp_exec ops timestamp_init))"
  using timestamps.run_inv_all [of timestamp_init ops]
  by (simp add: timestamp_inv_def timestamp_init_def)

text \<open>
  The recovery delays since the last reset are 1, 2, 4, 8, 16, 32 seconds and 32 seconds from
  then on: the backoff grows to its cap, stays there and is never exhausted.
\<close>

lemma recovery_delays:
  assumes "n < usize_limit"
  shows "delays n (backoff_reset b) = map (\<lambda>i. 2 ^ min i 5) [0..<n]"
  using delays_from [of 0 n] assms by (cases b) (simp add: backoff_reset_def)

text \<open>
  Departure from a group is permanent: once a group is departed, no later sequence of leave
  operations makes it active or leaving again, and everything projected for it is completed without being shown.
\<close>

lemma departure_permanent:
  assumes "is_departed g i"
  shows "departure_state_of (fold departure_exec ops g) i = Departure_Departed \<and>
    departure_projection_disposition (departure_state_of (fold departure_exec ops g) i) = Some Complete"
  using departure.run_inv_all [OF assms, of ops]
  by (simp add: departure_state_of_def is_departed_def departure_projection_disposition_def)

end
