(* ===== verification/Content_Model.thy ===== *)
theory Content_Model
  imports Prelude Session_State
begin

section \<open>Signal content and its text (coordinator.rs)\<close>

text \<open>
  The messages presage delivers, as the records of the fields the backend reads, and the pure
  functions that route them and render them as text. What libsignal and the hash library compute is a record of
  functions passed to the definitions that call them.
\<close>

subsection \<open>Identities and library functions\<close>

type_synonym aci = bytes
type_synonym group_key = bytes

datatype service_id = Aci aci | Pni bytes

record externals =
  x_service_id_string :: "service_id \<Rightarrow> string"
  x_parse_service_id :: "string \<Rightarrow> service_id option"
  x_parse_uuid :: "string \<Rightarrow> bytes option"
  x_sha256 :: "bytes \<Rightarrow> bytes"
  x_gif_flag :: u32

datatype thread = Thread_Contact service_id | Thread_Group group_key

subsection \<open>Messages\<close>

record attachment_pointer =
  ap_reference :: bytes
  ap_size :: "u32 option"
  ap_content_type :: "string option"
  ap_file_name :: "string option"
  ap_flags :: "u32 option"

datatype associated_value = Mention_Aci string | Associated_Other

record body_range =
  br_associated_value :: "associated_value option"

record link_preview =
  lp_url :: "string option"
  lp_title :: "string option"
  lp_description :: "string option"

record group_context =
  gc_master_key :: "bytes option"
  gc_revision :: "u32 option"

text \<open>
  \<open>dm_reaction\<close> and \<open>dm_quote\<close> hold the emoji of the reaction and the text of the quote, the only
  fields the backend reads of them; \<open>dm_delete\<close> says whether the message deletes another.
\<close>

record data_message =
  dm_body :: "string option"
  dm_timestamp :: "u64 option"
  dm_group_v2 :: "group_context option"
  dm_attachments :: "attachment_pointer list"
  dm_delete :: bool
  dm_is_view_once :: "bool option"
  dm_reaction :: "string option option"
  dm_body_ranges :: "body_range list"
  dm_preview :: "link_preview list"
  dm_quote :: "string option option"

definition data_message_default :: data_message where
  "data_message_default =
     \<lparr>dm_body = None, dm_timestamp = None, dm_group_v2 = None, dm_attachments = [], dm_delete = False,
      dm_is_view_once = None, dm_reaction = None, dm_body_ranges = [], dm_preview = [], dm_quote = None\<rparr>"

record edit_message =
  em_target_sent_timestamp :: "u64 option"
  em_data_message :: "data_message option"

record sent_transcript =
  st_message :: "data_message option"
  st_edit_message :: "edit_message option"
  st_timestamp :: "u64 option"
  st_destination :: "service_id option"

datatype sync_content = Sync_Sent sent_transcript | Sync_Other
datatype typing_action = Typing_Started | Typing_Stopped | Typing_Unknown

record typing_message =
  ty_group_id :: "bytes option"
  ty_action :: "typing_action option"
  ty_timestamp :: "u64 option"

record receipt_message =
  rm_type :: "int option"
  rm_timestamp :: "u64 list"

datatype content_body =
    Body_Data data_message
  | Body_Edit edit_message
  | Body_Sync "sync_content option"
  | Body_Typing typing_message
  | Body_Receipt receipt_message
  | Body_Decryption_Error
  | Body_Other

record content =
  ct_sender :: service_id
  ct_destination :: service_id
  ct_client_timestamp_ms :: int
  ct_needs_receipt :: bool
  ct_body :: content_body

record group_member =
  gm_aci :: aci
  gm_administrator :: bool

record group =
  gr_title :: string
  gr_avatar :: string
  gr_revision :: u32
  gr_members :: "group_member list"

record sent_message =
  sm_thread :: thread
  sm_timestamp :: u64

subsection \<open>Routing\<close>

datatype message_target = Target_Direct | Target_Group group_key | Target_Malformed

definition group_message_target :: "data_message \<Rightarrow> message_target" where
  "group_message_target message =
     (case dm_group_v2 message of
        None \<Rightarrow> Target_Direct
      | Some g \<Rightarrow>
          (case gc_master_key g of
             Some key \<Rightarrow> if length key = 32 then Target_Group key else Target_Malformed
           | None \<Rightarrow> Target_Malformed))"

record bare_route =
  rt_peer :: string
  rt_outgoing :: bool

definition bare_data_message_route :: "externals \<Rightarrow> service_id \<Rightarrow> service_id \<Rightarrow> aci \<Rightarrow> bare_route" where
  "bare_data_message_route x sender destination local_aci =
     (let outgoing = (sender = Aci local_aci)
      in \<lparr>rt_peer = x_service_id_string x (if outgoing then destination else sender),
          rt_outgoing = outgoing\<rparr>)"

definition group_message_peer :: "externals \<Rightarrow> bool \<Rightarrow> string \<Rightarrow> aci \<Rightarrow> string" where
  "group_message_peer x outgoing peer local_aci =
     (if outgoing then x_service_id_string x (Aci local_aci) else peer)"

definition parse_recipient :: "externals \<Rightarrow> string \<Rightarrow> service_id option" where
  "parse_recipient x v =
     (case x_parse_service_id x v of
        Some sid \<Rightarrow> Some sid
      | None \<Rightarrow> map_option Aci (x_parse_uuid x v))"

text \<open>The text \<^verbatim>\<open>signal-purple group identifier\<close> and a NUL, hashed before the key.\<close>

definition ascii_bytes :: "string \<Rightarrow> bytes" where
  "ascii_bytes s = map (\<lambda>c. word_of_nat (of_char c)) s"

definition group_identifier :: "externals \<Rightarrow> group_key \<Rightarrow> string" where
  "group_identifier x key =
     hex_encode (x_sha256 x (ascii_bytes ''signal-purple group identifier'' @ [0] @ key))"

definition contains_local_aci :: "aci list \<Rightarrow> aci \<Rightarrow> bool" where
  "contains_local_aci members local_aci = list_ex (\<lambda>member. member = local_aci) members"

definition group_contains_local_aci :: "group \<Rightarrow> aci \<Rightarrow> bool" where
  "group_contains_local_aci g local_aci = contains_local_aci (map gm_aci (gr_members g)) local_aci"

text \<open>The client timestamp is an \<^verbatim>\<open>i64\<close>, cast to \<^verbatim>\<open>u64\<close> where no other timestamp is given.\<close>

definition content_timestamp :: "content \<Rightarrow> u64" where
  "content_timestamp c =
     (let client = word_of_int (ct_client_timestamp_ms c)
      in case ct_body c of
           Body_Data m \<Rightarrow> (case dm_timestamp m of Some t \<Rightarrow> t | None \<Rightarrow> client)
         | Body_Edit e \<Rightarrow> (case em_target_sent_timestamp e of Some t \<Rightarrow> t | None \<Rightarrow> client)
         | Body_Sync (Some (Sync_Sent sent)) \<Rightarrow>
             (case st_timestamp sent of Some t \<Rightarrow> t | None \<Rightarrow> client)
         | _ \<Rightarrow> client)"

subsection \<open>Text of a message\<close>

text \<open>U+FFFC, the placeholder of a mention.\<close>

definition object_replacement :: string where
  "object_replacement = [CHR 0xEF, CHR 0xBF, CHR 0xBC]"

fun replace_mentions :: "string list \<Rightarrow> string list \<Rightarrow> string" where
  "replace_mentions mentions [] = []"
| "replace_mentions mentions (ch # chs) =
     (if ch = object_replacement then
        (case mentions of
           aci # rest \<Rightarrow> ''@'' @ aci @ replace_mentions rest chs
         | [] \<Rightarrow> ''@'' @ replace_mentions [] chs)
      else ch @ replace_mentions mentions chs)"

definition mention_acis :: "body_range list \<Rightarrow> string list" where
  "mention_acis ranges =
     List.map_filter (\<lambda>r. case br_associated_value r of Some (Mention_Aci a) \<Rightarrow> Some a | _ \<Rightarrow> None) ranges"

definition format_body_with_mentions :: "string \<Rightarrow> body_range list \<Rightarrow> string" where
  "format_body_with_mentions body body_ranges =
     (let mentions = mention_acis body_ranges
      in if mentions = [] \<or> object_replacement \<notin> set (chars body) then body
         else replace_mentions mentions (chars body))"

definition non_empty :: "string option \<Rightarrow> string option" where
  "non_empty s = (case s of Some t \<Rightarrow> (if t = [] then None else Some t) | None \<Rightarrow> None)"

definition or_else :: "'a option \<Rightarrow> 'a option \<Rightarrow> 'a option" where
  "or_else x y = (case x of Some _ \<Rightarrow> x | None \<Rightarrow> y)"

definition preview_text :: "link_preview \<Rightarrow> string option" where
  "preview_text p =
     or_else (non_empty (lp_url p)) (or_else (non_empty (lp_title p)) (non_empty (lp_description p)))"

fun find_map :: "('a \<Rightarrow> 'b option) \<Rightarrow> 'a list \<Rightarrow> 'b option" where
  "find_map f [] = None"
| "find_map f (x # xs) = (case f x of Some y \<Rightarrow> Some y | None \<Rightarrow> find_map f xs)"

text \<open>
  \<^verbatim>\<open>str::lines\<close>: split at line feeds, without a final empty line and without a carriage return
  before the line feed.
\<close>

definition LF :: char where
  "LF = CHR 0x0A"

definition CR :: char where
  "CR = CHR 0x0D"

fun split_on :: "char \<Rightarrow> string \<Rightarrow> string list" where
  "split_on d [] = [[]]"
| "split_on d (c # s) =
     (if c = d then [] # split_on d s
      else (case split_on d s of l # ls \<Rightarrow> (c # l) # ls | [] \<Rightarrow> [[c]]))"

definition strip_cr :: "string \<Rightarrow> string" where
  "strip_cr l = (if l \<noteq> [] \<and> last l = CR then butlast l else l)"

definition str_lines :: "string \<Rightarrow> string list" where
  "str_lines s =
     (let parts = split_on LF s
      in map strip_cr (butlast parts) @ (if last parts = [] then [] else [last parts]))"

fun join :: "string \<Rightarrow> string list \<Rightarrow> string" where
  "join sep [] = []"
| "join sep [l] = l"
| "join sep (l # ls) = l @ sep @ join sep ls"

definition quote_lines :: "string \<Rightarrow> string" where
  "quote_lines t = join [LF] (map (\<lambda>line. ''> '' @ line) (str_lines t))"

definition is_view_once :: "data_message \<Rightarrow> bool" where
  "is_view_once m = (case dm_is_view_once m of Some b \<Rightarrow> b | None \<Rightarrow> False)"

definition message_body_text :: "data_message \<Rightarrow> string" where
  "message_body_text message =
     (case or_else
         (map_option (\<lambda>body. format_body_with_mentions body (dm_body_ranges message))
            (non_empty (dm_body message)))
         (find_map preview_text (dm_preview message)) of
        Some t \<Rightarrow> t | None \<Rightarrow> [])"

definition data_message_text :: "data_message \<Rightarrow> string" where
  "data_message_text message =
     (if dm_delete message then ''[Message deleted by sender]''
      else if is_view_once message then
        (case non_empty (dm_body message) of
           Some body \<Rightarrow> ''[View-once media: open on primary phone] '' @ body
         | None \<Rightarrow> ''[View-once media: open on primary phone]'')
      else case dm_reaction message of
        Some (Some emoji) \<Rightarrow> ''Reacted with '' @ emoji
      | _ \<Rightarrow>
          let formatted_body = message_body_text message
          in case (case dm_quote message of Some q \<Rightarrow> non_empty q | None \<Rightarrow> None) of
               Some quote_text \<Rightarrow>
                 let quoted = quote_lines quote_text
                 in if formatted_body = [] then quoted else quoted @ [LF, LF] @ formatted_body
             | None \<Rightarrow> formatted_body)"

definition regular_message_attachments :: "data_message \<Rightarrow> attachment_pointer list" where
  "regular_message_attachments message =
     (if is_view_once message then [] else dm_attachments message)"

definition attachment_pointer_without_sender_size_hint :: "attachment_pointer \<Rightarrow> attachment_pointer" where
  "attachment_pointer_without_sender_size_hint a = a\<lparr>ap_size := None\<rparr>"

definition truncate_attachment_to_sender_size :: "attachment_pointer \<Rightarrow> bytes \<Rightarrow> bytes" where
  "truncate_attachment_to_sender_size a data =
     (case ap_size a of Some sz \<Rightarrow> take (unat sz) data | None \<Rightarrow> data)"

fun projected_lines :: "string \<Rightarrow> (string option \<times> bool) list \<Rightarrow> string" where
  "projected_lines line0 [] = line0"
| "projected_lines line0 ((name, suppress_placeholder) # rest) =
     (if suppress_placeholder then projected_lines line0 rest
      else
        projected_lines
          ((if line0 = [] then [] else line0 @ [LF]) @
           ''[Attachment: '' @ (case name of Some n \<Rightarrow> n | None \<Rightarrow> ''attachment'') @ '']'') rest)"

definition projected_data_message_text :: "string \<Rightarrow> (string option \<times> bool) list \<Rightarrow> string option" where
  "projected_data_message_text line0 attachments =
     (let t = projected_lines line0 attachments in if t = [] then None else Some t)"

subsection \<open>Lemmas\<close>

lemma LF_CR [simp]: "LF \<noteq> CR" "CR \<noteq> LF"
  by (simp_all add: LF_def CR_def)

lemma split_on_non_empty [simp]: "split_on d s \<noteq> []"
  by (induction s) (auto split: list.splits)

lemma split_on_no_delimiter: "l \<in> set (split_on d s) \<Longrightarrow> d \<notin> set l"
  by (induction s arbitrary: l) (auto split: list.splits if_splits)

lemma split_on_id: "d \<notin> set l \<Longrightarrow> split_on d l = [l]"
  by (induction l) auto

lemma split_on_append: "d \<notin> set l \<Longrightarrow> split_on d (l @ d # s) = l # split_on d s"
  by (induction l) auto

lemma split_on_join:
  "ls \<noteq> [] \<Longrightarrow> (\<forall>l \<in> set ls. d \<notin> set l) \<Longrightarrow> split_on d (join [d] ls) = ls"
proof (induction ls rule: induct_list012)
  case (3 l m ls)
  then show ?case by (simp add: split_on_append)
qed (simp_all add: split_on_id)

lemma str_lines_no_lf: "l \<in> set (str_lines s) \<Longrightarrow> LF \<notin> set l"
proof -
  assume "l \<in> set (str_lines s)"
  then consider m where "m \<in> set (split_on LF s)" "l = strip_cr m" | "l \<in> set (split_on LF s)"
    by (auto simp: str_lines_def Let_def dest: in_set_butlastD split: if_splits)
  then show ?thesis
    by cases (auto simp: strip_cr_def dest: split_on_no_delimiter in_set_butlastD)
qed

lemma str_lines_Nil_iff: "str_lines s = [] \<longleftrightarrow> s = []"
proof (cases s)
  case (Cons c t)
  have "str_lines s \<noteq> []"
  proof (cases "butlast (split_on LF s) = []")
    case True
    then have "split_on LF s = [last (split_on LF s)]"
      by (metis append_butlast_last_id append_Nil split_on_non_empty)
    moreover have "split_on LF s \<noteq> [[]]" using Cons by (auto split: list.splits if_splits)
    ultimately show ?thesis by (auto simp: str_lines_def Let_def)
  qed (auto simp: str_lines_def Let_def)
  with Cons show ?thesis by simp
qed (simp add: str_lines_def)

lemma projected_lines_eq:
  "projected_lines line0 atts =
     join [LF] ((if line0 = [] then [] else [line0]) @
       map (\<lambda>(name, _). ''[Attachment: '' @ (case name of Some n \<Rightarrow> n | None \<Rightarrow> ''attachment'') @ '']'')
         (filter (\<lambda>(_, suppressed). \<not> suppressed) atts))"
proof (induction line0 atts rule: projected_lines.induct)
  case (2 line0 name suppressed rest)
  have join_merge: "join sep ((a @ sep @ b) # ls) = join sep (a # b # ls)" for sep a b ls
    by (cases ls) simp_all
  show ?case
  proof (cases "suppressed \<or> line0 = []")
    case False
    let ?p = "''[Attachment: '' @ (case name of Some n \<Rightarrow> n | None \<Rightarrow> ''attachment'') @ '']''"
    have "projected_lines line0 ((name, suppressed) # rest) = projected_lines (line0 @ [LF] @ ?p) rest"
      using False by simp
    also have "\<dots> = join [LF] ((line0 @ [LF] @ ?p) #
        map (\<lambda>(name, _). ''[Attachment: '' @ (case name of Some n \<Rightarrow> n | None \<Rightarrow> ''attachment'') @ '']'')
         (filter (\<lambda>(_, suppressed). \<not> suppressed) rest))"
      using False "2.IH"(2) by simp
    finally show ?thesis using False by (simp only: join_merge) simp
  qed (use 2 in \<open>auto\<close>)
qed simp

definition count_before :: "string \<Rightarrow> nat \<Rightarrow> string list \<Rightarrow> nat" where
  "count_before d i chs = length (filter (\<lambda>c. c = d) (take i chs))"

definition mention_at :: "string list \<Rightarrow> string list \<Rightarrow> nat \<Rightarrow> string" where
  "mention_at mentions chs i =
     (if chs ! i = object_replacement then
        ''@'' @ (let k = count_before object_replacement i chs
                 in if k < length mentions then mentions ! k else [])
      else chs ! i)"

lemma mention_at_Suc:
  "mention_at mentions (ch # chs) (Suc i) =
     mention_at (if ch = object_replacement then tl mentions else mentions) chs i"
  by (cases mentions) (auto simp: mention_at_def count_before_def Let_def)

lemma replace_mentions_positional:
  "replace_mentions mentions chs = concat (map (mention_at mentions chs) [0..<length chs])"
proof (induction mentions chs rule: replace_mentions.induct)
  case (2 mentions ch chs)
  have shift: "map (mention_at mentions (ch # chs)) [0..<length (ch # chs)] =
      mention_at mentions (ch # chs) 0 #
      map (mention_at (if ch = object_replacement then tl mentions else mentions) chs) [0..<length chs]"
    by (subst upt_conv_Cons)
       (simp_all add: map_Suc_upt [symmetric] mention_at_Suc comp_def del: upt_Suc)
  have zero: "mention_at mentions (ch # chs) 0 =
      (if ch = object_replacement then ''@'' @ (if mentions = [] then [] else hd mentions) else ch)"
    by (cases mentions) (simp_all add: mention_at_def count_before_def)
  show ?case
    unfolding shift zero using 2 by (cases mentions) auto
qed simp

text \<open>Library functions for the examples.\<close>

definition sample_externals :: externals where
  "sample_externals =
     \<lparr>x_service_id_string = (\<lambda>s. case s of Aci b \<Rightarrow> hex_encode b | Pni b \<Rightarrow> ''PNI:'' @ hex_encode b),
      x_parse_service_id = (\<lambda>s. map_option Aci (hex_decode s)),
      x_parse_uuid = (\<lambda>s. None),
      x_sha256 = (\<lambda>b. take 32 (b @ replicate 32 0)),
      x_gif_flag = 8\<rparr>"

subsection \<open>Properties\<close>

text \<open>
  A quoted message cannot imitate text of the message that quotes it: every line of the
  rendered quote, split at line feeds, starts with the quotation mark.
\<close>

lemma quote_every_line_marked:
  assumes "quote_text \<noteq> []"
  shows "split_on LF (quote_lines quote_text) = map (\<lambda>line. ''> '' @ line) (str_lines quote_text) \<and>
    list_all (prefix ''> '') (split_on LF (quote_lines quote_text))"
proof -
  have "LF \<notin> set ''> ''" by (simp add: LF_def)
  then have "split_on LF (quote_lines quote_text) = map (\<lambda>line. ''> '' @ line) (str_lines quote_text)"
    using assms str_lines_no_lf [of _ quote_text] unfolding quote_lines_def
    by (intro split_on_join) (auto simp: str_lines_Nil_iff)
  then show ?thesis by (simp add: list_all_iff)
qed

text \<open>
  C38. Mentions are placed by position: when the message has mentions and a placeholder, the k-th
  placeholder becomes an at sign and the k-th mention, a placeholder beyond the mentions becomes a bare at sign, and every
  other character is kept where it is.
\<close>

theorem mentions_by_position:
  assumes "mention_acis ranges \<noteq> []" "object_replacement \<in> set (chars body)"
  shows "format_body_with_mentions body ranges =
    concat (map (mention_at (mention_acis ranges) (chars body)) [0..<length (chars body)])"
  using assms by (simp add: format_body_with_mentions_def Let_def replace_mentions_positional)

theorem mentions_by_position_witness:
  "format_body_with_mentions (''a'' @ object_replacement) [\<lparr>br_associated_value = Some (Mention_Aci ''u'')\<rparr>]
     = ''a@u''"
proof -
  have chars: "chars (''a'' @ object_replacement) = [''a'', object_replacement]"
    by (simp add: object_replacement_def utf8_len_def)
  have acis: "mention_acis [\<lparr>br_associated_value = Some (Mention_Aci ''u'')\<rparr>] = [''u'']"
    by (simp add: mention_acis_def List.map_filter_def)
  have a: "''a'' \<noteq> object_replacement" by (simp add: object_replacement_def)
  have "format_body_with_mentions (''a'' @ object_replacement) [\<lparr>br_associated_value = Some (Mention_Aci ''u'')\<rparr>]
      = concat (map (mention_at [''u''] [''a'', object_replacement]) [0..<length [''a'', object_replacement]])"
    unfolding chars [symmetric] acis [symmetric]
    by (rule mentions_by_position) (simp_all only: chars acis, simp_all)
  also have "\<dots> = ''a@u''" using a by (simp add: mention_at_def count_before_def Let_def)
  finally show ?thesis .
qed

end
