(* ===== verification/Error_Class.thy ===== *)
theory Error_Class
  imports Prelude
begin

section \<open>Classification of storage and network errors\<close>

text \<open>
  store/errors.rs and the classifiers of coordinator.rs. The errors of sqlx, libsignal, reqwest and
  presage are data: the constructors the code matches on, one for the rest, and the text
  their \<^verbatim>\<open>Display\<close> renders where the code reads or prints it.
\<close>

subsection \<open>Errors of the libraries\<close>

datatype sqlx_error =
    Sqlx_Pool_Timed_Out
  | Sqlx_Database "string option" string
  | Sqlx_Io
  | Sqlx_Other string

datatype protocol_error =
    Protocol_Invalid_State string string
  | Protocol_Other

datatype store_error_kind =
    Store_Db sqlx_error
  | Store_Io
  | Store_Protocol protocol_error
  | Store_Other

record sqlite_store_error =
  sse_kind :: store_error_kind
  sse_display :: string

record http_error =
  he_is_connect :: bool
  he_is_timeout :: bool
  he_status :: "nat option"

datatype websocket_error =
    Ws_Handshake_Status nat
  | Ws_Handshake_Other
  | Ws_Reqwest http_error
  | Ws_Tungstenite
  | Ws_Other

datatype service_error =
    Svc_Timeout
  | Svc_Send_Error
  | Svc_IO
  | Svc_Rate_Limit_Exceeded
  | Svc_Ws_Closing
  | Svc_Ws_Error websocket_error
  | Svc_Unhandled_Response_Code nat
  | Svc_Http http_error
  | Svc_Signal_Protocol_Error protocol_error
  | Svc_Other

datatype message_sender_error =
    Sender_Service_Error service_error
  | Sender_Protocol_Error protocol_error
  | Sender_Other

datatype presage_error_kind =
    Pre_Io_Error
  | Pre_Timeout
  | Pre_Message_Pipe_Interrupted
  | Pre_Service_Error service_error
  | Pre_Message_Sender_Error message_sender_error
  | Pre_Protocol_Error protocol_error
  | Pre_Store sqlite_store_error
  | Pre_Other

record presage_error =
  pre_kind :: presage_error_kind
  pre_display :: string

subsection \<open>Storage errors (store/errors.rs)\<close>

definition contention_message :: "string \<Rightarrow> bool" where
  "contention_message m =
     (contains m ''pool timed out'' \<or> contains m ''timed out'' \<or> contains m ''locked'' \<or>
      contains m ''busy'')"

definition transient_sqlite_code :: "string \<Rightarrow> bool" where
  "transient_sqlite_code code =
     (code = ''5'' \<or> code = ''6'' \<or> prefix ''5_'' code \<or> prefix ''6_'' code \<or>
      code = ''261'' \<or> code = ''517'' \<or> code = ''773'' \<or> code = ''1029'' \<or> code = ''1032'')"

definition sqlx_error_is_transient :: "sqlx_error \<Rightarrow> bool" where
  "sqlx_error_is_transient e =
     (case e of
        Sqlx_Pool_Timed_Out \<Rightarrow> True
      | Sqlx_Database code message \<Rightarrow>
          (case code of
             Some c \<Rightarrow> if transient_sqlite_code c then True else contention_message message
           | None \<Rightarrow> contention_message message)
      | Sqlx_Io \<Rightarrow> True
      | Sqlx_Other display \<Rightarrow> contention_message display)"

definition signal_protocol_error_is_transient :: "protocol_error \<Rightarrow> bool" where
  "signal_protocol_error_is_transient e =
     (case e of
        Protocol_Invalid_State scope message \<Rightarrow>
          let scope_lower = to_ascii_lowercase scope;
              message_lower = to_ascii_lowercase message
          in (scope_lower = ''sqlite'' \<or> scope_lower = ''presage sqlite store error'' \<or>
              contains scope_lower ''sqlite'') \<and>
             (contention_message message_lower \<or> contains message_lower ''code: 5'' \<or>
              contains message_lower ''code: 6'' \<or> contains message_lower ''code: 1032'')
      | Protocol_Other \<Rightarrow> False)"

definition sqlite_store_error_is_transient :: "sqlite_store_error \<Rightarrow> bool" where
  "sqlite_store_error_is_transient e =
     (case sse_kind e of
        Store_Db db \<Rightarrow> sqlx_error_is_transient db
      | Store_Io \<Rightarrow> True
      | Store_Protocol p \<Rightarrow> signal_protocol_error_is_transient p
      | Store_Other \<Rightarrow> False)"

datatype storage_error =
    Storage_Store string sqlite_store_error
  | Storage_Not_Found string

definition storage_error_is_transient :: "storage_error \<Rightarrow> bool" where
  "storage_error_is_transient e =
     (case e of
        Storage_Store context source \<Rightarrow> sqlite_store_error_is_transient source
      | Storage_Not_Found context \<Rightarrow> True)"

definition storage_error_display :: "storage_error \<Rightarrow> string" where
  "storage_error_display e =
     (case e of
        Storage_Store context source \<Rightarrow> context @ '': '' @ sse_display source
      | Storage_Not_Found context \<Rightarrow> context)"

subsection \<open>Network errors (coordinator.rs)\<close>

definition retryable_http_status :: "nat \<Rightarrow> bool" where
  "retryable_http_status status =
     (status = 408 \<or> status = 425 \<or> status = 429 \<or> (500 \<le> status \<and> status \<le> 599))"

definition http_error_is_transient :: "http_error \<Rightarrow> bool" where
  "http_error_is_transient e =
     (he_is_connect e \<or> he_is_timeout e \<or>
      (case he_status e of Some status \<Rightarrow> retryable_http_status status | None \<Rightarrow> False))"

definition websocket_error_is_transient :: "websocket_error \<Rightarrow> bool" where
  "websocket_error_is_transient e =
     (case e of
        Ws_Handshake_Status status \<Rightarrow> retryable_http_status status
      | Ws_Handshake_Other \<Rightarrow> False
      | Ws_Reqwest error \<Rightarrow> http_error_is_transient error
      | Ws_Tungstenite \<Rightarrow> True
      | Ws_Other \<Rightarrow> False)"

definition service_error_is_transient :: "service_error \<Rightarrow> bool" where
  "service_error_is_transient e =
     (case e of
        Svc_Timeout \<Rightarrow> True
      | Svc_Send_Error \<Rightarrow> True
      | Svc_IO \<Rightarrow> True
      | Svc_Rate_Limit_Exceeded \<Rightarrow> True
      | Svc_Ws_Closing \<Rightarrow> True
      | Svc_Ws_Error error \<Rightarrow> websocket_error_is_transient error
      | Svc_Unhandled_Response_Code status \<Rightarrow> retryable_http_status status
      | Svc_Http error \<Rightarrow> http_error_is_transient error
      | Svc_Signal_Protocol_Error error \<Rightarrow> signal_protocol_error_is_transient error
      | Svc_Other \<Rightarrow> False)"

definition message_sender_error_is_transient :: "message_sender_error \<Rightarrow> bool" where
  "message_sender_error_is_transient e =
     (case e of
        Sender_Service_Error error \<Rightarrow> service_error_is_transient error
      | Sender_Protocol_Error error \<Rightarrow> signal_protocol_error_is_transient error
      | Sender_Other \<Rightarrow> False)"

definition receive_error_is_transient :: "presage_error \<Rightarrow> bool" where
  "receive_error_is_transient e =
     (case pre_kind e of
        Pre_Io_Error \<Rightarrow> True
      | Pre_Timeout \<Rightarrow> True
      | Pre_Message_Pipe_Interrupted \<Rightarrow> True
      | Pre_Service_Error error \<Rightarrow> service_error_is_transient error
      | Pre_Message_Sender_Error error \<Rightarrow> message_sender_error_is_transient error
      | Pre_Protocol_Error error \<Rightarrow> signal_protocol_error_is_transient error
      | Pre_Store error \<Rightarrow> sqlite_store_error_is_transient error
      | Pre_Other \<Rightarrow> False)"

definition service_error_indicates_closed_websocket :: "service_error \<Rightarrow> bool" where
  "service_error_indicates_closed_websocket e =
     (e = Svc_Ws_Closing \<or> (case e of Svc_Ws_Error error \<Rightarrow> error = Ws_Tungstenite | _ \<Rightarrow> False))"

definition receipt_error_indicates_closed_websocket :: "presage_error \<Rightarrow> bool" where
  "receipt_error_indicates_closed_websocket e =
     (case pre_kind e of
        Pre_Message_Pipe_Interrupted \<Rightarrow> True
      | Pre_Service_Error error \<Rightarrow> service_error_indicates_closed_websocket error
      | Pre_Message_Sender_Error error \<Rightarrow>
          (case error of
             Sender_Service_Error service \<Rightarrow> service_error_indicates_closed_websocket service
           | _ \<Rightarrow> False)
      | _ \<Rightarrow> False)"

datatype receipt_failure_action = Failure_Discard | Failure_Retry | Failure_Recover

definition delivery_receipt_failure_action :: "presage_error \<Rightarrow> receipt_failure_action" where
  "delivery_receipt_failure_action e =
     (if \<not> receive_error_is_transient e then Failure_Discard
      else if receipt_error_indicates_closed_websocket e then Failure_Recover
      else Failure_Retry)"

lemmas transient_defs [model_defs] =
  receive_error_is_transient_def message_sender_error_is_transient_def service_error_is_transient_def
  websocket_error_is_transient_def

lemma closed_service_transient:
  "service_error_indicates_closed_websocket e \<Longrightarrow> service_error_is_transient e"
  by (auto simp: service_error_indicates_closed_websocket_def transient_defs split: service_error.splits)

lemma closed_receipt_transient:
  "receipt_error_indicates_closed_websocket e \<Longrightarrow> receive_error_is_transient e"
  by (auto simp: receipt_error_indicates_closed_websocket_def receive_error_is_transient_def
      message_sender_error_is_transient_def dest: closed_service_transient
      split: presage_error_kind.splits message_sender_error.splits)

text \<open>
  The action on a failed delivery receipt is decided by the error alone and covers every
  error: recovery exactly for a closed websocket (every such error counts as transient, so none is discarded), discarding exactly for a
  permanent error, and another attempt for all other transient errors.
\<close>

lemma receipt_failure_actions:
  "(delivery_receipt_failure_action e = Failure_Recover \<longleftrightarrow> receipt_error_indicates_closed_websocket e) \<and>
   (delivery_receipt_failure_action e = Failure_Discard \<longleftrightarrow> \<not> receive_error_is_transient e) \<and>
   (delivery_receipt_failure_action e = Failure_Retry \<longleftrightarrow>
      receive_error_is_transient e \<and> \<not> receipt_error_indicates_closed_websocket e)"
  using closed_receipt_transient [of e] by (auto simp: delivery_receipt_failure_action_def)

text \<open>
  Contention on the database is recognised through every layer that wraps it: an error that
  the storage classifier finds transient is transient when presage reports it from the store, and an
  \<^verbatim>\<open>InvalidState\<close> of the protocol store that names sqlite and a lock, a busy database or a timeout, in any letter
  case, is transient whether the store, the protocol, the service or the message sender reports it.
\<close>

lemma contention_transient_through_layers:
  "receive_error_is_transient \<lparr>pre_kind = Pre_Store e, pre_display = d\<rparr> = sqlite_store_error_is_transient e \<and>
   (let p = Protocol_Invalid_State scope message;
        t = (contains (to_ascii_lowercase scope) ''sqlite'' \<and>
             (contention_message (to_ascii_lowercase message) \<or>
              contains (to_ascii_lowercase message) ''code: 5'' \<or>
              contains (to_ascii_lowercase message) ''code: 6'' \<or>
              contains (to_ascii_lowercase message) ''code: 1032''))
    in receive_error_is_transient \<lparr>pre_kind = Pre_Protocol_Error p, pre_display = d\<rparr> = t \<and>
       receive_error_is_transient \<lparr>pre_kind = Pre_Service_Error (Svc_Signal_Protocol_Error p), pre_display = d\<rparr> = t \<and>
       receive_error_is_transient
         \<lparr>pre_kind = Pre_Message_Sender_Error (Sender_Service_Error (Svc_Signal_Protocol_Error p)), pre_display = d\<rparr> = t \<and>
       sqlite_store_error_is_transient \<lparr>sse_kind = Store_Protocol p, sse_display = d\<rparr> = t)"
proof -
  have "contains ''sqlite'' ''sqlite''" "contains ''presage sqlite store error'' ''sqlite''"
    by code_simp+
  then show ?thesis
    by (auto simp: transient_defs sqlite_store_error_is_transient_def
        signal_protocol_error_is_transient_def Let_def)
qed

end
