(* ===== verification/Storage.thy ===== *)
theory Storage
  imports Content_Model Error_Class
begin

section \<open>Storage and network interfaces (store/, backend/protocol.rs)\<close>

text \<open>
  The two traits the backend is generic over, as records of operations on an abstract world:
  \<^verbatim>\<open>StorageOps\<close> (store/traits.rs) and \<^verbatim>\<open>SignalProtocol\<close> (backend/protocol.rs). \<^verbatim>\<open>StorageRepository\<close>
  (store/repository.rs) implements the first over the operations of the encrypted SQLite store, a parameter; the
  in-memory repository and protocol that the repository tests itself with implement both concretely.
\<close>

type_synonym ('w, 'a) io = "'w \<Rightarrow> 'a \<times> 'w"

datatype client_outbox_kind = Kind_Direct | Kind_Group

record client_outbox_message =
  om_id :: int
  om_kind :: client_outbox_kind
  om_recipient :: string
  om_body :: string
  om_timestamp :: u64
  om_attempts :: u32

subsection \<open>The traits\<close>

record 'w storage_ops =
  so_due_outbox_messages :: "u64 \<Rightarrow> ('w, sqlite_store_error + client_outbox_message list) io"
  so_enqueue_outbox_message ::
    "client_outbox_kind \<Rightarrow> string \<Rightarrow> string \<Rightarrow> u64 \<Rightarrow> ('w, sqlite_store_error + int) io"
  so_complete_outbox_message :: "int \<Rightarrow> ('w, sqlite_store_error + unit) io"
  so_defer_outbox_message :: "int \<Rightarrow> u32 \<Rightarrow> u64 \<Rightarrow> ('w, sqlite_store_error + unit) io"
  so_expedite_outbox_messages :: "string \<Rightarrow> ('w, sqlite_store_error + unit) io"
  so_unprojected_messages :: "('w, sqlite_store_error + content list) io"
  so_mark_message_projected :: "content \<Rightarrow> ('w, sqlite_store_error + unit) io"
  so_sent_message_content :: "thread \<Rightarrow> u64 \<Rightarrow> ('w, sqlite_store_error + content option) io"
  so_mark_sent_message_projected :: "thread \<Rightarrow> u64 \<Rightarrow> ('w, storage_error + unit) io"
  so_accept_identity_change :: "string \<Rightarrow> ('w, sqlite_store_error + bool) io"
  so_dismiss_identity_change :: "string \<Rightarrow> ('w, sqlite_store_error + unit) io"
  so_groups :: "('w, storage_error + (group_key \<times> group) list) io"
  so_group :: "group_key \<Rightarrow> ('w, sqlite_store_error + group option) io"
  so_active_group :: "group_key \<Rightarrow> aci \<Rightarrow> ('w, storage_error + group option) io"

record attachment_spec =
  spec_content_type :: string
  spec_length :: usize
  spec_file_name :: "string option"

record leave_group_outcome =
  lo_peer_notification_sent :: bool
  lo_local_group_removed :: bool

record 'w signal_protocol =
  sp_local_aci :: aci
  sp_send_message :: "service_id \<Rightarrow> content_body \<Rightarrow> u64 \<Rightarrow> ('w, unit rresult) io"
  sp_send_message_to_group :: "group_key \<Rightarrow> content_body \<Rightarrow> u64 \<Rightarrow> ('w, unit rresult) io"
  sp_upload_attachment :: "attachment_spec \<Rightarrow> bytes \<Rightarrow> ('w, attachment_pointer rresult) io"
  sp_get_attachment :: "attachment_pointer \<Rightarrow> ('w, bytes rresult) io"
  sp_leave_group :: "group_key \<Rightarrow> ('w, leave_group_outcome rresult) io"
  sp_clear_sessions :: "service_id \<Rightarrow> ('w, unit rresult) io"

subsection \<open>The repository over the SQLite store (store/repository.rs)\<close>

record contact =
  co_uuid :: aci
  co_name :: string
  co_phone_number :: "string option"
  co_profile_key :: bytes

record identity_change_notice =
  in_address :: string
  in_verified :: bool

text \<open>
  The operations of the store the repository calls; the client name is an argument of the projection
  operations, and a stream of decoded rows is a list of results.
\<close>

record 'w sqlite_store =
  sq_initialize_message_projection :: "string \<Rightarrow> ('w, sqlite_store_error + unit) io"
  sq_initialize_identity_change_tracking :: "('w, sqlite_store_error + unit) io"
  sq_initialize_client_outbox :: "('w, sqlite_store_error + unit) io"
  sq_unprojected_messages :: "string \<Rightarrow> ('w, sqlite_store_error + content list) io"
  sq_mark_message_projected :: "string \<Rightarrow> content \<Rightarrow> ('w, sqlite_store_error + unit) io"
  sq_message :: "thread \<Rightarrow> u64 \<Rightarrow> ('w, sqlite_store_error + content option) io"
  sq_due_client_messages :: "u64 \<Rightarrow> ('w, sqlite_store_error + client_outbox_message list) io"
  sq_enqueue_client_message ::
    "client_outbox_kind \<Rightarrow> string \<Rightarrow> string \<Rightarrow> u64 \<Rightarrow> ('w, sqlite_store_error + int) io"
  sq_complete_client_message :: "int \<Rightarrow> ('w, sqlite_store_error + unit) io"
  sq_defer_client_message :: "int \<Rightarrow> u32 \<Rightarrow> u64 \<Rightarrow> ('w, sqlite_store_error + unit) io"
  sq_expedite_client_messages :: "string \<Rightarrow> ('w, sqlite_store_error + unit) io"
  sq_identity_change_notices :: "('w, sqlite_store_error + identity_change_notice list) io"
  sq_accept_identity_change :: "string \<Rightarrow> ('w, sqlite_store_error + bool) io"
  sq_dismiss_identity_change :: "string \<Rightarrow> ('w, sqlite_store_error + unit) io"
  sq_contacts :: "('w, sqlite_store_error + (sqlite_store_error + contact) list) io"
  sq_profile_key :: "service_id \<Rightarrow> ('w, sqlite_store_error + bytes option) io"
  sq_profile_avatar :: "aci \<Rightarrow> bytes \<Rightarrow> ('w, sqlite_store_error + bytes option) io"
  sq_groups :: "('w, sqlite_store_error + (sqlite_store_error + group_key \<times> group) list) io"
  sq_group :: "group_key \<Rightarrow> ('w, sqlite_store_error + group option) io"
  sq_group_avatar :: "group_key \<Rightarrow> ('w, sqlite_store_error + bytes option) io"

definition MESSAGE_PROJECTION_CLIENT :: string where
  "MESSAGE_PROJECTION_CLIENT = ''signal-purple-v1''"

definition map_err :: "('e \<Rightarrow> 'f) \<Rightarrow> 'e + 'a \<Rightarrow> 'f + 'a" where
  "map_err f r = (case r of Inl e \<Rightarrow> Inl (f e) | Inr v \<Rightarrow> Inr v)"

lemma map_err_simps [simp]:
  "map_err f (Inl e) = Inl (f e)"
  "map_err f (Inr v) = Inr v"
  by (simp_all add: map_err_def)

text \<open>\<^verbatim>\<open>collect::<Result<Vec<_>, _>>\<close>: the first error, or all values.\<close>

fun collect_results :: "('e + 'a) list \<Rightarrow> 'e + 'a list" where
  "collect_results [] = Inr []"
| "collect_results (Inl e # rs) = Inl e"
| "collect_results (Inr v # rs) = (case collect_results rs of Inl e \<Rightarrow> Inl e | Inr vs \<Rightarrow> Inr (v # vs))"

definition initialize_subsystems :: "'w sqlite_store \<Rightarrow> ('w, storage_error + unit) io" where
  "initialize_subsystems st w =
     (case sq_initialize_message_projection st MESSAGE_PROJECTION_CLIENT w of
        (Inl e, w1) \<Rightarrow> (Inl (Storage_Store ''Could not initialize durable message replay'' e), w1)
      | (Inr _, w1) \<Rightarrow>
          (case sq_initialize_identity_change_tracking st w1 of
             (Inl e, w2) \<Rightarrow> (Inl (Storage_Store ''Could not initialize identity-change tracking'' e), w2)
           | (Inr _, w2) \<Rightarrow>
               (case sq_initialize_client_outbox st w2 of
                  (Inl e, w3) \<Rightarrow> (Inl (Storage_Store ''Could not initialize the encrypted outbox'' e), w3)
                | (Inr _, w3) \<Rightarrow> (Inr (), w3))))"

definition repo_mark_sent_message_projected ::
  "'w sqlite_store \<Rightarrow> thread \<Rightarrow> u64 \<Rightarrow> ('w, storage_error + unit) io" where
  "repo_mark_sent_message_projected st thread timestamp w =
     (case sq_message st thread timestamp w of
        (Inl e, w1) \<Rightarrow> (Inl (Storage_Store ''Could not read the sent Signal message'' e), w1)
      | (Inr None, w1) \<Rightarrow>
          (Inl (Storage_Not_Found ''The sent Signal message was not found in the encrypted store''), w1)
      | (Inr (Some content), w1) \<Rightarrow>
          (case sq_mark_message_projected st MESSAGE_PROJECTION_CLIENT content w1 of
             (r, w2) \<Rightarrow> (map_err (Storage_Store ''Could not record the sent Signal message'') r, w2)))"

definition repo_contacts :: "'w sqlite_store \<Rightarrow> ('w, storage_error + contact list) io" where
  "repo_contacts st w =
     (case sq_contacts st w of
        (Inl e, w1) \<Rightarrow> (Inl (Storage_Store ''Could not read synchronized Signal contacts'' e), w1)
      | (Inr rows, w1) \<Rightarrow>
          (map_err (Storage_Store ''Could not decode synchronized Signal contacts'') (collect_results rows), w1))"

definition repo_groups :: "'w sqlite_store \<Rightarrow> ('w, storage_error + (group_key \<times> group) list) io" where
  "repo_groups st w =
     (case sq_groups st w of
        (Inl e, w1) \<Rightarrow> (Inl (Storage_Store ''Could not read synchronized Signal groups'' e), w1)
      | (Inr rows, w1) \<Rightarrow>
          (map_err (Storage_Store ''Could not decode synchronized Signal groups'') (collect_results rows), w1))"

definition group_has_local_aci :: "group \<Rightarrow> aci \<Rightarrow> bool" where
  "group_has_local_aci g local_aci = list_ex (\<lambda>member. gm_aci member = local_aci) (gr_members g)"

definition option_filter :: "('a \<Rightarrow> bool) \<Rightarrow> 'a option \<Rightarrow> 'a option" where
  "option_filter p x = (case x of Some v \<Rightarrow> if p v then Some v else None | None \<Rightarrow> None)"

definition repo_active_group :: "'w sqlite_store \<Rightarrow> group_key \<Rightarrow> aci \<Rightarrow> ('w, storage_error + group option) io" where
  "repo_active_group st key local_aci w =
     (case sq_group st key w of
        (Inl e, w1) \<Rightarrow> (Inl (Storage_Store ''Could not read Signal group membership'' e), w1)
      | (Inr g, w1) \<Rightarrow> (Inr (option_filter (\<lambda>g. group_has_local_aci g local_aci) g), w1))"

definition storage_repository :: "'w sqlite_store \<Rightarrow> 'w storage_ops" where
  "storage_repository st =
     \<lparr>so_due_outbox_messages = sq_due_client_messages st,
      so_enqueue_outbox_message = sq_enqueue_client_message st,
      so_complete_outbox_message = sq_complete_client_message st,
      so_defer_outbox_message = sq_defer_client_message st,
      so_expedite_outbox_messages = sq_expedite_client_messages st,
      so_unprojected_messages = sq_unprojected_messages st MESSAGE_PROJECTION_CLIENT,
      so_mark_message_projected = sq_mark_message_projected st MESSAGE_PROJECTION_CLIENT,
      so_sent_message_content = sq_message st,
      so_mark_sent_message_projected = repo_mark_sent_message_projected st,
      so_accept_identity_change = sq_accept_identity_change st,
      so_dismiss_identity_change = sq_dismiss_identity_change st,
      so_groups = repo_groups st,
      so_group = sq_group st,
      so_active_group = repo_active_group st\<rparr>"

subsection \<open>What the outbox relies on\<close>

text \<open>
  The contract of the outbox table: an abstraction to a finite map from ids to entries with the
  time they are due, what each operation does to it, and that nothing else the outbox calls touches it.
\<close>

type_synonym outbox_entries = "int \<rightharpoonup> client_outbox_message \<times> u64"

locale outbox_store =
  fixes ops :: "'w storage_ops"
    and inv :: "'w \<Rightarrow> bool"
    and entries :: "'w \<Rightarrow> outbox_entries"
  assumes enqueue_law: "inv w \<Longrightarrow> so_enqueue_outbox_message ops k r b t w = (res, w1) \<Longrightarrow>
      inv w1 \<and> (case res of
        Inl e \<Rightarrow> entries w1 = entries w
      | Inr i \<Rightarrow> entries w i = None \<and>
          entries w1 = (entries w)(i \<mapsto>
            (\<lparr>om_id = i, om_kind = k, om_recipient = r, om_body = b, om_timestamp = t, om_attempts = 0\<rparr>, 0)))"
    and complete_law: "inv w \<Longrightarrow> so_complete_outbox_message ops i w = (cres, w1) \<Longrightarrow>
      inv w1 \<and> (case cres of Inl e \<Rightarrow> entries w1 = entries w | Inr _ \<Rightarrow> entries w1 = (entries w)(i := None))"
    and defer_law: "inv w \<Longrightarrow> entries w i = Some (m, d) \<Longrightarrow>
      so_defer_outbox_message ops i n at w = (cres, w1) \<Longrightarrow>
      inv w1 \<and> (case cres of
        Inl e \<Rightarrow> entries w1 = entries w
      | Inr _ \<Rightarrow> entries w1 = (entries w)(i \<mapsto> (m\<lparr>om_attempts := n\<rparr>, at)))"
    and due_law: "inv w \<Longrightarrow> so_due_outbox_messages ops now w = (dres, w1) \<Longrightarrow>
      inv w1 \<and> entries w1 = entries w \<and>
      (\<forall>ms. dres = Inr ms \<longrightarrow> distinct (map om_id ms) \<and>
         (\<forall>m. m \<in> set ms \<longleftrightarrow> (\<exists>d. entries w (om_id m) = Some (m, d) \<and> d \<le> now)))"
    and entry_id: "inv w \<Longrightarrow> entries w i = Some (m, d) \<Longrightarrow> om_id m = i"
    and projected_law: "inv w \<Longrightarrow> so_mark_sent_message_projected ops th t w = (pres, w1) \<Longrightarrow>
      inv w1 \<and> entries w1 = entries w"
    and groups_law: "inv w \<Longrightarrow> so_groups ops w = (gres, w1) \<Longrightarrow> inv w1 \<and> entries w1 = entries w"
    and active_group_law: "inv w \<Longrightarrow> so_active_group ops key a w = (ares, w1) \<Longrightarrow>
      inv w1 \<and> entries w1 = entries w"

text \<open>Sending leaves the outbox table alone.\<close>

locale outbox_system = outbox_store +
  fixes manager :: "'a signal_protocol"
  assumes send_law: "inv w \<Longrightarrow> sp_send_message manager sid body t w = (sres, w1) \<Longrightarrow>
      inv w1 \<and> entries w1 = entries w"
    and send_group_law: "inv w \<Longrightarrow> sp_send_message_to_group manager key body t w = (sres, w1) \<Longrightarrow>
      inv w1 \<and> entries w1 = entries w"

end
