(* ===== verification/Storage_Fake.thy ===== *)
theory Storage_Fake
  imports Storage
begin

section \<open>The in-memory repository and protocol (store/traits.rs, backend/protocol.rs)\<close>

text \<open>
  The implementations of the two traits that keep everything in memory, one world for both, and
  the contract of the outbox operations that the outbox component relies on, with its proof for the in-memory repository.
\<close>

datatype fake_error_kind = Fake_Transient | Fake_Not_Found

text \<open>The hash maps the code iterates over are association lists with distinct keys.\<close>

record fake_state =
  fk_next_id :: int
  fk_outbox :: "client_outbox_message list"
  fk_due_at :: "int \<rightharpoonup> u64"
  fk_sent :: "((thread \<times> u64) \<times> content) list"
  fk_projected :: "(thread \<times> u64) set"
  fk_groups :: "(group_key \<times> group) list"
  fk_projection_failure :: "(fake_error_kind \<times> u32) option"

record fake_protocol =
  fp_sent_messages :: "(service_id \<times> content_body \<times> u64) list"
  fp_sent_group_messages :: "(group_key \<times> content_body \<times> u64) list"
  fp_left_groups :: "group_key list"
  fp_cleared_sessions :: "service_id list"

record fake_world =
  fw_store :: fake_state
  fw_protocol :: fake_protocol

definition fake_new :: fake_world where
  "fake_new =
     \<lparr>fw_store = \<lparr>fk_next_id = 0, fk_outbox = [], fk_due_at = Map.empty, fk_sent = [], fk_projected = {},
        fk_groups = [], fk_projection_failure = None\<rparr>,
      fw_protocol = \<lparr>fp_sent_messages = [], fp_sent_group_messages = [], fp_left_groups = [],
        fp_cleared_sessions = []\<rparr>\<rparr>"

definition add_group :: "group_key \<Rightarrow> group \<Rightarrow> fake_world \<Rightarrow> fake_world" where
  "add_group key g w =
     w\<lparr>fw_store := (fw_store w)\<lparr>fk_groups := AList.update key g (fk_groups (fw_store w))\<rparr>\<rparr>"

definition stage_sent_message :: "thread \<Rightarrow> u64 \<Rightarrow> content \<Rightarrow> fake_world \<Rightarrow> fake_world" where
  "stage_sent_message t ts c w =
     w\<lparr>fw_store := (fw_store w)\<lparr>fk_sent := AList.update (t, ts) c (fk_sent (fw_store w))\<rparr>\<rparr>"

definition fail_next_projection_attempts :: "fake_error_kind \<Rightarrow> u32 \<Rightarrow> fake_world \<Rightarrow> fake_world" where
  "fail_next_projection_attempts kind n w =
     w\<lparr>fw_store := (fw_store w)\<lparr>fk_projection_failure := Some (kind, n)\<rparr>\<rparr>"

subsection \<open>Repository operations\<close>

definition fake_due :: "u64 \<Rightarrow> (fake_world, sqlite_store_error + client_outbox_message list) io" where
  "fake_due now w =
     (Inr (filter (\<lambda>m. is_none_or (fk_due_at (fw_store w) (om_id m)) (\<lambda>due. due \<le> now))
             (fk_outbox (fw_store w))), w)"

definition fake_enqueue ::
  "client_outbox_kind \<Rightarrow> string \<Rightarrow> string \<Rightarrow> u64 \<Rightarrow> (fake_world, sqlite_store_error + int) io" where
  "fake_enqueue kind recipient body timestamp w =
     (let i = fk_next_id (fw_store w) + 1
      in (Inr i,
          w\<lparr>fw_store := (fw_store w)\<lparr>fk_next_id := i,
              fk_outbox := fk_outbox (fw_store w) @
                [\<lparr>om_id = i, om_kind = kind, om_recipient = recipient, om_body = body,
                  om_timestamp = timestamp, om_attempts = 0\<rparr>]\<rparr>\<rparr>))"

definition fake_complete :: "int \<Rightarrow> (fake_world, sqlite_store_error + unit) io" where
  "fake_complete i w =
     (Inr (),
      w\<lparr>fw_store := (fw_store w)\<lparr>
          fk_outbox := filter (\<lambda>m. om_id m \<noteq> i) (fk_outbox (fw_store w)),
          fk_due_at := (fk_due_at (fw_store w))(i := None)\<rparr>\<rparr>)"

fun update_first_attempts :: "int \<Rightarrow> u32 \<Rightarrow> client_outbox_message list \<Rightarrow> client_outbox_message list" where
  "update_first_attempts i n [] = []"
| "update_first_attempts i n (m # ms) =
     (if om_id m = i then m\<lparr>om_attempts := n\<rparr> # ms else m # update_first_attempts i n ms)"

definition fake_defer :: "int \<Rightarrow> u32 \<Rightarrow> u64 \<Rightarrow> (fake_world, sqlite_store_error + unit) io" where
  "fake_defer i attempts retry_at w =
     (Inr (),
      w\<lparr>fw_store := (fw_store w)\<lparr>
          fk_outbox := update_first_attempts i attempts (fk_outbox (fw_store w)),
          fk_due_at := (fk_due_at (fw_store w))(i \<mapsto> retry_at)\<rparr>\<rparr>)"

definition fake_expedite :: "string \<Rightarrow> (fake_world, sqlite_store_error + unit) io" where
  "fake_expedite recipient w =
     (let ids = map om_id (filter (\<lambda>m. om_recipient m = recipient) (fk_outbox (fw_store w)))
      in (Inr (),
          w\<lparr>fw_store := (fw_store w)\<lparr>fk_due_at := fold (\<lambda>i d. d(i \<mapsto> 0)) ids (fk_due_at (fw_store w))\<rparr>\<rparr>))"

definition fake_unprojected :: "(fake_world, sqlite_store_error + content list) io" where
  "fake_unprojected w =
     (Inr (map snd (filter (\<lambda>(key, _). key \<notin> fk_projected (fw_store w)) (fk_sent (fw_store w)))), w)"

definition fake_mark_sent_message_projected :: "thread \<Rightarrow> u64 \<Rightarrow> (fake_world, storage_error + unit) io" where
  "fake_mark_sent_message_projected t ts w =
     (let st = fw_store w;
          mark = (\<lambda>st1. (Inr (), w\<lparr>fw_store := st1\<lparr>fk_projected := insert (t, ts) (fk_projected st1)\<rparr>\<rparr>))
      in case fk_projection_failure st of
           Some (kind, remaining) \<Rightarrow>
             if 0 < remaining then
               (Inl (case kind of
                  Fake_Transient \<Rightarrow>
                    Storage_Store ''fake transient failure''
                      \<lparr>sse_kind = Store_Db Sqlx_Pool_Timed_Out, sse_display = []\<rparr>
                | Fake_Not_Found \<Rightarrow> Storage_Not_Found ''fake row not yet visible''),
                w\<lparr>fw_store := st\<lparr>fk_projection_failure := Some (kind, remaining - 1)\<rparr>\<rparr>)
             else mark (st\<lparr>fk_projection_failure := None\<rparr>)
         | None \<Rightarrow> mark st)"

definition fake_storage :: "fake_world storage_ops" where
  "fake_storage =
     \<lparr>so_due_outbox_messages = fake_due,
      so_enqueue_outbox_message = fake_enqueue,
      so_complete_outbox_message = fake_complete,
      so_defer_outbox_message = fake_defer,
      so_expedite_outbox_messages = fake_expedite,
      so_unprojected_messages = fake_unprojected,
      so_mark_message_projected = (\<lambda>_ w. (Inr (), w)),
      so_sent_message_content = (\<lambda>t ts w. (Inr (map_of (fk_sent (fw_store w)) (t, ts)), w)),
      so_mark_sent_message_projected = fake_mark_sent_message_projected,
      so_accept_identity_change = (\<lambda>_ w. (Inr True, w)),
      so_dismiss_identity_change = (\<lambda>_ w. (Inr (), w)),
      so_groups = (\<lambda>w. (Inr (fk_groups (fw_store w)), w)),
      so_group = (\<lambda>key w. (Inr (map_of (fk_groups (fw_store w)) key), w)),
      so_active_group = (\<lambda>key local_aci w.
        (Inr (option_filter (\<lambda>g. list_ex (\<lambda>member. gm_aci member = local_aci) (gr_members g))
                (map_of (fk_groups (fw_store w)) key)), w))\<rparr>"

subsection \<open>Protocol operations\<close>

definition default_attachment_pointer :: attachment_pointer where
  "default_attachment_pointer =
     \<lparr>ap_reference = [], ap_size = None, ap_content_type = None, ap_file_name = None, ap_flags = None\<rparr>"

definition fake_signal_protocol :: "aci \<Rightarrow> fake_world signal_protocol" where
  "fake_signal_protocol local_aci =
     \<lparr>sp_local_aci = local_aci,
      sp_send_message = (\<lambda>recipient message timestamp w.
        (Inr (), w\<lparr>fw_protocol := (fw_protocol w)\<lparr>
           fp_sent_messages := fp_sent_messages (fw_protocol w) @ [(recipient, message, timestamp)]\<rparr>\<rparr>)),
      sp_send_message_to_group = (\<lambda>key message timestamp w.
        (Inr (), w\<lparr>fw_protocol := (fw_protocol w)\<lparr>
           fp_sent_group_messages := fp_sent_group_messages (fw_protocol w) @ [(key, message, timestamp)]\<rparr>\<rparr>)),
      sp_upload_attachment = (\<lambda>_ _ w. (Inr default_attachment_pointer, w)),
      sp_get_attachment = (\<lambda>_ w. (Inr [], w)),
      sp_leave_group = (\<lambda>key w.
        (Inr \<lparr>lo_peer_notification_sent = True, lo_local_group_removed = True\<rparr>,
         w\<lparr>fw_protocol := (fw_protocol w)\<lparr>fp_left_groups := fp_left_groups (fw_protocol w) @ [key]\<rparr>\<rparr>)),
      sp_clear_sessions = (\<lambda>recipient w.
        (Inr (), w\<lparr>fw_protocol := (fw_protocol w)\<lparr>
           fp_cleared_sessions := fp_cleared_sessions (fw_protocol w) @ [recipient]\<rparr>\<rparr>))\<rparr>"

lemmas fake_defs [model_defs] =
  fake_due_def fake_enqueue_def fake_complete_def fake_defer_def fake_expedite_def fake_unprojected_def
  fake_mark_sent_message_projected_def Let_def

subsection \<open>The in-memory repository meets the outbox contract\<close>

definition fake_find :: "int \<Rightarrow> client_outbox_message list \<Rightarrow> client_outbox_message option" where
  "fake_find i ms = find (\<lambda>m. om_id m = i) ms"

definition fake_entries :: "fake_world \<Rightarrow> outbox_entries" where
  "fake_entries w i =
     map_option (\<lambda>m. (m, case fk_due_at (fw_store w) i of Some d \<Rightarrow> d | None \<Rightarrow> 0))
       (fake_find i (fk_outbox (fw_store w)))"

definition fake_inv :: "fake_world \<Rightarrow> bool" where
  "fake_inv w \<longleftrightarrow>
     distinct (map om_id (fk_outbox (fw_store w))) \<and>
     (\<forall>m \<in> set (fk_outbox (fw_store w)). om_id m \<le> fk_next_id (fw_store w)) \<and>
     dom (fk_due_at (fw_store w)) \<subseteq> om_id ` set (fk_outbox (fw_store w))"

lemma fake_find_simps [simp]:
  "fake_find i [] = None"
  "fake_find i (m # ms) = (if om_id m = i then Some m else fake_find i ms)"
  by (simp_all add: fake_find_def)

lemma fake_find_append: "fake_find i (ms @ ns) = (case fake_find i ms of Some m \<Rightarrow> Some m | None \<Rightarrow> fake_find i ns)"
  by (induction ms) auto

lemma fake_find_None: "fake_find i ms = None \<longleftrightarrow> i \<notin> om_id ` set ms"
  by (induction ms) auto

lemma fake_find_Some: "fake_find i ms = Some m \<Longrightarrow> m \<in> set ms \<and> om_id m = i"
  by (induction ms) (auto split: if_splits)

lemma fake_find_distinct: "distinct (map om_id ms) \<Longrightarrow> fake_find (om_id m) ms = Some m \<longleftrightarrow> m \<in> set ms"
  by (induction ms) (auto simp: image_iff)

lemma fake_find_filter: "fake_find j (filter (\<lambda>m. om_id m \<noteq> i) ms) = (if j = i then None else fake_find j ms)"
  by (induction ms) auto

lemma fake_find_update:
  "fake_find j (update_first_attempts i n ms) =
     (if j = i then map_option (\<lambda>m. m\<lparr>om_attempts := n\<rparr>) (fake_find i ms) else fake_find j ms)"
  by (induction ms) auto

lemma update_first_ids [simp]: "map om_id (update_first_attempts i n ms) = map om_id ms"
  by (induction ms) auto

lemma update_first_id_set [simp]: "om_id ` set (update_first_attempts i n ms) = om_id ` set ms"
  by (metis set_map update_first_ids)

lemma fake_enqueue_law:
  assumes "fake_inv w" "fake_enqueue k r b t w = (res, w1)"
  shows "fake_inv w1 \<and> (case res of
        Inl e \<Rightarrow> fake_entries w1 = fake_entries w
      | Inr i \<Rightarrow> fake_entries w i = None \<and>
          fake_entries w1 = (fake_entries w)(i \<mapsto>
            (\<lparr>om_id = i, om_kind = k, om_recipient = r, om_body = b, om_timestamp = t, om_attempts = 0\<rparr>, 0)))"
proof -
  let ?i = "fk_next_id (fw_store w) + 1"
  have fresh: "?i \<notin> om_id ` set (fk_outbox (fw_store w))" using assms(1) by (force simp: fake_inv_def)
  then have none: "fake_find ?i (fk_outbox (fw_store w)) = None" "fk_due_at (fw_store w) ?i = None"
    using assms(1) by (auto simp: fake_find_None fake_inv_def)
  have "fake_inv w1"
    using assms fresh by (force simp: fake_enqueue_def Let_def fake_inv_def)
  then show ?thesis
    using assms none
    by (auto simp: fake_enqueue_def Let_def fake_entries_def fake_find_append fun_eq_iff split: option.split)
qed

lemma fake_complete_law:
  assumes "fake_inv w" "fake_complete i w = (cres, w1)"
  shows "fake_inv w1 \<and> (case cres of
      Inl e \<Rightarrow> fake_entries w1 = fake_entries w | Inr _ \<Rightarrow> fake_entries w1 = (fake_entries w)(i := None))"
proof -
  let ?o = "fk_outbox (fw_store w)" and ?d = "fk_due_at (fw_store w)"
  have "dom ?d \<subseteq> om_id ` set ?o" using assms(1) by (simp add: fake_inv_def)
  then have "dom (?d(i := None)) \<subseteq> om_id ` {m \<in> set ?o. om_id m \<noteq> i}" by (auto simp: image_iff)
  then have "fake_inv w1"
    using assms unfolding fake_complete_def fake_inv_def
    by (elim Pair_inject, hypsubst) (simp add: distinct_map_filter)
  then show ?thesis
    using assms(2) by (auto simp: fake_complete_def fake_entries_def fake_find_filter fun_eq_iff)
qed

lemma fake_defer_law:
  assumes "fake_inv w" "fake_entries w i = Some (m, d)" "fake_defer i n at w = (cres, w1)"
  shows "fake_inv w1 \<and> (case cres of
        Inl e \<Rightarrow> fake_entries w1 = fake_entries w
      | Inr _ \<Rightarrow> fake_entries w1 = (fake_entries w)(i \<mapsto> (m\<lparr>om_attempts := n\<rparr>, at)))"
proof -
  have found: "fake_find i (fk_outbox (fw_store w)) = Some m" using assms(2) by (auto simp: fake_entries_def)
  then have mem: "i \<in> om_id ` set (fk_outbox (fw_store w))" using fake_find_Some by force
  have bound: "\<forall>m \<in> set (update_first_attempts i n (fk_outbox (fw_store w))). om_id m \<le> fk_next_id (fw_store w)"
    using assms(1) update_first_id_set [of i n "fk_outbox (fw_store w)"] unfolding fake_inv_def
    by (metis imageE imageI)
  then have "fake_inv w1"
    using assms(1,3) mem unfolding fake_defer_def fake_inv_def
    by (elim Pair_inject, hypsubst) (simp add: insert_subset)
  then show ?thesis
    using assms(3) found by (auto simp: fake_defer_def fake_entries_def fake_find_update fun_eq_iff)
qed

lemma fake_due_law:
  assumes "fake_inv w" "fake_due now w = (dres, w1)"
  shows "fake_inv w1 \<and> fake_entries w1 = fake_entries w \<and>
      (\<forall>ms. dres = Inr ms \<longrightarrow> distinct (map om_id ms) \<and>
         (\<forall>m. m \<in> set ms \<longleftrightarrow> (\<exists>d. fake_entries w (om_id m) = Some (m, d) \<and> d \<le> now)))"
proof -
  have d: "distinct (map om_id (fk_outbox (fw_store w)))" using assms(1) by (simp add: fake_inv_def)
  have "(\<exists>d. fake_entries w (om_id m) = Some (m, d) \<and> d \<le> now) \<longleftrightarrow>
      m \<in> set (fk_outbox (fw_store w)) \<and> is_none_or (fk_due_at (fw_store w) (om_id m)) (\<lambda>due. due \<le> now)" for m
    using fake_find_distinct [OF d, of m]
    by (auto simp: fake_entries_def is_none_or_def split: option.split)
  then show ?thesis using assms d by (auto simp: fake_due_def distinct_map_filter)
qed

lemma fake_outbox_untouched:
  assumes "fk_outbox (fw_store w1) = fk_outbox (fw_store w)" "fk_due_at (fw_store w1) = fk_due_at (fw_store w)"
    "fk_next_id (fw_store w1) = fk_next_id (fw_store w)"
  shows "fake_inv w1 = fake_inv w" "fake_entries w1 = fake_entries w"
  using assms by (simp_all add: fake_inv_def fake_entries_def [abs_def])

lemma fake_mark_sent_untouched:
  assumes "fake_mark_sent_message_projected th t w = (pres, w1)"
  shows "fake_inv w1 = fake_inv w" "fake_entries w1 = fake_entries w"
proof -
  have "fk_outbox (fw_store w1) = fk_outbox (fw_store w) \<and> fk_due_at (fw_store w1) = fk_due_at (fw_store w) \<and>
      fk_next_id (fw_store w1) = fk_next_id (fw_store w)"
    using assms by (auto simp: fake_mark_sent_message_projected_def Let_def
        split: option.splits if_splits prod.splits)
  then show "fake_inv w1 = fake_inv w" "fake_entries w1 = fake_entries w"
    using fake_outbox_untouched by blast+
qed

lemma fake_send_untouched [simp]:
  "fake_inv (w\<lparr>fw_protocol := p\<rparr>) = fake_inv w" "fake_entries (w\<lparr>fw_protocol := p\<rparr>) = fake_entries w"
  by (rule fake_outbox_untouched; simp)+

interpretation fake_outbox: outbox_system fake_storage fake_inv fake_entries "fake_signal_protocol a" for a
proof (unfold_locales, goal_cases)
  case (1 w k r b t res w1)
  then show ?case by (intro fake_enqueue_law) (simp_all add: fake_storage_def)
next
  case (2 w i cres w1)
  then show ?case by (intro fake_complete_law) (simp_all add: fake_storage_def)
next
  case (3 w i m d n at cres w1)
  then show ?case by (intro fake_defer_law) (simp_all add: fake_storage_def)
next
  case (4 w now dres w1)
  then show ?case by (intro fake_due_law) (simp_all add: fake_storage_def)
next
  case (5 w i m d)
  then show ?case by (auto simp: fake_entries_def dest: fake_find_Some)
next
  case (6 w th t pres w1)
  then have "fake_mark_sent_message_projected th t w = (pres, w1)" by (simp add: fake_storage_def)
  from fake_mark_sent_untouched [OF this] 6(1) show ?case by simp
qed (auto simp: fake_storage_def fake_signal_protocol_def)

end
