(* ===== verification/Attachment_Admission.thy ===== *)
theory Attachment_Admission
  imports Prelude
begin

section \<open>Admission and cancellation of outgoing attachments (attachment.rs)\<close>

text \<open>
  A request holds a permit while its attachment is being sent. The admission bounds the permits
  in number and bytes; the control of a request is shared between the admission, the permit and
  the tasks that send it, and decides by compare-and-exchange whether the request ends cancelled or
  terminal. Shared controls live in an explicit store and are addressed by their index.
\<close>

definition MAX_ATTACHMENT_BYTES :: usize where
  "MAX_ATTACHMENT_BYTES = 25 * 1024 * 1024"

definition MAX_ADMITTED_OUTGOING_ATTACHMENT_BYTES :: usize where
  "MAX_ADMITTED_OUTGOING_ATTACHMENT_BYTES = 50 * 1024 * 1024"

definition MAX_ADMITTED_OUTGOING_ATTACHMENTS :: usize where
  "MAX_ADMITTED_OUTGOING_ATTACHMENTS = 2"

datatype attachment_payload = Payload_Data bytes | Payload_Path string

datatype admission_error = Admission_Invalid | Admission_Capacity

definition ATTACHMENT_ACTIVE :: u8 where
  "ATTACHMENT_ACTIVE = 0"

definition ATTACHMENT_CANCELLED :: u8 where
  "ATTACHMENT_CANCELLED = 1"

definition ATTACHMENT_TERMINAL :: u8 where
  "ATTACHMENT_TERMINAL = 2"

lemmas lifecycle_defs = ATTACHMENT_ACTIVE_def ATTACHMENT_CANCELLED_def ATTACHMENT_TERMINAL_def

subsection \<open>Controls\<close>

record attachment_control =
  ctl_lifecycle :: u8
  ctl_aborted :: bool

type_synonym control_store = "attachment_control list"
type_synonym control_ref = nat

definition control_new :: "control_store \<Rightarrow> control_ref \<times> control_store" where
  "control_new st = (length st, st @ [\<lparr>ctl_lifecycle = ATTACHMENT_ACTIVE, ctl_aborted = False\<rparr>])"

definition compare_exchange ::
  "u8 \<Rightarrow> u8 \<Rightarrow> control_ref \<Rightarrow> control_store \<Rightarrow> bool \<times> control_store" where
  "compare_exchange current new c st =
     (if c < length st \<and> ctl_lifecycle (st ! c) = current
      then (True, st[c := (st ! c)\<lparr>ctl_lifecycle := new\<rparr>]) else (False, st))"

definition control_cancel :: "control_ref \<Rightarrow> control_store \<Rightarrow> bool \<times> control_store" where
  "control_cancel c st =
     (case compare_exchange ATTACHMENT_ACTIVE ATTACHMENT_CANCELLED c st of
        (False, st1) \<Rightarrow> (False, st1)
      | (True, st1) \<Rightarrow> (True, st1[c := (st1 ! c)\<lparr>ctl_aborted := True\<rparr>]))"

definition is_cancelled :: "control_ref \<Rightarrow> control_store \<Rightarrow> bool" where
  "is_cancelled c st = (ctl_lifecycle (st ! c) = ATTACHMENT_CANCELLED)"

definition claim_terminal :: "control_ref \<Rightarrow> control_store \<Rightarrow> bool \<times> control_store" where
  "claim_terminal c st = compare_exchange ATTACHMENT_ACTIVE ATTACHMENT_TERMINAL c st"

subsection \<open>Admission\<close>

record admission_entry =
  ae_bytes :: usize
  ae_control :: control_ref

record attachment_admission =
  ad_maximum_bytes :: usize
  ad_maximum_attachments :: usize
  ad_bytes :: usize
  ad_requests :: "(u64 \<times> admission_entry) list"
  ad_controls :: control_store

record attachment_permit =
  pm_request_id :: u64
  pm_control :: control_ref
  pm_registration :: bool

definition admission_with_limits :: "usize \<Rightarrow> usize \<Rightarrow> attachment_admission" where
  "admission_with_limits maximum_bytes maximum_attachments =
     \<lparr>ad_maximum_bytes = maximum_bytes, ad_maximum_attachments = maximum_attachments,
      ad_bytes = 0, ad_requests = [], ad_controls = []\<rparr>"

definition admission_new :: attachment_admission where
  "admission_new =
     admission_with_limits MAX_ADMITTED_OUTGOING_ATTACHMENT_BYTES MAX_ADMITTED_OUTGOING_ATTACHMENTS"

definition try_reserve ::
  "u64 \<Rightarrow> usize \<Rightarrow> attachment_admission \<Rightarrow> (admission_error + attachment_permit) \<times> attachment_admission"
where
  "try_reserve request_id n a =
     (if request_id = 0 \<or> n = 0 \<or> MAX_ATTACHMENT_BYTES < n then (Inl Admission_Invalid, a)
      else if map_of (ad_requests a) request_id \<noteq> None then (Inl Admission_Invalid, a)
      else if ad_maximum_attachments a \<le> length (ad_requests a) \<or>
              is_none_or (checked_add (ad_bytes a) n) (\<lambda>total. ad_maximum_bytes a < total)
      then (Inl Admission_Capacity, a)
      else
        let (c, st) = control_new (ad_controls a)
        in (Inr \<lparr>pm_request_id = request_id, pm_control = c, pm_registration = True\<rparr>,
            a\<lparr>ad_controls := st, ad_bytes := ad_bytes a + n,
              ad_requests := AList.update request_id \<lparr>ae_bytes = n, ae_control = c\<rparr> (ad_requests a)\<rparr>))"

definition admission_cancel :: "u64 \<Rightarrow> attachment_admission \<Rightarrow> bool \<times> attachment_admission" where
  "admission_cancel request_id a =
     (case map_of (ad_requests a) request_id of
        Some e \<Rightarrow> (True, a\<lparr>ad_controls := snd (control_cancel (ae_control e) (ad_controls a))\<rparr>)
      | None \<Rightarrow> (False, a))"

definition cancel_all :: "attachment_admission \<Rightarrow> attachment_admission" where
  "cancel_all a =
     a\<lparr>ad_controls :=
         fold (\<lambda>c st. snd (control_cancel c st)) (map (ae_control \<circ> snd) (ad_requests a)) (ad_controls a)\<rparr>"

text \<open>\<^verbatim>\<open>saturating_sub\<close> is the subtraction of \<open>nat\<close>.\<close>

definition release :: "u64 \<Rightarrow> attachment_admission \<Rightarrow> attachment_admission" where
  "release request_id a =
     (case map_of (ad_requests a) request_id of
        Some e \<Rightarrow> a\<lparr>ad_requests := AList.delete request_id (ad_requests a),
                      ad_bytes := ad_bytes a - ae_bytes e\<rparr>
      | None \<Rightarrow> a)"

definition permit_drop :: "attachment_permit \<Rightarrow> attachment_admission \<Rightarrow> attachment_admission" where
  "permit_drop p a = release (pm_request_id p) a"

definition permit_claim_terminal ::
  "attachment_permit \<Rightarrow> attachment_admission \<Rightarrow> bool \<times> attachment_admission" where
  "permit_claim_terminal p a =
     (case claim_terminal (pm_control p) (ad_controls a) of (b, st) \<Rightarrow> (b, a\<lparr>ad_controls := st\<rparr>))"

definition permit_is_cancelled :: "attachment_permit \<Rightarrow> attachment_admission \<Rightarrow> bool" where
  "permit_is_cancelled p a = is_cancelled (pm_control p) (ad_controls a)"

text \<open>\<open>None\<close> is the panic of the \<^verbatim>\<open>expect\<close>.\<close>

definition take_cancellation_registration :: "attachment_permit \<Rightarrow> attachment_permit option" where
  "take_cancellation_registration p =
     (if pm_registration p then Some (p\<lparr>pm_registration := False\<rparr>) else None)"

lemmas admission_defs [model_defs] =
  admission_new_def admission_with_limits_def try_reserve_def control_new_def admission_cancel_def
  control_cancel_def compare_exchange_def claim_terminal_def cancel_all_def release_def permit_drop_def
  permit_claim_terminal_def Let_def

subsection \<open>The admission with the permits it has given out\<close>

text \<open>
  \<open>sy_winners\<close> records each control whose cancellation or terminal claim succeeded.
\<close>

record admission_system =
  sy_admission :: attachment_admission
  sy_permits :: "attachment_permit list"
  sy_winners :: "control_ref list"

datatype admission_op =
    Adm_Reserve u64 usize
  | Adm_Cancel_Control control_ref
  | Adm_Cancel_Request u64
  | Adm_Cancel_All
  | Adm_Claim control_ref
  | Adm_Drop nat

definition record_win :: "control_ref \<Rightarrow> bool \<times> control_store \<Rightarrow> admission_system \<Rightarrow> admission_system" where
  "record_win c r s =
     s\<lparr>sy_admission := (sy_admission s)\<lparr>ad_controls := snd r\<rparr>,
       sy_winners := (if fst r then sy_winners s @ [c] else sy_winners s)\<rparr>"

definition cancel_step :: "control_ref \<Rightarrow> admission_system \<Rightarrow> admission_system" where
  "cancel_step c s = record_win c (control_cancel c (ad_controls (sy_admission s))) s"

fun admission_exec :: "admission_op \<Rightarrow> admission_system \<Rightarrow> admission_system" where
  "admission_exec (Adm_Reserve i n) s =
     (case try_reserve i n (sy_admission s) of
        (Inl _, a) \<Rightarrow> s\<lparr>sy_admission := a\<rparr>
      | (Inr p, a) \<Rightarrow> s\<lparr>sy_admission := a, sy_permits := sy_permits s @ [p]\<rparr>)"
| "admission_exec (Adm_Cancel_Control c) s = cancel_step c s"
| "admission_exec (Adm_Cancel_Request i) s =
     (case map_of (ad_requests (sy_admission s)) i of
        None \<Rightarrow> s\<lparr>sy_admission := snd (admission_cancel i (sy_admission s))\<rparr>
      | Some e \<Rightarrow> cancel_step (ae_control e) s)"
| "admission_exec Adm_Cancel_All s =
     fold cancel_step (map (ae_control \<circ> snd) (ad_requests (sy_admission s))) s"
| "admission_exec (Adm_Claim c) s =
     record_win c (claim_terminal c (ad_controls (sy_admission s))) s"
| "admission_exec (Adm_Drop k) s =
     (if k < length (sy_permits s)
      then s\<lparr>sy_admission := permit_drop (sy_permits s ! k) (sy_admission s),
             sy_permits := take k (sy_permits s) @ drop (Suc k) (sy_permits s)\<rparr>
      else s)"

definition admission_system_init :: admission_system where
  "admission_system_init = \<lparr>sy_admission = admission_new, sy_permits = [], sy_winners = []\<rparr>"

lemma cancel_request_agrees:
  "sy_admission (admission_exec (Adm_Cancel_Request i) s) = snd (admission_cancel i (sy_admission s))"
  by (simp add: admission_cancel_def cancel_step_def record_win_def split: option.split)

lemma cancel_steps_agree:
  "sy_admission (fold cancel_step cs s) =
     (sy_admission s)\<lparr>ad_controls :=
        fold (\<lambda>c st. snd (control_cancel c st)) cs (ad_controls (sy_admission s))\<rparr>"
  by (induction cs arbitrary: s) (simp_all add: cancel_step_def record_win_def)

lemma cancel_all_agrees:
  "sy_admission (admission_exec Adm_Cancel_All s) = cancel_all (sy_admission s)"
  by (simp add: cancel_steps_agree cancel_all_def)

subsection \<open>Invariant\<close>

definition admission_inv :: "attachment_admission \<Rightarrow> bool" where
  "admission_inv a \<longleftrightarrow>
     distinct (map fst (ad_requests a)) \<and>
     ad_bytes a = sum_list (map (ae_bytes \<circ> snd) (ad_requests a)) \<and>
     ad_bytes a \<le> ad_maximum_bytes a \<and>
     length (ad_requests a) \<le> ad_maximum_attachments a \<and>
     (\<forall>(i, e) \<in> set (ad_requests a). i \<noteq> 0 \<and> 0 < ae_bytes e \<and> ae_bytes e \<le> MAX_ATTACHMENT_BYTES \<and>
        ae_control e < length (ad_controls a))"

definition permits_inv :: "attachment_admission \<Rightarrow> attachment_permit list \<Rightarrow> bool" where
  "permits_inv a ps \<longleftrightarrow>
     distinct (map pm_request_id ps) \<and>
     (\<lambda>p. (pm_request_id p, pm_control p)) ` set ps = (\<lambda>(i, e). (i, ae_control e)) ` set (ad_requests a)"

text \<open>A control has been won exactly when it left the active state, and is aborted exactly when cancelled.\<close>

definition controls_inv :: "control_store \<Rightarrow> control_ref list \<Rightarrow> bool" where
  "controls_inv st winners \<longleftrightarrow>
     distinct winners \<and>
     (\<forall>c. c \<in> set winners \<longleftrightarrow> c < length st \<and> ctl_lifecycle (st ! c) \<noteq> ATTACHMENT_ACTIVE) \<and>
     (\<forall>c < length st. ctl_lifecycle (st ! c) \<in> {ATTACHMENT_ACTIVE, ATTACHMENT_CANCELLED, ATTACHMENT_TERMINAL} \<and>
        (ctl_aborted (st ! c) \<longleftrightarrow> ctl_lifecycle (st ! c) = ATTACHMENT_CANCELLED))"

definition admission_system_inv :: "admission_system \<Rightarrow> bool" where
  "admission_system_inv s \<longleftrightarrow>
     admission_inv (sy_admission s) \<and>
     permits_inv (sy_admission s) (sy_permits s) \<and>
     controls_inv (ad_controls (sy_admission s)) (sy_winners s)"

lemma lifecycle_distinct [simp]:
  "ATTACHMENT_ACTIVE \<noteq> ATTACHMENT_CANCELLED" "ATTACHMENT_CANCELLED \<noteq> ATTACHMENT_ACTIVE"
  "ATTACHMENT_ACTIVE \<noteq> ATTACHMENT_TERMINAL" "ATTACHMENT_TERMINAL \<noteq> ATTACHMENT_ACTIVE"
  "ATTACHMENT_CANCELLED \<noteq> ATTACHMENT_TERMINAL" "ATTACHMENT_TERMINAL \<noteq> ATTACHMENT_CANCELLED"
  by (simp_all add: lifecycle_defs)

lemma length_control_ops [simp]:
  "length (snd (control_cancel c st)) = length st"
  "length (snd (claim_terminal c st)) = length st"
  by (simp_all add: control_cancel_def claim_terminal_def compare_exchange_def)

lemma control_cancel_cases:
  "control_cancel c st =
     (if c < length st \<and> ctl_lifecycle (st ! c) = ATTACHMENT_ACTIVE
      then (True, st[c := (st ! c)\<lparr>ctl_lifecycle := ATTACHMENT_CANCELLED, ctl_aborted := True\<rparr>])
      else (False, st))"
  by (simp add: control_cancel_def compare_exchange_def)

lemma claim_terminal_cases:
  "claim_terminal c st =
     (if c < length st \<and> ctl_lifecycle (st ! c) = ATTACHMENT_ACTIVE
      then (True, st[c := (st ! c)\<lparr>ctl_lifecycle := ATTACHMENT_TERMINAL\<rparr>]) else (False, st))"
  by (simp add: claim_terminal_def compare_exchange_def)

lemma admission_inv_controls:
  "length st = length (ad_controls a) \<Longrightarrow> admission_inv (a\<lparr>ad_controls := st\<rparr>) = admission_inv a"
  by (simp add: admission_inv_def)

lemma permits_inv_controls [simp]: "permits_inv (a\<lparr>ad_controls := st\<rparr>) ps = permits_inv a ps"
  by (simp add: permits_inv_def)

lemma controls_inv_new:
  "controls_inv st ws \<Longrightarrow> controls_inv (snd (control_new st)) ws"
  by (auto simp: controls_inv_def control_new_def nth_append less_Suc_eq)

lemma controls_inv_won:
  assumes inv: "controls_inv st ws" and c: "c < length st" "ctl_lifecycle (st ! c) = ATTACHMENT_ACTIVE"
    and x: "ctl_lifecycle x \<in> {ATTACHMENT_CANCELLED, ATTACHMENT_TERMINAL}"
      "ctl_aborted x \<longleftrightarrow> ctl_lifecycle x = ATTACHMENT_CANCELLED"
  shows "controls_inv (st[c := x]) (ws @ [c])"
  using assms unfolding controls_inv_def by (auto simp: nth_list_update)

lemma controls_inv_cancel:
  assumes "controls_inv st ws"
  shows "controls_inv (snd (control_cancel c st)) (if fst (control_cancel c st) then ws @ [c] else ws)"
  using assms controls_inv_won [OF assms, of c "(st ! c)\<lparr>ctl_lifecycle := ATTACHMENT_CANCELLED, ctl_aborted := True\<rparr>"]
  by (auto simp: control_cancel_cases)

lemma controls_inv_claim:
  assumes "controls_inv st ws"
  shows "controls_inv (snd (claim_terminal c st)) (if fst (claim_terminal c st) then ws @ [c] else ws)"
proof (cases "c < length st \<and> ctl_lifecycle (st ! c) = ATTACHMENT_ACTIVE")
  case True
  then have "\<not> ctl_aborted (st ! c)" using assms by (simp add: controls_inv_def)
  with True show ?thesis
    using controls_inv_won [OF assms, of c "(st ! c)\<lparr>ctl_lifecycle := ATTACHMENT_TERMINAL\<rparr>"]
    by (simp add: claim_terminal_cases)
qed (use assms in \<open>auto simp: claim_terminal_cases\<close>)

lemma inv_cancel_step: "admission_system_inv s \<Longrightarrow> admission_system_inv (cancel_step c s)"
  using controls_inv_cancel [of "ad_controls (sy_admission s)" "sy_winners s" c]
  by (auto simp: admission_system_inv_def cancel_step_def record_win_def admission_inv_controls)

lemma inv_cancel_steps: "admission_system_inv s \<Longrightarrow> admission_system_inv (fold cancel_step cs s)"
  by (induction cs arbitrary: s) (auto intro: inv_cancel_step)

lemma inv_claim:
  "admission_system_inv s \<Longrightarrow> admission_system_inv (admission_exec (Adm_Claim c) s)"
  using controls_inv_claim [of "ad_controls (sy_admission s)" "sy_winners s" c]
  by (auto simp: admission_system_inv_def record_win_def admission_inv_controls)

lemma try_reserve_Inr:
  assumes "try_reserve i n a = (Inr p, b)"
  shows "i \<noteq> 0" "0 < n" "n \<le> MAX_ATTACHMENT_BYTES" "i \<notin> fst ` set (ad_requests a)"
    "length (ad_requests a) < ad_maximum_attachments a"
    "ad_bytes a + n \<le> ad_maximum_bytes a" "ad_bytes a + n < usize_limit"
    "p = \<lparr>pm_request_id = i, pm_control = length (ad_controls a), pm_registration = True\<rparr>"
    "b = a\<lparr>ad_controls := snd (control_new (ad_controls a)), ad_bytes := ad_bytes a + n,
           ad_requests := ad_requests a @ [(i, \<lparr>ae_bytes = n, ae_control = length (ad_controls a)\<rparr>)]\<rparr>"
  using assms
  by (auto simp: try_reserve_def control_new_def Let_def update_fresh_alist map_of_eq_None_iff
      split: if_splits)

lemma try_reserve_Inl: "try_reserve i n a = (Inl err, b) \<Longrightarrow> b = a"
  by (auto simp: try_reserve_def Let_def split: if_splits prod.splits)

lemma inv_reserve:
  assumes inv: "admission_system_inv s"
  shows "admission_system_inv (admission_exec (Adm_Reserve i n) s)"
proof (cases "try_reserve i n (sy_admission s)")
  case (Pair r b)
  show ?thesis
  proof (cases r)
    case (Inl err)
    then show ?thesis using Pair inv try_reserve_Inl [of i n "sy_admission s" err b] by simp
  next
    case (Inr p)
    let ?a = "sy_admission s"
    note reserved = try_reserve_Inr [OF Pair [unfolded Inr]]
    have a: "admission_inv ?a" and ps: "permits_inv ?a (sy_permits s)"
      and cs: "controls_inv (ad_controls ?a) (sy_winners s)"
      using inv by (simp_all add: admission_system_inv_def)
    have len: "length (snd (control_new (ad_controls ?a))) = Suc (length (ad_controls ?a))"
      by (simp add: control_new_def)
    have "admission_inv b"
      using a reserved(1-7) by (fastforce simp: admission_inv_def reserved(9) len)
    moreover have "i \<notin> set (map pm_request_id (sy_permits s))"
    proof
      assume "i \<in> set (map pm_request_id (sy_permits s))"
      then have "i \<in> fst ` (\<lambda>p. (pm_request_id p, pm_control p)) ` set (sy_permits s)" by force
      then have "i \<in> fst ` (\<lambda>(i, e). (i, ae_control e)) ` set (ad_requests ?a)"
        using ps by (simp add: permits_inv_def)
      then show False using reserved(4) by force
    qed
    then have "permits_inv b (sy_permits s @ [p])"
      using ps by (simp add: permits_inv_def reserved(8) reserved(9))
    moreover have "controls_inv (ad_controls b) (sy_winners s)"
      using controls_inv_new [OF cs] by (simp add: reserved(9))
    ultimately show ?thesis by (simp add: Pair Inr admission_system_inv_def)
  qed
qed

lemma inv_release:
  assumes "admission_inv a" "map_of (ad_requests a) i = Some e"
  shows "admission_inv (release i a)"
proof -
  have "sum_list (map (ae_bytes \<circ> snd) (AList.delete i (ad_requests a))) + ae_bytes e
      = sum_list (map (ae_bytes \<circ> snd) (ad_requests a))"
    using assms by (intro sum_delete_alist) (auto simp: admission_inv_def)
  then show ?thesis
    using assms length_delete_alist_le [of i "ad_requests a"] set_delete_alist [of i "ad_requests a"]
    unfolding admission_inv_def release_def by (auto simp: distinct_delete)
qed

lemma removed_middle:
  "distinct (map f (xs @ x # ys)) \<Longrightarrow>
     distinct (map f (xs @ ys)) \<and> set (xs @ ys) = {p \<in> set (xs @ x # ys). f p \<noteq> f x}"
  by (auto simp: image_iff)

lemma removed_nth:
  assumes "distinct (map f ps)" "k < length ps"
  shows "distinct (map f (take k ps @ drop (Suc k) ps)) \<and>
    set (take k ps @ drop (Suc k) ps) = {p \<in> set ps. f p \<noteq> f (ps ! k)}"
  using removed_middle [of f "take k ps" "ps ! k" "drop (Suc k) ps"] assms
  by (simp only: id_take_nth_drop [OF assms(2), symmetric])

lemma filter_image: "(\<And>x. P (f x) = Q x) \<Longrightarrow> f ` {x \<in> A. Q x} = {y \<in> f ` A. P y}"
  by blast

lemma permits_inv_drop:
  assumes ps: "permits_inv a ps" and a: "admission_inv a" and k: "k < length ps"
  shows "\<exists>e. map_of (ad_requests a) (pm_request_id (ps ! k)) = Some e"
    and "permits_inv (release (pm_request_id (ps ! k)) a) (take k ps @ drop (Suc k) ps)"
proof -
  let ?i = "pm_request_id (ps ! k)" and ?key = "\<lambda>p. (pm_request_id p, pm_control p)"
  let ?entry = "\<lambda>(i, e). (i, ae_control e)"
  have img: "?key ` set ps = ?entry ` set (ad_requests a)" and d: "distinct (map pm_request_id ps)"
    using ps by (simp_all add: permits_inv_def)
  have "?key (ps ! k) \<in> ?entry ` set (ad_requests a)" unfolding img [symmetric] using k by simp
  then show some: "\<exists>e. map_of (ad_requests a) ?i = Some e"
    using a by (auto simp: admission_inv_def)
  have rest: "set (take k ps @ drop (Suc k) ps) = {p \<in> set ps. pm_request_id p \<noteq> ?i}"
    using removed_nth [OF d k] by simp
  have "?key ` {p \<in> set ps. pm_request_id p \<noteq> ?i} = {q \<in> ?key ` set ps. fst q \<noteq> ?i}"
    by (rule filter_image) simp
  also have "\<dots> = ?entry ` {q \<in> set (ad_requests a). fst q \<noteq> ?i}"
    unfolding img by (rule filter_image [symmetric]) (simp add: case_prod_beta)
  finally have "?key ` set (take k ps @ drop (Suc k) ps) = ?entry ` set (AList.delete ?i (ad_requests a))"
    unfolding rest set_delete_alist .
  then show "permits_inv (release ?i a) (take k ps @ drop (Suc k) ps)"
    using some removed_nth [OF d k] unfolding permits_inv_def by (auto simp: release_def)
qed

lemma inv_drop:
  assumes "admission_system_inv s"
  shows "admission_system_inv (admission_exec (Adm_Drop k) s)"
proof (cases "k < length (sy_permits s)")
  case True
  let ?i = "pm_request_id (sy_permits s ! k)"
  have a: "admission_inv (sy_admission s)" and ps: "permits_inv (sy_admission s) (sy_permits s)"
    using assms by (simp_all add: admission_system_inv_def)
  obtain e where "map_of (ad_requests (sy_admission s)) ?i = Some e"
    using permits_inv_drop(1) [OF ps a True] by blast
  then have "admission_inv (release ?i (sy_admission s))" by (rule inv_release [OF a])
  moreover have "ad_controls (release ?i (sy_admission s)) = ad_controls (sy_admission s)"
    by (simp add: release_def split: option.split)
  ultimately show ?thesis
    using True assms permits_inv_drop(2) [OF ps a True]
    by (simp add: admission_system_inv_def permit_drop_def)
qed (use assms in simp)

lemma admission_system_inv_step: "admission_system_inv s \<Longrightarrow> admission_system_inv (admission_exec x s)"
proof (cases x)
  case (Adm_Cancel_Request i)
  assume "admission_system_inv s"
  with Adm_Cancel_Request show ?thesis
    by (auto simp: admission_cancel_def inv_cancel_step split: option.split)
qed (simp_all only: inv_reserve inv_drop inv_claim inv_cancel_step inv_cancel_steps
      admission_exec.simps(2) admission_exec.simps(4))

interpretation admission: op_system admission_exec admission_system_inv
  by unfold_locales (rule admission_system_inv_step)

lemma admission_system_inv_init: "admission_system_inv admission_system_init"
  by (simp add: admission_system_inv_def admission_system_init_def admission_new_def
      admission_with_limits_def admission_inv_def permits_inv_def controls_inv_def)

definition limits :: "attachment_admission \<Rightarrow> usize \<times> usize" where
  "limits a = (ad_maximum_bytes a, ad_maximum_attachments a)"

lemma limits_simps [simp]:
  "limits (a\<lparr>ad_controls := st\<rparr>) = limits a"
  "limits (snd (admission_cancel i a)) = limits a"
  "limits (release i a) = limits a"
  by (simp_all add: limits_def admission_cancel_def release_def split: option.split)

lemma limits_try_reserve: "try_reserve i n a = (r, b) \<Longrightarrow> limits b = limits a"
  by (cases r) (auto dest!: try_reserve_Inl try_reserve_Inr(9) simp: limits_def)

lemma limits_step: "limits (sy_admission (admission_exec x s)) = limits (sy_admission s)"
proof (cases x)
  case (Adm_Reserve i n)
  then show ?thesis
    using limits_try_reserve [of i n "sy_admission s"] by (simp split: prod.split sum.split)
next
  case (Adm_Cancel_Request i)
  then show ?thesis using cancel_request_agrees [of i s] by simp
qed (simp_all add: cancel_step_def record_win_def cancel_steps_agree permit_drop_def)

lemma limits_run: "limits (sy_admission (fold admission_exec ops s)) = limits (sy_admission s)"
  by (induction ops arbitrary: s) (simp_all add: limits_step)

subsection \<open>Properties\<close>

text \<open>
  C32. Whatever sequence of reservations, cancellations, claims and dropped permits happens, the
  admitted attachments number at most two, each has between one byte and 25 MiB, together at most
  50 MiB, the byte counter is their exact sum, and they are exactly the requests whose permits are still held; so
  the saturating subtraction of a release never saturates and every permit is returned once.
\<close>

theorem admission_run_bounded:
  fixes ops :: "admission_op list"
  defines "s \<equiv> fold admission_exec ops admission_system_init"
  shows "length (ad_requests (sy_admission s)) \<le> 2 \<and>
    ad_bytes (sy_admission s) = sum_list (map (ae_bytes \<circ> snd) (ad_requests (sy_admission s))) \<and>
    ad_bytes (sy_admission s) \<le> 50 * 1024 * 1024 \<and>
    list_all (\<lambda>(i, e). i \<noteq> 0 \<and> 0 < ae_bytes e \<and> ae_bytes e \<le> 25 * 1024 * 1024)
      (ad_requests (sy_admission s)) \<and>
    distinct (map pm_request_id (sy_permits s)) \<and>
    pm_request_id ` set (sy_permits s) = fst ` set (ad_requests (sy_admission s))"
proof -
  have inv: "admission_system_inv s"
    unfolding s_def by (rule admission.run_inv_all [OF admission_system_inv_init])
  have lim: "ad_maximum_bytes (sy_admission s) = 50 * 1024 * 1024"
      "ad_maximum_attachments (sy_admission s) = 2"
    using limits_run [of ops admission_system_init]
    by (simp_all add: s_def limits_def admission_system_init_def admission_new_def admission_with_limits_def
        MAX_ADMITTED_OUTGOING_ATTACHMENT_BYTES_def MAX_ADMITTED_OUTGOING_ATTACHMENTS_def)
  have img: "(\<lambda>p. (pm_request_id p, pm_control p)) ` set (sy_permits s) =
      (\<lambda>(i, e). (i, ae_control e)) ` set (ad_requests (sy_admission s))"
    using inv by (simp add: admission_system_inv_def permits_inv_def)
  have "pm_request_id ` set (sy_permits s) = fst ` set (ad_requests (sy_admission s))"
    using arg_cong [OF img, of "image fst"] by (simp add: image_image case_prod_beta)
  then show ?thesis
    using inv lim
    by (auto simp: admission_system_inv_def admission_inv_def permits_inv_def list_all_iff
        MAX_ATTACHMENT_BYTES_def)
qed

text \<open>
  Cancellation and completion exclude each other. In every run, at most one of all the
  \<^verbatim>\<open>cancel\<close> and \<^verbatim>\<open>claim_terminal\<close> calls on a control succeeds: the calls that succeeded are
  listed without repetition, they are exactly the controls no longer active, and a control's task is aborted
  exactly when it was the cancellation that succeeded.
\<close>

lemma admission_single_winner:
  fixes ops :: "admission_op list"
  defines "s \<equiv> fold admission_exec ops admission_system_init"
  shows "distinct (sy_winners s) \<and>
    set (sy_winners s) = {c. c < length (ad_controls (sy_admission s)) \<and>
      ctl_lifecycle (ad_controls (sy_admission s) ! c) \<noteq> ATTACHMENT_ACTIVE} \<and>
    list_all (\<lambda>c. ctl_aborted c = (ctl_lifecycle c = ATTACHMENT_CANCELLED)) (ad_controls (sy_admission s))"
  using admission.run_inv_all [OF admission_system_inv_init, of ops]
  by (auto simp: s_def admission_system_inv_def controls_inv_def list_all_length)

end
