(* ===== verification/Backend.thy ===== *)
theory Backend
  imports Events Storage_Fake Attachment_Admission
begin

section \<open>The state the backend's handlers share\<close>

text \<open>
  The services a handler calls (storage, network, clock, file system, library functions) and the state it
  mutates (the outside world, the metadata cache, the groups being left, the last timestamp, and the events it has emitted, as the
  list the event queue delivers), with the helpers of coordinator.rs that several handlers use: reading group
  membership, resolving a group by its identifier, and recording a sent message as already shown.
\<close>

record 'w services =
  sv_ext :: externals
  sv_repo :: "'w storage_ops"
  sv_manager :: "'w signal_protocol"
  sv_wall_clock_ms :: "('w, u64) io"
  sv_read_file :: "string \<Rightarrow> ('w, bytes rresult) io"

record 'w backend =
  bk_world :: 'w
  bk_cache :: metadata_cache
  bk_departed :: departed_groups
  bk_latest :: u64
  bk_events :: "event list"

definition perform :: "('w, 'a) io \<Rightarrow> 'w backend \<Rightarrow> 'a \<times> 'w backend" where
  "perform f b = (case f (bk_world b) of (r, w) \<Rightarrow> (r, b\<lparr>bk_world := w\<rparr>))"

definition emit :: "event \<Rightarrow> 'w backend \<Rightarrow> 'w backend" where
  "emit e b = b\<lparr>bk_events := bk_events b @ [e]\<rparr>"

text \<open>
  \<^verbatim>\<open>MessageTimestampAllocator::next\<close>: \<open>None\<close> is the panic of an exhausted timestamp space.
\<close>

definition next_timestamp :: "'w services \<Rightarrow> 'w backend \<Rightarrow> (u64 \<times> 'w backend) option" where
  "next_timestamp sv b =
     (case perform (sv_wall_clock_ms sv) b of
        (now, b1) \<Rightarrow> map_option (\<lambda>(t, l). (t, b1\<lparr>bk_latest := l\<rparr>)) (next_at now (bk_latest b1)))"

abbreviation local_aci :: "'w services \<Rightarrow> aci" where
  "local_aci sv \<equiv> sp_local_aci (sv_manager sv)"

subsection \<open>Groups\<close>

datatype projection_group = Projection_Active group | Projection_Complete | Projection_Retry

text \<open>The departure state is read before and after the store is asked; \<open>mid\<close> is what it became meanwhile.\<close>

definition group_for_projection ::
  "'w services \<Rightarrow> departed_groups \<Rightarrow> group_key \<Rightarrow> 'w backend \<Rightarrow> projection_group rresult \<times> 'w backend" where
  "group_for_projection sv mid key b =
     (let identifier = group_identifier (sv_ext sv) key;
          departed = (\<lambda>d. case d of Complete \<Rightarrow> Projection_Complete | _ \<Rightarrow> Projection_Retry)
      in case departure_projection_disposition (departure_state_of (bk_departed b) identifier) of
           Some d \<Rightarrow> (Inr (departed d), b)
         | None \<Rightarrow>
             (case perform (so_group (sv_repo sv) key) b of
                (r, b0) \<Rightarrow>
                  let b1 = b0\<lparr>bk_departed := mid\<rparr>
                  in case r of
                       Inl e \<Rightarrow> (Inl (''Could not read Signal group membership: '' @ sse_display e), b1)
                     | Inr g \<Rightarrow>
                         (case departure_projection_disposition (departure_state_of mid identifier) of
                            Some d \<Rightarrow> (Inr (departed d), b1)
                          | None \<Rightarrow>
                              (Inr (case option_filter (\<lambda>g. group_contains_local_aci g (local_aci sv)) g of
                                      Some g \<Rightarrow> Projection_Active g
                                    | None \<Rightarrow> Projection_Complete), b1))))"

definition active_group_by_key ::
  "'w services \<Rightarrow> group_key \<Rightarrow> 'w backend \<Rightarrow> group option rresult \<times> 'w backend" where
  "active_group_by_key sv key b =
     (if departed_contains (bk_departed b) (group_identifier (sv_ext sv) key) then (Inr None, b)
      else case perform (so_active_group (sv_repo sv) key (local_aci sv)) b of
             (r, b1) \<Rightarrow> (map_err storage_error_display r, b1))"

text \<open>The scan of every group, which remembers the key it finds.\<close>

definition scan_active_groups ::
  "'w services \<Rightarrow> string \<Rightarrow> 'w backend \<Rightarrow> (group_key \<times> group) option rresult \<times> 'w backend" where
  "scan_active_groups sv identifier b =
     (case perform (so_groups (sv_repo sv)) b of
        (Inl e, b1) \<Rightarrow> (Inl (storage_error_display e), b1)
      | (Inr groups, b1) \<Rightarrow>
          (case find (\<lambda>(key, g). group_identifier (sv_ext sv) key = identifier \<and>
                                group_contains_local_aci g (local_aci sv)) groups of
             Some (key, g) \<Rightarrow>
               (Inr (Some (key, g)), b1\<lparr>bk_cache := index_group identifier key (bk_cache b1)\<rparr>)
           | None \<Rightarrow> (Inr None, b1)))"

definition resolve_active_group_in_store ::
  "'w services \<Rightarrow> string \<Rightarrow> 'w backend \<Rightarrow> (group_key \<times> group) option rresult \<times> 'w backend" where
  "resolve_active_group_in_store sv identifier b =
     (case group_key_for_identifier identifier (bk_cache b) of
        Some key \<Rightarrow>
          (case perform (so_active_group (sv_repo sv) key (local_aci sv)) b of
             (Inl e, b1) \<Rightarrow> (Inl (storage_error_display e), b1)
           | (Inr (Some g), b1) \<Rightarrow> (Inr (Some (key, g)), b1)
           | (Inr None, b1) \<Rightarrow> scan_active_groups sv identifier b1)
      | None \<Rightarrow> scan_active_groups sv identifier b)"

definition resolve_active_group ::
  "'w services \<Rightarrow> string \<Rightarrow> 'w backend \<Rightarrow> (group_key \<times> group) option rresult \<times> 'w backend" where
  "resolve_active_group sv identifier b =
     (if departed_contains (bk_departed b) identifier then (Inr None, b)
      else resolve_active_group_in_store sv identifier b)"

definition resolve_active_group_for_leave ::
  "'w services \<Rightarrow> string \<Rightarrow> 'w backend \<Rightarrow> (group_key \<times> group) option rresult \<times> 'w backend" where
  "resolve_active_group_for_leave sv identifier b =
     (if is_departed (bk_departed b) identifier then (Inr None, b)
      else resolve_active_group_in_store sv identifier b)"

subsection \<open>Recording a sent message as shown\<close>

definition MARK_SENT_PROJECTED_RETRY_DELAYS_MS :: "nat list" where
  "MARK_SENT_PROJECTED_RETRY_DELAYS_MS = [50, 200, 500]"

text \<open>The loop with the delays it has left; the sleeps change nothing in the model.\<close>

fun mark_sent_loop ::
  "'w services \<Rightarrow> sent_message \<Rightarrow> nat list \<Rightarrow> 'w backend \<Rightarrow> (storage_error + unit) \<times> 'w backend" where
  "mark_sent_loop sv sent left b =
     (case perform (so_mark_sent_message_projected (sv_repo sv) (sm_thread sent) (sm_timestamp sent)) b of
        (Inr _, b1) \<Rightarrow> (Inr (), b1)
      | (Inl e, b1) \<Rightarrow>
          if storage_error_is_transient e then
            (case left of [] \<Rightarrow> (Inl e, b1) | _ # rest \<Rightarrow> mark_sent_loop sv sent rest b1)
          else (Inl e, b1))"

declare mark_sent_loop.simps [simp del]

definition mark_sent_message_projected ::
  "'w services \<Rightarrow> sent_message \<Rightarrow> 'w backend \<Rightarrow> (storage_error + unit) \<times> 'w backend" where
  "mark_sent_message_projected sv sent b = mark_sent_loop sv sent MARK_SENT_PROJECTED_RETRY_DELAYS_MS b"

definition mark_sent_message_projected_or_report :: "'w services \<Rightarrow> sent_message \<Rightarrow> 'w backend \<Rightarrow> 'w backend" where
  "mark_sent_message_projected_or_report sv sent b =
     (case mark_sent_message_projected sv sent b of
        (Inr _, b1) \<Rightarrow> b1
      | (Inl e, b1) \<Rightarrow> emit (event_error (storage_error_display e) False) b1)"

end
