(* ===== verification/Ack_Inbox.thy ===== *)
theory Ack_Inbox
  imports Prelude "HOL-Library.Multiset"
begin

section \<open>The acknowledgement inbox (acknowledgment.rs)\<close>

text \<open>
  Deliveries that wait for the acknowledgement of the user interface. The plugin's thread submits
  delivery ids; the worker waits on the \<^verbatim>\<open>Notify\<close>, takes batches, and defers an id whose
  completion failed. Every operation holds the mutex for its whole effect, so a run is a sequence of operations.
  The model keeps the \<^verbatim>\<open>Notify\<close> as its single stored permit: \<^verbatim>\<open>notify_one\<close> stores it (or wakes a
  waiter, which consumes it at once) and \<^verbatim>\<open>notified\<close> completes by consuming it.
\<close>

subsection \<open>State and operations\<close>

record ack_inbox =
  ai_open :: bool
  ai_registered :: "u64 set"
  ai_accepted :: "u64 set"
  ai_ready :: "u64 list"
  ai_retry :: "u64 list"
  ai_permit :: bool

definition ack_new :: ack_inbox where
  "ack_new = \<lparr>ai_open = True, ai_registered = {}, ai_accepted = {}, ai_ready = [], ai_retry = [],
     ai_permit = False\<rparr>"

definition ack_register :: "u64 \<Rightarrow> ack_inbox \<Rightarrow> ack_inbox" where
  "ack_register i s = s\<lparr>ai_registered := insert i (ai_registered s)\<rparr>"

definition ack_unregister :: "u64 \<Rightarrow> ack_inbox \<Rightarrow> ack_inbox" where
  "ack_unregister i s =
     s\<lparr>ai_registered := ai_registered s - {i},
       ai_accepted := ai_accepted s - {i},
       ai_ready := filter (\<lambda>queued. queued \<noteq> i) (ai_ready s),
       ai_retry := filter (\<lambda>queued. queued \<noteq> i) (ai_retry s)\<rparr>"

definition ack_submit :: "u64 \<Rightarrow> ack_inbox \<Rightarrow> bool \<times> ack_inbox" where
  "ack_submit i s =
     (if \<not> ai_open s then (False, s)
      else if i \<in> ai_registered s \<and> i \<notin> ai_accepted s then
        (True, s\<lparr>ai_accepted := insert i (ai_accepted s), ai_ready := ai_ready s @ [i],
                 ai_permit := True\<rparr>)
      else (True, s))"

definition take_ready :: "usize \<Rightarrow> ack_inbox \<Rightarrow> u64 list \<times> ack_inbox" where
  "take_ready maximum s =
     (let count = min maximum (length (ai_ready s));
          delivery_ids = take count (ai_ready s);
          rest = drop count (ai_ready s)
      in (delivery_ids, s\<lparr>ai_ready := rest, ai_permit := (rest \<noteq> [] \<or> ai_permit s)\<rparr>))"

definition defer_retry :: "u64 \<Rightarrow> ack_inbox \<Rightarrow> ack_inbox" where
  "defer_retry i s =
     (if i \<in> ai_registered s \<and> i \<in> ai_accepted s then s\<lparr>ai_retry := ai_retry s @ [i]\<rparr> else s)"

definition activate_retries :: "ack_inbox \<Rightarrow> ack_inbox" where
  "activate_retries s =
     (let ready = ai_ready s @ ai_retry s
      in s\<lparr>ai_retry := [], ai_ready := ready, ai_permit := (ready \<noteq> [] \<or> ai_permit s)\<rparr>)"

text \<open>\<^verbatim>\<open>wait\<close>: \<open>None\<close> while no permit is stored.\<close>

definition ack_wait :: "ack_inbox \<Rightarrow> ack_inbox option" where
  "ack_wait s = (if ai_permit s then Some (s\<lparr>ai_permit := False\<rparr>) else None)"

definition ack_close :: "ack_inbox \<Rightarrow> ack_inbox" where
  "ack_close s =
     s\<lparr>ai_open := False, ai_ready := ai_ready s @ ai_retry s, ai_retry := [], ai_permit := True\<rparr>"

lemmas ack_defs [model_defs] =
  ack_register_def ack_unregister_def ack_submit_def take_ready_def defer_retry_def
  activate_retries_def ack_wait_def ack_close_def

subsection \<open>The worker and the plugin around the inbox\<close>

text \<open>
  The inbox with what its clients hold: the ids the worker has taken and not yet settled,
  and whether the worker has been woken and not yet taken a batch. The worker defers only an
  id it holds, and settles an id by unregistering it.
\<close>

record ack_system =
  as_inbox :: ack_inbox
  as_in_flight :: "u64 list"
  as_awake :: bool

datatype ack_op =
    Ack_Register u64
  | Ack_Unregister u64
  | Ack_Submit u64
  | Ack_Wait
  | Ack_Take usize
  | Ack_Defer u64
  | Ack_Activate
  | Ack_Close

fun ack_ok :: "ack_op \<Rightarrow> ack_system \<Rightarrow> bool" where
  "ack_ok (Ack_Defer i) s = (i \<in> set (as_in_flight s))"
| "ack_ok _ s = True"

fun ack_exec :: "ack_op \<Rightarrow> ack_system \<Rightarrow> ack_system" where
  "ack_exec (Ack_Register i) s = s\<lparr>as_inbox := ack_register i (as_inbox s)\<rparr>"
| "ack_exec (Ack_Unregister i) s =
     s\<lparr>as_inbox := ack_unregister i (as_inbox s),
       as_in_flight := filter (\<lambda>j. j \<noteq> i) (as_in_flight s)\<rparr>"
| "ack_exec (Ack_Submit i) s = s\<lparr>as_inbox := snd (ack_submit i (as_inbox s))\<rparr>"
| "ack_exec Ack_Wait s =
     (case ack_wait (as_inbox s) of None \<Rightarrow> s
      | Some t \<Rightarrow> s\<lparr>as_inbox := t, as_awake := True\<rparr>)"
| "ack_exec (Ack_Take n) s =
     (case take_ready n (as_inbox s) of (ids, t) \<Rightarrow>
        s\<lparr>as_inbox := t, as_in_flight := as_in_flight s @ ids, as_awake := False\<rparr>)"
| "ack_exec (Ack_Defer i) s =
     s\<lparr>as_inbox := defer_retry i (as_inbox s),
       as_in_flight := filter (\<lambda>j. j \<noteq> i) (as_in_flight s)\<rparr>"
| "ack_exec Ack_Activate s = s\<lparr>as_inbox := activate_retries (as_inbox s)\<rparr>"
| "ack_exec Ack_Close s = s\<lparr>as_inbox := ack_close (as_inbox s)\<rparr>"

definition ack_system_init :: ack_system where
  "ack_system_init = \<lparr>as_inbox = ack_new, as_in_flight = [], as_awake = False\<rparr>"

text \<open>
  Everything accepted sits in exactly one place, exactly once.
\<close>

definition ack_places :: "ack_system \<Rightarrow> u64 list" where
  "ack_places s = ai_ready (as_inbox s) @ ai_retry (as_inbox s) @ as_in_flight s"

definition ack_inv :: "ack_system \<Rightarrow> bool" where
  "ack_inv s \<longleftrightarrow>
     distinct (ack_places s) \<and>
     set (ack_places s) = ai_accepted (as_inbox s) \<and>
     ai_accepted (as_inbox s) \<subseteq> ai_registered (as_inbox s) \<and>
     (ai_ready (as_inbox s) \<noteq> [] \<longrightarrow> ai_permit (as_inbox s) \<or> as_awake s)"

lemma ack_inv_init: "ack_inv ack_system_init"
  by (simp add: ack_inv_def ack_places_def ack_system_init_def ack_new_def)

lemma ack_take_places:
  "mset (ack_places (ack_exec (Ack_Take n) s)) = mset (ack_places s)"
proof -
  let ?k = "min n (length (ai_ready (as_inbox s)))"
  have "mset (ai_ready (as_inbox s))
      = mset (take ?k (ai_ready (as_inbox s))) + mset (drop ?k (ai_ready (as_inbox s)))"
    by (metis append_take_drop_id mset_append)
  then show ?thesis by (simp add: ack_places_def take_ready_def Let_def)
qed

lemma ack_inv_take: "ack_inv s \<Longrightarrow> ack_inv (ack_exec (Ack_Take n) s)"
proof -
  assume inv: "ack_inv s"
  let ?t = "ack_exec (Ack_Take n) s"
  have "set (ack_places ?t) = set (ack_places s)" and "distinct (ack_places ?t) = distinct (ack_places s)"
    using ack_take_places [of n s] by (auto dest: mset_eq_setD mset_eq_imp_distinct_iff)
  moreover have "ai_accepted (as_inbox ?t) = ai_accepted (as_inbox s)"
      and "ai_registered (as_inbox ?t) = ai_registered (as_inbox s)"
      and "ai_ready (as_inbox ?t) \<noteq> [] \<Longrightarrow> ai_permit (as_inbox ?t)"
    by (simp_all add: take_ready_def Let_def)
  ultimately show ?thesis using inv unfolding ack_inv_def by simp
qed

lemma ack_inv_step: "ack_inv s \<Longrightarrow> ack_ok x s \<Longrightarrow> ack_inv (ack_exec x s)"
  apply (cases x)
  subgoal by (auto simp: ack_inv_def ack_places_def ack_register_def)
  subgoal by (auto simp: ack_inv_def ack_places_def ack_unregister_def)
  subgoal by (auto simp: ack_inv_def ack_places_def ack_submit_def)
  subgoal by (auto simp: ack_inv_def ack_places_def ack_wait_def)
  subgoal by (simp only: ack_inv_take)
  subgoal by (auto simp: ack_inv_def ack_places_def defer_retry_def)
  subgoal by (auto simp: ack_inv_def ack_places_def activate_retries_def Let_def)
  subgoal by (auto simp: ack_inv_def ack_places_def ack_close_def)
  done

interpretation ack: guarded_system ack_ok ack_exec ack_inv
  by unfold_locales (rule ack_inv_step)

text \<open>
  C27. No acknowledgement is lost or duplicated: after any interleaving of registrations,
  submissions, wake-ups, batches, deferrals, retries and the close, the accepted deliveries are
  exactly those that are ready, awaiting a retry, or held by the worker, each of them in one of these places and
  there once, and only registered deliveries are accepted.
\<close>

theorem ack_run_exactly_once:
  assumes "admissible ack_ok ack_exec ack_system_init ops"
  defines "s \<equiv> fold ack_exec ops ack_system_init"
  shows "distinct (ack_places s) \<and> set (ack_places s) = ai_accepted (as_inbox s) \<and>
    ai_accepted (as_inbox s) \<subseteq> ai_registered (as_inbox s)"
  using ack.run_inv [OF ack_inv_init assms(1)] by (simp add: ack_inv_def s_def)

theorem ack_run_exactly_once_witness:
  "let s = fold ack_exec [Ack_Register 1, Ack_Register 2, Ack_Submit 2, Ack_Submit 1, Ack_Submit 2,
             Ack_Wait, Ack_Take 1, Ack_Defer 2, Ack_Activate] ack_system_init
   in distinct (ack_places s) \<and> set (ack_places s) = ai_accepted (as_inbox s) \<and>
      ai_accepted (as_inbox s) \<subseteq> ai_registered (as_inbox s)"
  unfolding Let_def
  by (rule ack_run_exactly_once) (simp add: ack_system_init_def ack_new_def ack_defs)

text \<open>
  C28. No wake-up is lost: whenever a delivery is ready, a permit is stored, so the worker's
  wait completes, or the worker has already been woken and is about to take its batch. In particular
  a batch smaller than the backlog leaves a permit behind.
\<close>

theorem ack_no_lost_wakeup:
  assumes "admissible ack_ok ack_exec ack_system_init ops"
    and "ai_ready (as_inbox (fold ack_exec ops ack_system_init)) \<noteq> []"
  shows "as_awake (fold ack_exec ops ack_system_init) \<or>
    ack_wait (as_inbox (fold ack_exec ops ack_system_init)) \<noteq> None"
  using ack.run_inv [OF ack_inv_init assms(1)] assms(2)
  by (auto simp: ack_inv_def ack_wait_def)

theorem ack_no_lost_wakeup_witness:
  "let s = fold ack_exec [Ack_Register 1, Ack_Register 2, Ack_Submit 2, Ack_Submit 1,
             Ack_Wait, Ack_Take 1] ack_system_init
   in as_awake s \<or> ack_wait (as_inbox s) \<noteq> None"
  unfolding Let_def
  by (rule ack_no_lost_wakeup) (simp_all add: ack_system_init_def ack_new_def ack_defs)

subsection \<open>Single operations\<close>

lemma take_ready_batch:
  "fst (take_ready n s) = take n (ai_ready s)"
  "ai_ready (snd (take_ready n s)) = drop n (ai_ready s)"
  by (simp_all add: take_ready_def Let_def min_def)

lemma ack_submit_closed: "\<not> ai_open s \<Longrightarrow> ack_submit i s = (False, s)"
  by (simp add: ack_submit_def)

lemma ack_submit_twice: "snd (ack_submit i (snd (ack_submit i s))) = snd (ack_submit i s)"
  by (auto simp: ack_submit_def)

end
