(* ===== verification/Message_Projection.thy ===== *)
theory Message_Projection
  imports Ack_Inbox Content_Model Error_Class
begin

section \<open>Messages between the store and the display (backend/projection.rs)\<close>

text \<open>
  The state of projection.rs: the identities of the messages that are shown or were shown recently, the
  messages that wait for the acknowledgement of the user interface, the queue of messages to replay, and the queue of delivery receipts to
  send. Each has its operations, an invariant over every sequence of them, and what the invariant is for: a message is shown once, the
  tables stay bounded, and the acknowledgement inbox knows exactly the deliveries that wait.
\<close>

definition MAX_PENDING_MESSAGE_PROJECTIONS :: usize where
  "MAX_PENDING_MESSAGE_PROJECTIONS = 64"

definition MAX_PENDING_DELIVERY_RECEIPTS :: usize where
  "MAX_PENDING_DELIVERY_RECEIPTS = 4096"

definition RECENT_PROJECTION_IDENTITY_LIMIT :: usize where
  "RECENT_PROJECTION_IDENTITY_LIMIT = 4096"

subsection \<open>Identities\<close>

record projection_identity =
  pi_sender :: string
  pi_destination :: string
  pi_timestamp_ms :: int

record projection_identities =
  ids_pending :: "projection_identity set"
  ids_completed :: "projection_identity set"
  ids_completed_order :: "projection_identity list"

definition identities_default :: projection_identities where
  "identities_default = \<lparr>ids_pending = {}, ids_completed = {}, ids_completed_order = []\<rparr>"

definition reserve_identity :: "projection_identity \<Rightarrow> projection_identities \<Rightarrow> bool \<times> projection_identities" where
  "reserve_identity identity s =
     (if identity \<in> ids_completed s then (False, s)
      else (identity \<notin> ids_pending s, s\<lparr>ids_pending := insert identity (ids_pending s)\<rparr>))"

definition release_pending :: "projection_identity \<Rightarrow> projection_identities \<Rightarrow> projection_identities" where
  "release_pending identity s = s\<lparr>ids_pending := ids_pending s - {identity}\<rparr>"

text \<open>The loop that forgets the oldest identities above the limit.\<close>

fun expire_completed ::
  "projection_identity list \<Rightarrow> projection_identity set \<Rightarrow> projection_identity list \<times> projection_identity set" where
  "expire_completed [] completed = ([], completed)"
| "expire_completed (expired # order) completed =
     (if RECENT_PROJECTION_IDENTITY_LIMIT < length (expired # order)
      then expire_completed order (completed - {expired})
      else (expired # order, completed))"

definition complete_identity :: "projection_identity \<Rightarrow> projection_identities \<Rightarrow> projection_identities" where
  "complete_identity identity s =
     (let s1 = s\<lparr>ids_pending := ids_pending s - {identity}\<rparr>
      in if identity \<in> ids_completed s1 then s1
         else
           case expire_completed (ids_completed_order s1 @ [identity]) (insert identity (ids_completed s1)) of
             (order, completed) \<Rightarrow> s1\<lparr>ids_completed := completed, ids_completed_order := order\<rparr>)"

definition projection_identity_of :: "externals \<Rightarrow> content \<Rightarrow> projection_identity" where
  "projection_identity_of x c =
     \<lparr>pi_sender = x_service_id_string x (ct_sender c),
      pi_destination = x_service_id_string x (ct_destination c),
      pi_timestamp_ms = ct_client_timestamp_ms c\<rparr>"

subsection \<open>Delivery receipts\<close>

record delivery_receipt_identity =
  di_recipient :: string
  di_message_timestamp :: u64

record pending_delivery_receipt =
  pr_identity :: delivery_receipt_identity
  pr_recipient :: service_id
  pr_send_timestamp :: u64

datatype delivery_receipt_state = Receipt_Ready | Receipt_In_Flight | Receipt_Deferred

record delivery_receipt_queue =
  dq_pending :: "(pending_delivery_receipt \<times> delivery_receipt_state) list"
  dq_identities :: "delivery_receipt_identity set"
  dq_limit_reported :: bool

definition receipts_default :: delivery_receipt_queue where
  "receipts_default = \<lparr>dq_pending = [], dq_identities = {}, dq_limit_reported = False\<rparr>"

definition receipts_enqueue ::
  "externals \<Rightarrow> service_id \<Rightarrow> u64 \<Rightarrow> u64 \<Rightarrow> delivery_receipt_queue \<Rightarrow> bool \<times> delivery_receipt_queue" where
  "receipts_enqueue x recipient message_timestamp send_timestamp q =
     (let identity = \<lparr>di_recipient = x_service_id_string x recipient, di_message_timestamp = message_timestamp\<rparr>
      in if identity \<in> dq_identities q then (False, q)
         else if MAX_PENDING_DELIVERY_RECEIPTS \<le> length (dq_pending q) then
           (\<not> dq_limit_reported q, q\<lparr>dq_limit_reported := True\<rparr>)
         else
           (False, q\<lparr>dq_identities := insert identity (dq_identities q),
              dq_pending := dq_pending q @
                [(\<lparr>pr_identity = identity, pr_recipient = recipient, pr_send_timestamp = send_timestamp\<rparr>,
                  Receipt_Ready)]\<rparr>))"

text \<open>The first entry that satisfies a test, marked with a new state.\<close>

fun set_first ::
  "(pending_delivery_receipt \<times> delivery_receipt_state \<Rightarrow> bool) \<Rightarrow> delivery_receipt_state \<Rightarrow>
     (pending_delivery_receipt \<times> delivery_receipt_state) list \<Rightarrow>
     (pending_delivery_receipt \<times> delivery_receipt_state) list" where
  "set_first p st [] = []"
| "set_first p st ((r, s) # es) = (if p (r, s) then (r, st) # es else (r, s) # set_first p st es)"

definition receipts_start_next ::
  "bool \<Rightarrow> delivery_receipt_queue \<Rightarrow> pending_delivery_receipt option \<times> delivery_receipt_queue" where
  "receipts_start_next session_ready q =
     (if \<not> session_ready then (None, q)
      else case find (\<lambda>(_, s). s = Receipt_Ready) (dq_pending q) of
             None \<Rightarrow> (None, q)
           | Some (receipt, _) \<Rightarrow>
               (Some receipt,
                q\<lparr>dq_pending := set_first (\<lambda>(_, s). s = Receipt_Ready) Receipt_In_Flight (dq_pending q)\<rparr>))"

fun remove_first ::
  "(pending_delivery_receipt \<times> delivery_receipt_state \<Rightarrow> bool) \<Rightarrow>
     (pending_delivery_receipt \<times> delivery_receipt_state) list \<Rightarrow>
     (pending_delivery_receipt \<times> delivery_receipt_state) list" where
  "remove_first p [] = []"
| "remove_first p (e # es) = (if p e then es else e # remove_first p es)"

definition receipts_complete ::
  "delivery_receipt_identity \<Rightarrow> delivery_receipt_queue \<Rightarrow> delivery_receipt_queue" where
  "receipts_complete identity q =
     (case find (\<lambda>(r, _). pr_identity r = identity) (dq_pending q) of
        None \<Rightarrow> q
      | Some (receipt, _) \<Rightarrow>
          let left = remove_first (\<lambda>(r, _). pr_identity r = identity) (dq_pending q)
          in q\<lparr>dq_pending := left, dq_identities := dq_identities q - {pr_identity receipt},
               dq_limit_reported :=
                 (if length left < MAX_PENDING_DELIVERY_RECEIPTS then False else dq_limit_reported q)\<rparr>)"

definition receipts_retry ::
  "delivery_receipt_identity \<Rightarrow> bool \<Rightarrow> delivery_receipt_queue \<Rightarrow> delivery_receipt_queue" where
  "receipts_retry identity immediately q =
     q\<lparr>dq_pending := set_first (\<lambda>(r, _). pr_identity r = identity)
          (if immediately then Receipt_Ready else Receipt_Deferred) (dq_pending q)\<rparr>"

definition receipts_activate_retries :: "delivery_receipt_queue \<Rightarrow> delivery_receipt_queue" where
  "receipts_activate_retries q =
     q\<lparr>dq_pending := map (\<lambda>(r, s). (r, if s = Receipt_Deferred then Receipt_Ready else s)) (dq_pending q)\<rparr>"

definition receipts_release_in_flight :: "delivery_receipt_queue \<Rightarrow> delivery_receipt_queue" where
  "receipts_release_in_flight q =
     q\<lparr>dq_pending := map (\<lambda>(r, s). (r, if s = Receipt_In_Flight then Receipt_Ready else s)) (dq_pending q)\<rparr>"

lemmas receipts_defs [model_defs] =
  receipts_enqueue_def receipts_start_next_def receipts_complete_def receipts_retry_def
  receipts_activate_retries_def receipts_release_in_flight_def

subsection \<open>Messages waiting for their acknowledgement\<close>

text \<open>
  \<^verbatim>\<open>delivery_receipt_tasks\<close> holds the receipts being sent, with the generation of the connection that
  started them.
\<close>

record message_projection =
  mp_next_delivery_id :: u64
  mp_pending :: "(u64 \<times> content) list"
  mp_identities :: projection_identities
  mp_acknowledgments :: ack_inbox
  mp_delivery_receipts :: delivery_receipt_queue
  mp_delivery_receipt_tasks :: "(u64 \<times> pending_delivery_receipt) list"

definition projection_new :: "ack_inbox \<Rightarrow> message_projection" where
  "projection_new acknowledgments =
     \<lparr>mp_next_delivery_id = 0, mp_pending = [], mp_identities = identities_default,
      mp_acknowledgments = acknowledgments, mp_delivery_receipts = receipts_default,
      mp_delivery_receipt_tasks = []\<rparr>"

definition projection_has_capacity :: "message_projection \<Rightarrow> bool" where
  "projection_has_capacity p = (length (mp_pending p) < MAX_PENDING_MESSAGE_PROJECTIONS)"

definition projection_track ::
  "externals \<Rightarrow> content \<Rightarrow> message_projection \<Rightarrow> u64 option \<times> message_projection" where
  "projection_track x c p =
     (if \<not> projection_has_capacity p then (None, p)
      else
        case reserve_identity (projection_identity_of x c) (mp_identities p) of
          (False, ids) \<Rightarrow> (None, p\<lparr>mp_identities := ids\<rparr>)
        | (True, ids) \<Rightarrow>
            let delivery_id = next_id (mp_next_delivery_id p)
            in (Some delivery_id,
                p\<lparr>mp_identities := ids, mp_next_delivery_id := delivery_id,
                  mp_pending := AList.update delivery_id c (mp_pending p),
                  mp_acknowledgments := ack_register delivery_id (mp_acknowledgments p)\<rparr>))"

definition projection_release ::
  "externals \<Rightarrow> u64 \<Rightarrow> message_projection \<Rightarrow> content option \<times> message_projection" where
  "projection_release x delivery_id p =
     (case map_of (mp_pending p) delivery_id of
        None \<Rightarrow> (None, p)
      | Some c \<Rightarrow>
          (Some c,
           p\<lparr>mp_pending := AList.delete delivery_id (mp_pending p),
             mp_acknowledgments := ack_unregister delivery_id (mp_acknowledgments p),
             mp_identities := release_pending (projection_identity_of x c) (mp_identities p)\<rparr>))"

definition projection_complete ::
  "externals \<Rightarrow> u64 \<Rightarrow> message_projection \<Rightarrow> content option \<times> message_projection" where
  "projection_complete x delivery_id p =
     (case map_of (mp_pending p) delivery_id of
        None \<Rightarrow> (None, p)
      | Some c \<Rightarrow>
          (Some c,
           p\<lparr>mp_pending := AList.delete delivery_id (mp_pending p),
             mp_acknowledgments := ack_unregister delivery_id (mp_acknowledgments p),
             mp_identities := complete_identity (projection_identity_of x c) (mp_identities p)\<rparr>))"

subsection \<open>Replay queue\<close>

definition content_has_group_context :: "content_body \<Rightarrow> bool" where
  "content_has_group_context body =
     (case body of
        Body_Data message \<Rightarrow> dm_group_v2 message \<noteq> None
      | Body_Edit edit \<Rightarrow>
          (case em_data_message edit of Some message \<Rightarrow> dm_group_v2 message \<noteq> None | None \<Rightarrow> False)
      | Body_Sync (Some (Sync_Sent sent)) \<Rightarrow>
          (case or_else (st_message sent)
                  (case st_edit_message sent of Some edit \<Rightarrow> em_data_message edit | None \<Rightarrow> None) of
             Some message \<Rightarrow> dm_group_v2 message \<noteq> None
           | None \<Rightarrow> False)
      | _ \<Rightarrow> False)"

definition content_is_projectable :: "content_body \<Rightarrow> bool \<Rightarrow> bool" where
  "content_is_projectable body authoritative = (authoritative \<or> \<not> content_has_group_context body)"

record message_replay_queue =
  rq_ready :: "content list"
  rq_waiting_for_groups :: "content list"

definition replay_default :: message_replay_queue where
  "replay_default = \<lparr>rq_ready = [], rq_waiting_for_groups = []\<rparr>"

definition replay_push :: "bool \<Rightarrow> content \<Rightarrow> message_replay_queue \<Rightarrow> message_replay_queue" where
  "replay_push authoritative c q =
     (if content_has_group_context (ct_body c) \<and> \<not> authoritative
      then q\<lparr>rq_waiting_for_groups := rq_waiting_for_groups q @ [c]\<rparr>
      else q\<lparr>rq_ready := rq_ready q @ [c]\<rparr>)"

definition replay_replace :: "content list \<Rightarrow> bool \<Rightarrow> message_replay_queue \<Rightarrow> message_replay_queue" where
  "replay_replace messages authoritative q =
     fold (replay_push authoritative) messages (q\<lparr>rq_ready := [], rq_waiting_for_groups := []\<rparr>)"

definition replay_activate_groups :: "message_replay_queue \<Rightarrow> message_replay_queue" where
  "replay_activate_groups q =
     q\<lparr>rq_ready := rq_ready q @ rq_waiting_for_groups q, rq_waiting_for_groups := []\<rparr>"

definition replay_pop_ready :: "message_replay_queue \<Rightarrow> content option \<times> message_replay_queue" where
  "replay_pop_ready q =
     (case rq_ready q of [] \<Rightarrow> (None, q) | c # cs \<Rightarrow> (Some c, q\<lparr>rq_ready := cs\<rparr>))"

definition replay_can_accept_live_message :: "message_replay_queue \<Rightarrow> bool" where
  "replay_can_accept_live_message q =
     (saturating_add (length (rq_ready q)) (length (rq_waiting_for_groups q)) < MAX_PENDING_MESSAGE_PROJECTIONS)"

section \<open>Receipts: the queue is bounded and free of duplicates\<close>

datatype receipt_op =
    R_Enqueue service_id u64 u64
  | R_Start bool
  | R_Complete delivery_receipt_identity
  | R_Retry delivery_receipt_identity bool
  | R_Activate
  | R_Release

fun receipts_exec :: "externals \<Rightarrow> receipt_op \<Rightarrow> delivery_receipt_queue \<Rightarrow> delivery_receipt_queue" where
  "receipts_exec x (R_Enqueue recipient mt st) q = snd (receipts_enqueue x recipient mt st q)"
| "receipts_exec x (R_Start ready) q = snd (receipts_start_next ready q)"
| "receipts_exec x (R_Complete i) q = receipts_complete i q"
| "receipts_exec x (R_Retry i immediately) q = receipts_retry i immediately q"
| "receipts_exec x R_Activate q = receipts_activate_retries q"
| "receipts_exec x R_Release q = receipts_release_in_flight q"

definition receipt_ids :: "delivery_receipt_queue \<Rightarrow> delivery_receipt_identity list" where
  "receipt_ids q = map (pr_identity \<circ> fst) (dq_pending q)"

definition receipts_inv :: "delivery_receipt_queue \<Rightarrow> bool" where
  "receipts_inv q \<longleftrightarrow>
     distinct (receipt_ids q) \<and> dq_identities q = set (receipt_ids q) \<and>
     length (dq_pending q) \<le> MAX_PENDING_DELIVERY_RECEIPTS"

lemma set_first_fst [simp]: "map fst (set_first p st es) = map fst es"
  by (induction es) auto

lemma length_set_first [simp]: "length (set_first p st es) = length es"
  by (metis length_map set_first_fst)

lemma set_first_ids [simp]: "map (pr_identity \<circ> fst) (set_first p st es) = map (pr_identity \<circ> fst) es"
  by (metis list.map_comp set_first_fst)

lemma map_state_ids [simp]:
  "map (pr_identity \<circ> fst) (map (\<lambda>(r, s). (r, f s)) es) = map (pr_identity \<circ> fst) es"
  by (induction es) auto

lemma filter_other: "i \<notin> set ids \<Longrightarrow> filter (\<lambda>j. j \<noteq> i) ids = ids"
  by (induction ids) auto

lemma remove_first_ids:
  assumes "distinct (map (pr_identity \<circ> fst) es)"
  shows "map (pr_identity \<circ> fst) (remove_first (\<lambda>(r, _). pr_identity r = i) es) =
    filter (\<lambda>j. j \<noteq> i) (map (pr_identity \<circ> fst) es)"
  using assms by (induction es) (auto simp: image_iff filter_other)

lemma find_receipt:
  "find (\<lambda>(r, _). pr_identity r = i) es = None \<longleftrightarrow> i \<notin> set (map (pr_identity \<circ> fst) es)"
  "find (\<lambda>(r, _). pr_identity r = i) es = Some (receipt, st) \<Longrightarrow> pr_identity receipt = i"
  by (induction es) (auto split: if_splits)

lemma receipts_inv_complete:
  assumes "receipts_inv q"
  shows "receipts_inv (receipts_complete i q) \<and> receipt_ids (receipts_complete i q) = filter (\<lambda>j. j \<noteq> i) (receipt_ids q)"
proof (cases "find (\<lambda>(r, _). pr_identity r = i) (dq_pending q)")
  case None
  then have "i \<notin> set (receipt_ids q)" by (simp only: find_receipt(1) receipt_ids_def) simp
  then have "filter (\<lambda>j. j \<noteq> i) (receipt_ids q) = receipt_ids q" by (rule filter_other)
  then show ?thesis using assms None by (simp add: receipts_complete_def)
next
  case (Some e)
  obtain receipt st where e: "e = (receipt, st)" by (cases e)
  let ?left = "remove_first (\<lambda>(r, _). pr_identity r = i) (dq_pending q)"
  have ids: "map (pr_identity \<circ> fst) ?left = filter (\<lambda>j. j \<noteq> i) (receipt_ids q)"
    using assms remove_first_ids [of "dq_pending q" i] by (simp add: receipts_inv_def receipt_ids_def)
  have "length ?left \<le> length (dq_pending q)"
    using arg_cong [OF ids, of length] length_filter_le [of _ "receipt_ids q"] by (simp add: receipt_ids_def)
  moreover have "pr_identity receipt = i" using Some e find_receipt(2) by metis
  ultimately show ?thesis
    using assms Some e ids by (auto simp: receipts_complete_def receipts_inv_def receipt_ids_def Let_def)
qed

lemma receipts_marking:
  "receipt_ids (snd (receipts_start_next ready q)) = receipt_ids q"
  "receipt_ids (receipts_retry i immediately q) = receipt_ids q"
  "receipt_ids (receipts_activate_retries q) = receipt_ids q"
  "receipt_ids (receipts_release_in_flight q) = receipt_ids q"
  "dq_identities (snd (receipts_start_next ready q)) = dq_identities q"
  "dq_identities (receipts_retry i immediately q) = dq_identities q"
  "dq_identities (receipts_activate_retries q) = dq_identities q"
  "dq_identities (receipts_release_in_flight q) = dq_identities q"
  by (simp_all add: receipts_defs receipt_ids_def del: map_map split: option.split)

lemma receipts_inv_ids:
  "receipts_inv q \<longleftrightarrow> distinct (receipt_ids q) \<and> dq_identities q = set (receipt_ids q) \<and>
     length (receipt_ids q) \<le> MAX_PENDING_DELIVERY_RECEIPTS"
  by (simp add: receipts_inv_def receipt_ids_def)

lemma receipts_inv_step: "receipts_inv q \<Longrightarrow> receipts_inv (receipts_exec x op q)"
proof (cases op)
  case (R_Enqueue recipient mt st)
  assume "receipts_inv q"
  then show ?thesis
    by (auto simp: R_Enqueue receipts_enqueue_def receipts_inv_def receipt_ids_def Let_def)
next
  case (R_Complete i)
  assume "receipts_inv q"
  then show ?thesis using receipts_inv_complete by (simp add: R_Complete)
qed (simp_all add: receipts_inv_ids receipts_marking)

interpretation receipts: op_system "receipts_exec x" receipts_inv for x
  by unfold_locales (rule receipts_inv_step)

lemma receipts_inv_default: "receipts_inv receipts_default"
  by (simp add: receipts_inv_def receipts_default_def receipt_ids_def)

text \<open>Only a completion takes a receipt out of the queue.\<close>

lemma receipts_leave_by_completion:
  "receipts_inv q \<Longrightarrow> i \<in> set (receipt_ids q) \<Longrightarrow> op \<noteq> R_Complete i \<Longrightarrow>
     i \<in> set (receipt_ids (receipts_exec x op q))"
proof (cases op)
  case (R_Enqueue recipient mt st)
  assume "i \<in> set (receipt_ids q)"
  then show ?thesis by (auto simp: R_Enqueue receipts_enqueue_def receipt_ids_def Let_def)
qed (use receipts_inv_complete [of q] in \<open>auto simp: receipts_marking\<close>)

text \<open>
  The queue of delivery receipts never holds more than 4096 receipts, never two for the same message of
  the same recipient, and its index lists exactly the receipts it holds, after every sequence of operations.
\<close>

lemma receipts_run_bounded:
  "let q = fold (receipts_exec x) ops receipts_default
   in length (dq_pending q) \<le> 4096 \<and> distinct (receipt_ids q) \<and> dq_identities q = set (receipt_ids q)"
  using receipts.run_inv_all [OF receipts_inv_default, of x ops]
  by (simp add: receipts_inv_def Let_def MAX_PENDING_DELIVERY_RECEIPTS_def)

section \<open>Projection: a message is shown once\<close>

text \<open>
  The worker tracks, releases and completes messages; the plugin submits acknowledgements and the worker takes and
  defers them.
\<close>

datatype projection_op =
    P_Track content
  | P_Release u64
  | P_Complete u64
  | P_Submit u64
  | P_Take usize
  | P_Defer u64
  | P_Activate
  | P_Close

fun projection_exec :: "externals \<Rightarrow> projection_op \<Rightarrow> message_projection \<Rightarrow> message_projection" where
  "projection_exec x (P_Track c) p = snd (projection_track x c p)"
| "projection_exec x (P_Release i) p = snd (projection_release x i p)"
| "projection_exec x (P_Complete i) p = snd (projection_complete x i p)"
| "projection_exec x (P_Submit i) p = p\<lparr>mp_acknowledgments := snd (ack_submit i (mp_acknowledgments p))\<rparr>"
| "projection_exec x (P_Take n) p = p\<lparr>mp_acknowledgments := snd (take_ready n (mp_acknowledgments p))\<rparr>"
| "projection_exec x (P_Defer i) p = p\<lparr>mp_acknowledgments := defer_retry i (mp_acknowledgments p)\<rparr>"
| "projection_exec x P_Activate p = p\<lparr>mp_acknowledgments := activate_retries (mp_acknowledgments p)\<rparr>"
| "projection_exec x P_Close p = p\<lparr>mp_acknowledgments := ack_close (mp_acknowledgments p)\<rparr>"

definition identities_inv :: "projection_identities \<Rightarrow> bool" where
  "identities_inv s \<longleftrightarrow>
     ids_pending s \<inter> ids_completed s = {} \<and> ids_completed s = set (ids_completed_order s) \<and>
     distinct (ids_completed_order s) \<and> length (ids_completed_order s) \<le> RECENT_PROJECTION_IDENTITY_LIMIT"

definition shown_ids :: "externals \<Rightarrow> message_projection \<Rightarrow> projection_identity list" where
  "shown_ids x p = map (projection_identity_of x \<circ> snd) (mp_pending p)"

definition projection_inv :: "externals \<Rightarrow> message_projection \<Rightarrow> bool" where
  "projection_inv x p \<longleftrightarrow>
     identities_inv (mp_identities p) \<and>
     distinct (map fst (mp_pending p)) \<and> distinct (shown_ids x p) \<and>
     set (shown_ids x p) = ids_pending (mp_identities p) \<and>
     length (mp_pending p) \<le> MAX_PENDING_MESSAGE_PROJECTIONS \<and>
     (\<forall>i \<in> fst ` set (mp_pending p). i \<noteq> 0 \<and> i \<le> mp_next_delivery_id p) \<and>
     ai_registered (mp_acknowledgments p) = fst ` set (mp_pending p) \<and>
     ai_accepted (mp_acknowledgments p) \<subseteq> ai_registered (mp_acknowledgments p)"

lemma expire_completed_eq:
  "distinct order \<Longrightarrow> completed = set order \<Longrightarrow> expire_completed order completed =
     (drop (length order - RECENT_PROJECTION_IDENTITY_LIMIT) order,
      set (drop (length order - RECENT_PROJECTION_IDENTITY_LIMIT) order))"
proof (induction order completed rule: expire_completed.induct)
  case (2 e order completed)
  show ?case
  proof (cases "RECENT_PROJECTION_IDENTITY_LIMIT < length (e # order)")
    case True
    then have "length (e # order) - RECENT_PROJECTION_IDENTITY_LIMIT =
        Suc (length order - RECENT_PROJECTION_IDENTITY_LIMIT)" by simp
    then show ?thesis using 2 True by simp
  qed (use 2 in simp)
qed simp

lemma complete_identity_eq:
  assumes "identities_inv s" "identity \<notin> ids_completed s"
  defines "order \<equiv> ids_completed_order s @ [identity]"
  shows "complete_identity identity s =
    s\<lparr>ids_pending := ids_pending s - {identity},
      ids_completed := set (drop (length order - RECENT_PROJECTION_IDENTITY_LIMIT) order),
      ids_completed_order := drop (length order - RECENT_PROJECTION_IDENTITY_LIMIT) order\<rparr>"
proof -
  have "distinct order" "insert identity (ids_completed s) = set order"
    using assms by (auto simp: identities_inv_def)
  then show ?thesis
    using assms(2) expire_completed_eq [of order] by (simp add: complete_identity_def order_def Let_def)
qed

lemma identities_inv_complete:
  assumes "identities_inv s" "identity \<in> ids_pending s"
  shows "identities_inv (complete_identity identity s)"
    "ids_pending (complete_identity identity s) = ids_pending s - {identity}"
proof -
  let ?order = "ids_completed_order s @ [identity]"
  let ?kept = "drop (length ?order - RECENT_PROJECTION_IDENTITY_LIMIT) ?order"
  have new: "identity \<notin> ids_completed s" using assms by (auto simp: identities_inv_def)
  have "distinct ?order" "set ?order = insert identity (ids_completed s)"
    using assms(1) new by (auto simp: identities_inv_def)
  then have "distinct ?kept" "set ?kept \<subseteq> insert identity (ids_completed s)"
    using set_drop_subset [of _ ?order] by (auto simp del: drop_append)
  moreover have "length ?kept \<le> RECENT_PROJECTION_IDENTITY_LIMIT" by simp
  ultimately show "identities_inv (complete_identity identity s)"
    using assms(1) complete_identity_eq [OF assms(1) new] by (auto simp: identities_inv_def simp del: drop_append)
  show "ids_pending (complete_identity identity s) = ids_pending s - {identity}"
    using complete_identity_eq [OF assms(1) new] by simp
qed

lemma shown_ids_delete:
  assumes "projection_inv x p" "map_of (mp_pending p) i = Some c"
  shows "distinct (map (projection_identity_of x \<circ> snd) (AList.delete i (mp_pending p))) \<and>
    set (map (projection_identity_of x \<circ> snd) (AList.delete i (mp_pending p))) =
      set (shown_ids x p) - {projection_identity_of x c}"
proof -
  have d: "distinct (map fst (mp_pending p))" "distinct (map (projection_identity_of x \<circ> snd) (mp_pending p))"
    using assms(1) by (simp_all add: projection_inv_def shown_ids_def)
  have c: "(i, c) \<in> set (mp_pending p)" using assms(2) by (rule map_of_SomeD)
  have inj: "inj_on (projection_identity_of x \<circ> snd) (set (mp_pending p))" using d(2) by (simp add: distinct_map)
  have key: "e = (i, c)" if "e \<in> set (mp_pending p)" "fst e = i" for e
    using that c eq_key_imp_eq_value [OF d(1), of i "snd e" c] by (cases e) auto
  have "projection_identity_of x (snd e) = projection_identity_of x c \<longleftrightarrow> fst e = i"
    if e: "e \<in> set (mp_pending p)" for e
  proof
    assume "projection_identity_of x (snd e) = projection_identity_of x c"
    then have "e = (i, c)" using e c by (intro inj_onD [OF inj]) simp_all
    then show "fst e = i" by simp
  next
    assume "fst e = i"
    then have "e = (i, c)" by (rule key [OF e])
    then show "projection_identity_of x (snd e) = projection_identity_of x c" by simp
  qed
  then show ?thesis
    using d(2) by (auto simp: shown_ids_def AList.delete_eq distinct_map_filter)
qed

lemma projection_inv_track:
  assumes inv: "projection_inv x p" and room: "mp_next_delivery_id p \<noteq> - 1"
  shows "projection_inv x (snd (projection_track x c p))"
proof (cases "projection_has_capacity p \<and> projection_identity_of x c \<notin> ids_completed (mp_identities p) \<and>
    projection_identity_of x c \<notin> ids_pending (mp_identities p)")
  case True
  let ?i = "next_id (mp_next_delivery_id p)"
  have less: "mp_next_delivery_id p < ?i"
    using next_id_unat [OF room] by (simp add: word_less_nat_alt)
  then have fresh: "?i \<notin> fst ` set (mp_pending p)" using inv by (auto simp: projection_inv_def)
  have bound: "j \<le> ?i" if "j \<in> fst ` set (mp_pending p)" for j
    using inv that less by (meson less_imp_le order_trans projection_inv_def)
  have upd: "AList.update ?i c (mp_pending p) = mp_pending p @ [(?i, c)]" using fresh by (rule update_fresh_alist)
  have acc: "ai_accepted (mp_acknowledgments p) \<subseteq> insert ?i (fst ` set (mp_pending p))"
    using inv by (auto simp: projection_inv_def)
  show ?thesis
    using inv True fresh bound acc
    by (auto simp: projection_track_def reserve_identity_def projection_has_capacity_def upd projection_inv_def
        identities_inv_def shown_ids_def ack_register_def Let_def)
next
  case False
  have "insert (projection_identity_of x c) (ids_pending (mp_identities p)) = ids_pending (mp_identities p)"
    if "projection_identity_of x c \<in> ids_pending (mp_identities p)"
    using that by auto
  then have "snd (projection_track x c p) = p"
    using False by (auto simp: projection_track_def reserve_identity_def Let_def)
  then show ?thesis using inv by simp
qed

lemma projection_inv_settle:
  assumes inv: "projection_inv x p" and pend: "map_of (mp_pending p) i = Some c"
    and ids: "identities_inv ids" "ids_pending ids = ids_pending (mp_identities p) - {projection_identity_of x c}"
  shows "projection_inv x (p\<lparr>mp_pending := AList.delete i (mp_pending p),
    mp_acknowledgments := ack_unregister i (mp_acknowledgments p), mp_identities := ids\<rparr>)"
  using inv ids shown_ids_delete [OF inv pend] length_delete_alist_le [of i "mp_pending p"]
  by (auto simp: projection_inv_def shown_ids_def ack_unregister_def set_delete_alist distinct_delete image_iff)

lemma projection_inv_release:
  assumes inv: "projection_inv x p"
  shows "projection_inv x (snd (projection_release x i p))"
proof (cases "map_of (mp_pending p) i")
  case (Some c)
  have "identities_inv (release_pending (projection_identity_of x c) (mp_identities p))"
    using inv by (auto simp: projection_inv_def identities_inv_def release_pending_def)
  then show ?thesis
    using projection_inv_settle [OF inv Some] Some by (simp add: projection_release_def release_pending_def)
qed (simp add: projection_release_def inv)

lemma shown_mem:
  assumes "map_of (mp_pending p) i = Some c"
  shows "projection_identity_of x c \<in> set (shown_ids x p)"
  using imageI [OF map_of_SomeD [OF assms], of "projection_identity_of x \<circ> snd"] by (simp add: shown_ids_def)

lemma projection_inv_complete:
  assumes inv: "projection_inv x p"
  shows "projection_inv x (snd (projection_complete x i p))"
proof (cases "map_of (mp_pending p) i")
  case (Some c)
  have "projection_identity_of x c \<in> ids_pending (mp_identities p)"
    using inv shown_mem [OF Some, of x] unfolding projection_inv_def by blast
  moreover have "identities_inv (mp_identities p)" using inv by (simp add: projection_inv_def)
  ultimately show ?thesis
    using projection_inv_settle [OF inv Some] identities_inv_complete Some by (simp add: projection_complete_def)
qed (simp add: projection_complete_def inv)

definition projection_ok :: "projection_op \<Rightarrow> message_projection \<Rightarrow> bool" where
  "projection_ok op p \<longleftrightarrow> mp_next_delivery_id p \<noteq> - 1"

text \<open>The other operations of the inbox keep the registered ids and accept only registered ones.\<close>

lemma ack_registered:
  "ai_registered (snd (ack_submit i a)) = ai_registered a"
  "ai_registered (snd (take_ready n a)) = ai_registered a"
  "ai_registered (defer_retry i a) = ai_registered a"
  "ai_registered (activate_retries a) = ai_registered a"
  "ai_registered (ack_close a) = ai_registered a"
  by (simp_all add: ack_defs Let_def)

lemma ack_accepted:
  "ai_accepted (snd (ack_submit i a)) \<subseteq> ai_accepted a \<union> ai_registered a"
  "ai_accepted (snd (take_ready n a)) = ai_accepted a"
  "ai_accepted (defer_retry i a) = ai_accepted a"
  "ai_accepted (activate_retries a) = ai_accepted a"
  "ai_accepted (ack_close a) = ai_accepted a"
  by (auto simp: ack_defs Let_def)

lemma projection_inv_acks:
  "projection_inv x p \<Longrightarrow> ai_registered a = ai_registered (mp_acknowledgments p) \<Longrightarrow>
     ai_accepted a \<subseteq> ai_registered (mp_acknowledgments p) \<Longrightarrow> projection_inv x (p\<lparr>mp_acknowledgments := a\<rparr>)"
  by (simp add: projection_inv_def shown_ids_def)

lemma projection_inv_step:
  assumes "projection_inv x p" "projection_ok op p"
  shows "projection_inv x (projection_exec x op p)"
proof -
  have acc: "ai_accepted (mp_acknowledgments p) \<subseteq> ai_registered (mp_acknowledgments p)"
    using assms(1) unfolding projection_inv_def by blast
  note acks = projection_inv_acks [OF assms(1)]
  show ?thesis
  proof (cases op)
    case (P_Submit i)
    have "ai_accepted (snd (ack_submit i (mp_acknowledgments p))) \<subseteq> ai_registered (mp_acknowledgments p)"
      using ack_accepted(1) [of i "mp_acknowledgments p"] acc by blast
    then show ?thesis by (simp add: P_Submit acks ack_registered)
  qed (use assms acc in \<open>simp_all add: projection_ok_def projection_inv_track projection_inv_release
      projection_inv_complete acks ack_registered ack_accepted\<close>)
qed

interpretation projection: guarded_system projection_ok "projection_exec x" "projection_inv x" for x
  by unfold_locales (rule projection_inv_step)

text \<open>The counter of delivery ids, which only tracking advances, and by one.\<close>

lemma next_delivery_id_step:
  "mp_next_delivery_id p \<noteq> - 1 \<Longrightarrow>
     unat (mp_next_delivery_id (projection_exec x op p)) \<le> unat (mp_next_delivery_id p) + 1"
  by (cases op)
     (auto simp: projection_track_def projection_release_def projection_complete_def Let_def next_id_unat
       split: option.split prod.split bool.split)

lemma projection_admissible:
  "unat (mp_next_delivery_id p) + length ops < 2 ^ 64 - 1 \<Longrightarrow> admissible projection_ok (projection_exec x) p ops"
proof (induction ops arbitrary: p)
  case (Cons op ops)
  have "unat (- 1 :: u64) = 2 ^ 64 - 1" by (simp add: unsigned_minus_1_eq_mask mask_eq_exp_minus_1)
  then have ok: "mp_next_delivery_id p \<noteq> - 1" using Cons.prems by auto
  moreover have "unat (mp_next_delivery_id (projection_exec x op p)) + length ops < 2 ^ 64 - 1"
    using next_delivery_id_step [OF ok, of x op] Cons.prems by simp
  ultimately show ?case using Cons.IH by (simp add: projection_ok_def)
qed simp

lemma projection_inv_new: "projection_inv x (projection_new ack_new)"
  by (simp add: projection_inv_def identities_inv_def projection_new_def identities_default_def ack_new_def
      shown_ids_def)

text \<open>
  C20. After any sequence of operations, short enough for the 64-bit delivery counter not to wrap, at most 64 messages wait
  for their acknowledgement, each with an identity of its own and a non-zero delivery id of its own; at most 4096 completed
  identities are remembered and none of them is waiting; and the acknowledgement inbox has registered exactly the waiting deliveries and
  accepted only these.
\<close>

theorem projection_run_consistent:
  fixes x :: externals
  assumes "length ops < 2 ^ 64 - 1"
  defines "p \<equiv> fold (projection_exec x) ops (projection_new ack_new)"
  shows "length (mp_pending p) \<le> 64 \<and> distinct (map fst (mp_pending p)) \<and> 0 \<notin> fst ` set (mp_pending p) \<and>
    distinct (shown_ids x p) \<and> set (shown_ids x p) = ids_pending (mp_identities p) \<and>
    ids_pending (mp_identities p) \<inter> ids_completed (mp_identities p) = {} \<and>
    card (ids_completed (mp_identities p)) \<le> 4096 \<and>
    ai_registered (mp_acknowledgments p) = fst ` set (mp_pending p) \<and>
    ai_accepted (mp_acknowledgments p) \<subseteq> fst ` set (mp_pending p)"
proof -
  have "admissible projection_ok (projection_exec x) (projection_new ack_new) ops"
    using assms(1) by (intro projection_admissible) (simp add: projection_new_def)
  then have inv: "projection_inv x p"
    unfolding p_def by (rule projection.run_inv [OF projection_inv_new])
  have "card (ids_completed (mp_identities p)) \<le> 4096"
    using inv distinct_card [of "ids_completed_order (mp_identities p)"]
    by (auto simp: projection_inv_def identities_inv_def RECENT_PROJECTION_IDENTITY_LIMIT_def)
  then show ?thesis
    using inv unfolding projection_inv_def identities_inv_def MAX_PENDING_MESSAGE_PROJECTIONS_def by blast
qed

definition sample_content :: "int \<Rightarrow> content" where
  "sample_content t =
     \<lparr>ct_sender = Aci [1], ct_destination = Aci [7], ct_client_timestamp_ms = t, ct_needs_receipt = True,
      ct_body = Body_Data (data_message_default\<lparr>dm_body := Some ''hi''\<rparr>)\<rparr>"

theorem projection_run_consistent_witness:
  "let p = fold (projection_exec sample_externals) [P_Track (sample_content 5), P_Track (sample_content 5),
        P_Track (sample_content 6), P_Submit 1, P_Complete 1] (projection_new ack_new)
   in distinct (shown_ids sample_externals p) \<and> ai_registered (mp_acknowledgments p) = fst ` set (mp_pending p)"
  unfolding Let_def
  using projection_run_consistent [of "[P_Track (sample_content 5), P_Track (sample_content 5),
        P_Track (sample_content 6), P_Submit 1, P_Complete 1]" sample_externals]
  by simp

subsection \<open>Messages tracked along a run\<close>

fun tracked :: "externals \<Rightarrow> projection_op list \<Rightarrow> message_projection \<Rightarrow> projection_identity list" where
  "tracked x [] p = []"
| "tracked x (op # ops) p =
     (case op of
        P_Track c \<Rightarrow> (if fst (projection_track x c p) = None then [] else [projection_identity_of x c])
      | _ \<Rightarrow> []) @ tracked x ops (projection_exec x op p)"

fun is_release :: "projection_op \<Rightarrow> bool" where
  "is_release (P_Release i) = True"
| "is_release _ = False"

fun is_complete :: "projection_op \<Rightarrow> bool" where
  "is_complete (P_Complete i) = True"
| "is_complete _ = False"

abbreviation known_ids :: "message_projection \<Rightarrow> projection_identity set" where
  "known_ids p \<equiv> ids_pending (mp_identities p) \<union> ids_completed (mp_identities p)"

lemma track_result:
  "fst (projection_track x c p) = None \<longleftrightarrow> \<not> projection_has_capacity p \<or> projection_identity_of x c \<in> known_ids p"
  by (auto simp: projection_track_def reserve_identity_def Let_def split: bool.split)

lemma known_track:
  "known_ids (snd (projection_track x c p)) =
     (if fst (projection_track x c p) = None then known_ids p else insert (projection_identity_of x c) (known_ids p))"
  by (auto simp: projection_track_def reserve_identity_def Let_def split: bool.split)

text \<open>Completing keeps every known identity while the memory of completed ones is not full.\<close>

lemma known_complete:
  assumes inv: "projection_inv x p"
    and room: "length (ids_completed_order (mp_identities p)) < RECENT_PROJECTION_IDENTITY_LIMIT"
  shows "known_ids (snd (projection_complete x i p)) = known_ids p \<and>
    length (ids_completed_order (mp_identities (snd (projection_complete x i p))))
      \<le> Suc (length (ids_completed_order (mp_identities p)))"
proof (cases "map_of (mp_pending p) i")
  case (Some c)
  have ids: "identities_inv (mp_identities p)" and pend: "projection_identity_of x c \<in> ids_pending (mp_identities p)"
    using inv shown_mem [OF Some, of x] unfolding projection_inv_def by blast+
  then have "projection_identity_of x c \<notin> ids_completed (mp_identities p)" by (auto simp: identities_inv_def)
  from complete_identity_eq [OF ids this] room ids pend show ?thesis
    by (auto simp: projection_complete_def Some identities_inv_def)
qed (simp add: projection_complete_def)

lemma tracked_distinct:
  assumes "projection_inv x p" "admissible projection_ok (projection_exec x) p ops" "list_all (\<lambda>op. \<not> is_release op) ops"
    and "length (ids_completed_order (mp_identities p)) + length (filter is_complete ops) \<le> RECENT_PROJECTION_IDENTITY_LIMIT"
  shows "distinct (tracked x ops p) \<and> set (tracked x ops p) \<inter> known_ids p = {}"
  using assms
proof (induction ops arbitrary: p)
  case (Cons op ops)
  let ?q = "projection_exec x op p"
  have inv: "projection_inv x ?q" using Cons.prems by (auto intro: projection_inv_step)
  have step: "known_ids ?q = known_ids p \<union> set (tracked x [op] p) \<and>
      length (ids_completed_order (mp_identities ?q)) \<le>
        length (ids_completed_order (mp_identities p)) + length (filter is_complete [op])"
  proof (cases op)
    case (P_Track c)
    have "ids_completed_order (mp_identities ?q) = ids_completed_order (mp_identities p)"
      by (auto simp: P_Track projection_track_def reserve_identity_def Let_def split: bool.split)
    then show ?thesis using known_track [of x c p] by (simp add: P_Track)
  next
    case (P_Complete i)
    then show ?thesis using known_complete [OF Cons.prems(1), of i] Cons.prems(4) by simp
  qed (use Cons.prems(3) in simp_all)
  then have "distinct (tracked x ops ?q) \<and> set (tracked x ops ?q) \<inter> known_ids ?q = {}"
    using Cons.prems inv by (intro Cons.IH) (auto split: if_splits)
  moreover have "set (tracked x [op] p) \<inter> known_ids p = {}" "distinct (tracked x [op] p)"
    using track_result [of x _ p] by (auto split: projection_op.split)
  moreover have "tracked x (op # ops) p = tracked x [op] p @ tracked x ops ?q" by simp
  ultimately show ?case using step by auto
qed simp

text \<open>
  C21. A message is given to the user interface at most once: along any run without releases that completes at most 4096
  messages, the identities of the tracked messages are all different, whatever is replayed or delivered twice.
\<close>

theorem projection_shows_once:
  assumes "length ops < 2 ^ 64 - 1" "list_all (\<lambda>op. \<not> is_release op) ops" "length (filter is_complete ops) \<le> 4096"
  shows "distinct (tracked x ops (projection_new ack_new))"
proof -
  have "admissible projection_ok (projection_exec x) (projection_new ack_new) ops"
    using assms(1) by (intro projection_admissible) (simp add: projection_new_def)
  then show ?thesis
    using tracked_distinct [OF projection_inv_new] assms(2,3)
    by (simp add: projection_new_def identities_default_def RECENT_PROJECTION_IDENTITY_LIMIT_def)
qed

theorem projection_shows_once_witness:
  "distinct (tracked sample_externals
     [P_Track (sample_content 5), P_Track (sample_content 5), P_Complete 1, P_Track (sample_content 5)]
     (projection_new ack_new))"
  by (rule projection_shows_once) simp_all

subsection \<open>Replay\<close>

lemma replay_fold:
  "fold (replay_push authoritative) cs q =
     q\<lparr>rq_ready := rq_ready q @ filter (\<lambda>c. content_is_projectable (ct_body c) authoritative) cs,
       rq_waiting_for_groups := rq_waiting_for_groups q @
         filter (\<lambda>c. \<not> content_is_projectable (ct_body c) authoritative) cs\<rparr>"
  by (induction cs arbitrary: q) (simp_all add: replay_push_def content_is_projectable_def)

fun replay_drain :: "nat \<Rightarrow> message_replay_queue \<Rightarrow> content list" where
  "replay_drain 0 q = []"
| "replay_drain (Suc n) q =
     (case replay_pop_ready q of (None, _) \<Rightarrow> [] | (Some c, q1) \<Rightarrow> c # replay_drain n q1)"

lemma replay_drain_eq: "length (rq_ready q) \<le> n \<Longrightarrow> replay_drain n q = rq_ready q"
  by (induction n arbitrary: q) (auto simp: replay_pop_ready_def split: list.splits)

text \<open>
  Replaying loses and reorders nothing but the group messages that must wait: what is loaded before the groups are
  authoritative comes out as the projectable messages in their stored order, and after the groups have been activated the waiting group messages follow in
  theirs; until then no message with a group context comes out.
\<close>

lemma replay_keeps_order:
  "let q = replay_replace messages authoritative q0
   in replay_drain (length messages) q = filter (\<lambda>c. content_is_projectable (ct_body c) authoritative) messages \<and>
      replay_drain (length messages) (replay_activate_groups q) =
        filter (\<lambda>c. content_is_projectable (ct_body c) authoritative) messages @
        filter (\<lambda>c. \<not> content_is_projectable (ct_body c) authoritative) messages"
proof -
  let ?P = "\<lambda>c. content_is_projectable (ct_body c) authoritative"
  have "length (filter ?P messages) + length (filter (\<lambda>c. \<not> ?P c) messages) = length messages"
    by (rule sum_length_filter_compl)
  then show ?thesis
    by (simp add: Let_def replay_replace_def replay_fold replay_activate_groups_def replay_drain_eq)
qed

end
