(* ===== verification/Media.thy ===== *)
theory Media
  imports Content_Model
begin

section \<open>Media (backend/media.rs)\<close>

text \<open>
  The checks on media that arrives from the network: the image signatures, the bounded GIF
  parser, the recognition of Signal's GIF videos with the names shown for them, the bounded read of the transcoder's
  output, and the avatar cache. The image library, ffmpeg and the file system are parameters.
\<close>

definition MAX_INLINE_MEDIA_BYTES :: usize where
  "MAX_INLINE_MEDIA_BYTES = 8 * 1024 * 1024"

definition MAX_INLINE_GIF_EDGE :: usize where
  "MAX_INLINE_GIF_EDGE = 8192"

definition MAX_INLINE_GIF_PIXELS :: usize where
  "MAX_INLINE_GIF_PIXELS = 16 * 1000 * 1000"

definition MAX_INLINE_GIF_PIXEL_FRAMES :: usize where
  "MAX_INLINE_GIF_PIXEL_FRAMES = 8 * 1000 * 1000"

definition MAX_SIGNAL_GIF_TRANSCODES_PER_MESSAGE :: usize where
  "MAX_SIGNAL_GIF_TRANSCODES_PER_MESSAGE = 2"

subsection \<open>Signatures\<close>

definition JPEG_SIGNATURE :: bytes where
  "JPEG_SIGNATURE = [0xff, 0xd8, 0xff]"

definition PNG_SIGNATURE :: bytes where
  "PNG_SIGNATURE = [0x89, 0x50, 0x4e, 0x47, 0x0d, 0x0a, 0x1a, 0x0a]"

definition gif_signature :: "bytes \<Rightarrow> bool" where
  "gif_signature data = (prefix (ascii_bytes ''GIF87a'') data \<or> prefix (ascii_bytes ''GIF89a'') data)"

definition inline_image_matches :: "string option \<Rightarrow> bytes \<Rightarrow> bool" where
  "inline_image_matches content_type data =
     (if MAX_INLINE_MEDIA_BYTES < length data then False
      else case content_type of
        Some t \<Rightarrow>
          if eq_ignore_ascii_case t ''image/jpeg'' then prefix JPEG_SIGNATURE data
          else if eq_ignore_ascii_case t ''image/png'' then prefix PNG_SIGNATURE data
          else if eq_ignore_ascii_case t ''image/gif'' then gif_signature data
          else False
      | None \<Rightarrow> False)"

definition should_inline_image :: "bool \<Rightarrow> string option \<Rightarrow> bytes option \<Rightarrow> bool" where
  "should_inline_image outgoing content_type data =
     (\<not> outgoing \<and> (case data of Some d \<Rightarrow> inline_image_matches content_type d | None \<Rightarrow> False))"

subsection \<open>The bounded GIF parser\<close>

text \<open>
  An index \<^verbatim>\<open>data[i]\<close> panics out of range: \<open>None\<close> stands for the panic throughout the parser.
\<close>

definition index_byte :: "bytes \<Rightarrow> nat \<Rightarrow> u8 option" where
  "index_byte data i = (if i < length data then Some (data ! i) else None)"

definition gif_u16 :: "bytes \<Rightarrow> usize \<Rightarrow> usize option" where
  "gif_u16 data offset =
     (case checked_add offset 2 of
        None \<Rightarrow> None
      | Some e \<Rightarrow>
          if e \<le> length data then Some (unat (data ! offset) + 256 * unat (data ! (offset + 1))) else None)"

text \<open>The new offset, or \<open>None\<close> for \<^verbatim>\<open>false\<close>, which leaves the offset as it was.\<close>

definition advance_gif_offset :: "usize \<Rightarrow> usize \<Rightarrow> usize \<Rightarrow> usize option" where
  "advance_gif_offset offset amount sz =
     (if sz < offset \<or> sz - offset < amount then None else Some (offset + amount))"

text \<open>The offset after the blocks, or \<open>None\<close> for \<^verbatim>\<open>false\<close>.\<close>

function skip_gif_sub_blocks :: "bytes \<Rightarrow> usize \<Rightarrow> usize option" where
  "skip_gif_sub_blocks data offset =
     (if offset < length data then
        let block_size = unat (data ! offset) in
        if block_size = 0 then Some (offset + 1)
        else
          (case advance_gif_offset (offset + 1) block_size (length data) of
             None \<Rightarrow> None
           | Some next \<Rightarrow> skip_gif_sub_blocks data next)
      else None)"
  by auto
termination
  by (relation "measure (\<lambda>(data, offset). length data - offset)")
     (auto simp: advance_gif_offset_def split: if_splits)

declare skip_gif_sub_blocks.simps [simp del]

definition gif_color_table_size :: "u8 \<Rightarrow> usize" where
  "gif_color_table_size packed = push_bit (unat (and packed 0x07) + 1) 3"

definition has_color_table :: "u8 \<Rightarrow> bool" where
  "has_color_table packed = (and packed 0x80 \<noteq> 0)"

definition skip_color_table :: "bytes \<Rightarrow> u8 \<Rightarrow> usize \<Rightarrow> usize option" where
  "skip_color_table data packed offset =
     (if has_color_table packed
      then advance_gif_offset offset (gif_color_table_size packed) (length data) else Some offset)"

text \<open>
  The image descriptor after its marker: \<open>None\<close> is the panic, \<open>Some None\<close> is \<^verbatim>\<open>return false\<close> and
  \<open>Some (Some next)\<close> the offset after the image; \<open>frames\<close> counts this image already.
\<close>

definition gif_image :: "bytes \<Rightarrow> usize \<Rightarrow> usize \<Rightarrow> usize \<Rightarrow> usize \<Rightarrow> usize \<Rightarrow> usize option option" where
  "gif_image data canvas_width canvas_height canvas_pixels frames offset =
     (if length data < offset \<or> length data - offset < 9 then Some None
      else
        case (gif_u16 data offset, gif_u16 data (offset + 2), gif_u16 data (offset + 4),
              gif_u16 data (offset + 6)) of
          (Some left, Some upper, Some width, Some height) \<Rightarrow>
            (case index_byte data (offset + 8) of
               None \<Rightarrow> None
             | Some image_packed \<Rightarrow>
                 if width = 0 \<or> height = 0 \<or>
                    is_none_or (checked_add left width) (\<lambda>right. canvas_width < right) \<or>
                    is_none_or (checked_add upper height) (\<lambda>bottom. canvas_height < bottom)
                 then Some None
                 else if MAX_INLINE_GIF_PIXEL_FRAMES div canvas_pixels < frames then Some None
                 else
                   (case skip_color_table data image_packed (offset + 9) of
                      None \<Rightarrow> Some None
                    | Some offset1 \<Rightarrow>
                        if length data \<le> offset1 then Some None
                        else
                          (case index_byte data offset1 of
                             None \<Rightarrow> None
                           | Some code_size \<Rightarrow>
                               if \<not> (2 \<le> code_size \<and> code_size \<le> 8) then Some None
                               else Some (skip_gif_sub_blocks data (offset1 + 1)))))
        | _ \<Rightarrow> Some None)"

text \<open>One turn of the main loop: an answer, a panic, or the next offset and frame count.\<close>

datatype gif_step = Gif_Panic | Gif_Return bool | Gif_Next usize usize

definition gif_block :: "bytes \<Rightarrow> usize \<Rightarrow> usize \<Rightarrow> usize \<Rightarrow> usize \<Rightarrow> usize \<Rightarrow> gif_step" where
  "gif_block data canvas_width canvas_height canvas_pixels frames offset =
     (case index_byte data offset of
        None \<Rightarrow> Gif_Panic
      | Some marker \<Rightarrow>
          if marker = 0x3b then Gif_Return (0 < frames)
          else if marker = 0x21 then
            (case advance_gif_offset (offset + 1) 1 (length data) of
               None \<Rightarrow> Gif_Return False
             | Some offset1 \<Rightarrow>
                 (case skip_gif_sub_blocks data offset1 of
                    None \<Rightarrow> Gif_Return False
                  | Some next \<Rightarrow> Gif_Next next frames))
          else if marker = 0x2c then
            (case gif_image data canvas_width canvas_height canvas_pixels (frames + 1) (offset + 1) of
               None \<Rightarrow> Gif_Panic
             | Some None \<Rightarrow> Gif_Return False
             | Some (Some next) \<Rightarrow> Gif_Next next (frames + 1))
          else Gif_Return False)"

lemma skip_gif_sub_blocks_bounds:
  "skip_gif_sub_blocks data offset = Some next \<Longrightarrow> offset < next \<and> next \<le> length data"
proof (induction data offset rule: skip_gif_sub_blocks.induct)
  case (1 data offset)
  then show ?case
    by (subst (asm) (2) skip_gif_sub_blocks.simps)
       (fastforce simp: advance_gif_offset_def Let_def split: if_splits option.splits)
qed

lemma skip_color_table_bounds:
  "skip_color_table data packed offset = Some next \<Longrightarrow> offset \<le> next"
  by (auto simp: skip_color_table_def advance_gif_offset_def split: if_splits)

lemma gif_image_bounds:
  "gif_image data w h p frames offset = Some (Some next) \<Longrightarrow> offset < next \<and> next \<le> length data"
  by (fastforce simp: gif_image_def split: if_splits option.splits
      dest: skip_color_table_bounds skip_gif_sub_blocks_bounds)

lemma gif_block_bounds:
  assumes "gif_block data w h p frames offset = Gif_Next next frames1"
  shows "offset < next" "next \<le> length data"
  using assms
  by (auto simp: gif_block_def advance_gif_offset_def split: if_splits option.splits
      dest!: skip_gif_sub_blocks_bounds gif_image_bounds)

text \<open>The main loop from an offset: \<open>None\<close> for a panic.\<close>

function gif_blocks :: "bytes \<Rightarrow> usize \<Rightarrow> usize \<Rightarrow> usize \<Rightarrow> usize \<Rightarrow> usize \<Rightarrow> bool option" where
  "gif_blocks data canvas_width canvas_height canvas_pixels frames offset =
     (if offset < length data then
        (case gif_block data canvas_width canvas_height canvas_pixels frames offset of
           Gif_Panic \<Rightarrow> None
         | Gif_Return answer \<Rightarrow> Some answer
         | Gif_Next next frames1 \<Rightarrow>
             gif_blocks data canvas_width canvas_height canvas_pixels frames1 next)
      else Some False)"
  by auto
termination
  by (relation "measure (\<lambda>(data, w, h, p, frames, offset). length data - offset)")
     (auto dest: gif_block_bounds)

declare gif_blocks.simps [simp del]

definition bounded_inline_gif :: "bytes \<Rightarrow> bool option" where
  "bounded_inline_gif data =
     (if length data < 13 \<or> MAX_INLINE_MEDIA_BYTES < length data \<or> \<not> gif_signature data then Some False
      else
        case (gif_u16 data 6, gif_u16 data 8) of
          (Some canvas_width, Some canvas_height) \<Rightarrow>
            (case checked_mul canvas_width canvas_height of
               None \<Rightarrow> Some False
             | Some canvas_pixels \<Rightarrow>
                 if canvas_width = 0 \<or> canvas_height = 0 \<or> MAX_INLINE_GIF_EDGE < canvas_width \<or>
                    MAX_INLINE_GIF_EDGE < canvas_height \<or> MAX_INLINE_GIF_PIXELS < canvas_pixels
                 then Some False
                 else
                   (case index_byte data 10 of
                      None \<Rightarrow> None
                    | Some packed \<Rightarrow>
                        (case skip_color_table data packed 13 of
                           None \<Rightarrow> Some False
                         | Some offset \<Rightarrow>
                             gif_blocks data canvas_width canvas_height canvas_pixels 0 offset)))
        | _ \<Rightarrow> Some False)"

subsection \<open>A grammar of GIF streams\<close>

text \<open>
  The reference for the parser: which byte ranges are sub-block chains, and which offsets start a
  well-formed stream of a given number of images inside the canvas.
\<close>

inductive sub_blocks :: "bytes \<Rightarrow> nat \<Rightarrow> nat \<Rightarrow> bool" for data where
  sub_blocks_end: "offset < length data \<Longrightarrow> data ! offset = 0 \<Longrightarrow> sub_blocks data offset (offset + 1)"
| sub_blocks_more: "offset < length data \<Longrightarrow> data ! offset \<noteq> 0 \<Longrightarrow>
    offset + 1 + unat (data ! offset) \<le> length data \<Longrightarrow>
    sub_blocks data (offset + 1 + unat (data ! offset)) fin \<Longrightarrow> sub_blocks data offset fin"

definition le16 :: "bytes \<Rightarrow> nat \<Rightarrow> nat" where
  "le16 data i = unat (data ! i) + 256 * unat (data ! (i + 1))"

definition color_table_end :: "u8 \<Rightarrow> nat \<Rightarrow> nat" where
  "color_table_end packed offset = (if has_color_table packed then offset + gif_color_table_size packed else offset)"

definition image_fits :: "bytes \<Rightarrow> nat \<Rightarrow> nat \<Rightarrow> nat \<Rightarrow> bool" where
  "image_fits data w h i \<longleftrightarrow>
     0 < le16 data (i + 4) \<and> 0 < le16 data (i + 6) \<and>
     le16 data i + le16 data (i + 4) \<le> w \<and> le16 data (i + 2) + le16 data (i + 6) \<le> h"

inductive gif_stream :: "bytes \<Rightarrow> nat \<Rightarrow> nat \<Rightarrow> nat \<Rightarrow> nat \<Rightarrow> bool" for data w h where
  gif_trailer: "offset < length data \<Longrightarrow> data ! offset = 0x3b \<Longrightarrow> gif_stream data w h offset 0"
| gif_extension: "offset + 2 \<le> length data \<Longrightarrow> data ! offset = 0x21 \<Longrightarrow>
    sub_blocks data (offset + 2) next \<Longrightarrow> gif_stream data w h next n \<Longrightarrow> gif_stream data w h offset n"
| gif_picture: "offset + 10 \<le> length data \<Longrightarrow> data ! offset = 0x2c \<Longrightarrow>
    i = offset + 1 \<Longrightarrow> image_fits data w h i \<Longrightarrow>
    table = color_table_end (data ! (i + 8)) (i + 9) \<Longrightarrow>
    table < length data \<Longrightarrow> 2 \<le> data ! table \<Longrightarrow> data ! table \<le> 8 \<Longrightarrow>
    sub_blocks data (table + 1) next \<Longrightarrow> gif_stream data w h next n \<Longrightarrow> gif_stream data w h offset (Suc n)"

inductive_cases sub_blocksE: "sub_blocks data offset fin"
inductive_cases gif_streamE: "gif_stream data w h offset n"

lemma skip_step:
  "skip_gif_sub_blocks data offset =
     (if length data \<le> offset then None
      else if data ! offset = 0 then Some (offset + 1)
      else if offset + 1 + unat (data ! offset) \<le> length data
      then skip_gif_sub_blocks data (offset + 1 + unat (data ! offset)) else None)"
  by (subst skip_gif_sub_blocks.simps) (auto simp: advance_gif_offset_def Let_def unat_eq_0)

lemma skip_sound:
  "n = length data - offset \<Longrightarrow> skip_gif_sub_blocks data offset = Some next \<Longrightarrow> sub_blocks data offset next"
proof (induction n arbitrary: offset rule: less_induct)
  case (less n)
  have off: "offset < length data" using less.prems(2) by (subst (asm) skip_step) (simp split: if_splits)
  show ?case
  proof (cases "data ! offset = 0")
    case True
    with less.prems(2) off have "next = offset + 1" by (subst (asm) skip_step) simp
    with True off show ?thesis by (simp add: sub_blocks_end [simplified])
  next
    case False
    let ?next = "offset + 1 + unat (data ! offset)"
    from False less.prems(2) off have le: "?next \<le> length data"
        and rest: "skip_gif_sub_blocks data ?next = Some next"
      by (subst (asm) skip_step; simp split: if_splits)+
    have "length data - ?next < n" using less.prems(1) off by simp
    from sub_blocks_more [OF off False le less.IH [OF this refl rest]] show ?thesis .
  qed
qed

lemma skip_complete: "sub_blocks data offset next \<Longrightarrow> skip_gif_sub_blocks data offset = Some next"
proof (induction rule: sub_blocks.induct)
  case (sub_blocks_end offset)
  then show ?case by (subst skip_step) simp
next
  case (sub_blocks_more offset fin)
  then show ?case by (subst skip_step) simp
qed

lemma skip_gif_sub_blocks_iff: "skip_gif_sub_blocks data offset = Some next \<longleftrightarrow> sub_blocks data offset next"
  using skip_sound [OF refl] skip_complete by blast

lemma unat_u8_less: "unat (b :: u8) < 256"
  by (rule order_less_le_trans [OF unsigned_less]) simp

lemma le16_less: "le16 data i < 65536"
  using unat_u8_less [of "data ! i"] unat_u8_less [of "data ! (i + 1)"] unfolding le16_def by linarith

lemma gif_u16_le16: "i + 2 \<le> length data \<Longrightarrow> length data < usize_limit \<Longrightarrow> gif_u16 data i = Some (le16 data i)"
  by (simp add: gif_u16_def le16_def checked_add_def)

lemma skip_color_table_eq:
  "skip_color_table data packed offset =
     (if has_color_table packed \<and> length data < color_table_end packed offset then None
      else Some (color_table_end packed offset))"
  by (auto simp: skip_color_table_def color_table_end_def advance_gif_offset_def)

lemma gif_image_not_panic:
  "length data < usize_limit \<Longrightarrow> gif_image data w h p frames offset \<noteq> None"
  by (auto simp: gif_image_def index_byte_def split: option.splits)

lemma le16_fits:
  "is_none_or (checked_add (le16 data i) (le16 data j)) (\<lambda>t. m < t) \<longleftrightarrow> m < le16 data i + le16 data j"
  using le16_less [of data i] le16_less [of data j] by (auto simp: usize_limit_def)

text \<open>The conditions on one image, read off the bytes.\<close>

definition image_ends :: "bytes \<Rightarrow> nat \<Rightarrow> nat \<Rightarrow> nat \<Rightarrow> nat \<Rightarrow> bool" where
  "image_ends data w h i next \<longleftrightarrow>
     image_fits data w h i \<and>
     (let table = color_table_end (data ! (i + 8)) (i + 9)
      in table < length data \<and> 2 \<le> data ! table \<and> data ! table \<le> 8 \<and> sub_blocks data (table + 1) next)"

lemma gif_image_eq:
  assumes len: "length data < usize_limit" and i: "i + 9 \<le> length data"
  defines "table \<equiv> color_table_end (data ! (i + 8)) (i + 9)"
  shows "gif_image data w h p frames i =
    (if image_fits data w h i \<and> frames \<le> MAX_INLINE_GIF_PIXEL_FRAMES div p \<and> table < length data \<and>
        2 \<le> data ! table \<and> data ! table \<le> 8
     then Some (skip_gif_sub_blocks data (table + 1)) else Some None)"
proof -
  have u16: "gif_u16 data (i + k) = Some (le16 data (i + k))" if "k \<le> 6" for k
    using that i len by (intro gif_u16_le16) simp_all
  have u: "gif_u16 data i = Some (le16 data i)" "gif_u16 data (i + 2) = Some (le16 data (i + 2))"
      "gif_u16 data (i + 4) = Some (le16 data (i + 4))" "gif_u16 data (i + 6) = Some (le16 data (i + 6))"
    using u16 [of 0] u16 [of 2] u16 [of 4] u16 [of 6] by simp_all
  have packed: "index_byte data (i + 8) = Some (data ! (i + 8))" using i by (simp add: index_byte_def)
  have room: "(length data < i \<or> length data - i < 9) = False" using i by auto
  have code: "(case skip_color_table data (data ! (i + 8)) (i + 9) of
        None \<Rightarrow> Some None
      | Some offset1 \<Rightarrow>
          if length data \<le> offset1 then Some None
          else (case index_byte data offset1 of
                  None \<Rightarrow> None
                | Some code_size \<Rightarrow>
                    if \<not> (2 \<le> code_size \<and> code_size \<le> 8) then Some None
                    else Some (skip_gif_sub_blocks data (offset1 + 1)))) =
      (if table < length data \<and> 2 \<le> data ! table \<and> data ! table \<le> 8
       then Some (skip_gif_sub_blocks data (table + 1)) else Some None)"
    by (simp add: skip_color_table_eq table_def index_byte_def)
  show ?thesis
    unfolding gif_image_def room u packed image_fits_def option.case prod.case if_False le16_fits code
    by (auto simp: not_less not_le)
qed

lemma gif_image_iff:
  assumes "length data < usize_limit"
  shows "gif_image data w h p frames i = Some (Some next) \<longleftrightarrow>
    i + 9 \<le> length data \<and> frames \<le> MAX_INLINE_GIF_PIXEL_FRAMES div p \<and> image_ends data w h i next"
proof (cases "i + 9 \<le> length data")
  case True
  then show ?thesis
    by (auto simp: gif_image_eq [OF assms] image_ends_def Let_def skip_gif_sub_blocks_iff)
qed (auto simp: gif_image_def)

lemma advance_one:
  "advance_gif_offset (Suc offset) (Suc 0) n = (if Suc (Suc offset) \<le> n then Some (Suc (Suc offset)) else None)"
  by (auto simp: advance_gif_offset_def)

lemma sub_blocks_unique: "sub_blocks data offset a \<Longrightarrow> sub_blocks data offset b \<Longrightarrow> a = b"
  by (simp flip: skip_gif_sub_blocks_iff)

lemma image_ends_unique: "image_ends data w h i a \<Longrightarrow> image_ends data w h i b \<Longrightarrow> a = b"
  by (auto simp: image_ends_def Let_def dest: sub_blocks_unique)

lemma gif_block_next_iff:
  assumes "length data < usize_limit" "offset < length data"
  shows "gif_block data w h p frames offset = Gif_Next next frames1 \<longleftrightarrow>
    (data ! offset = 0x21 \<and> frames1 = frames \<and> offset + 2 \<le> length data \<and>
       sub_blocks data (offset + 2) next) \<or>
    (data ! offset = 0x2c \<and> frames1 = frames + 1 \<and> offset + 10 \<le> length data \<and>
       frames1 \<le> MAX_INLINE_GIF_PIXEL_FRAMES div p \<and> image_ends data w h (offset + 1) next)"
  (is "?l \<longleftrightarrow> ?r")
proof -
  have at: "index_byte data offset = Some (data ! offset)" using assms by (simp add: index_byte_def)
  have picture: "gif_image data w h p (Suc frames) (Suc offset) = Some (Some next) \<longleftrightarrow>
      offset + 10 \<le> length data \<and> Suc frames \<le> MAX_INLINE_GIF_PIXEL_FRAMES div p \<and>
      image_ends data w h (Suc offset) next"
    using gif_image_iff [OF assms(1), of w h p "Suc frames" "Suc offset" "next"] by auto
  consider "data ! offset = 0x21" | "data ! offset = 0x2c"
    | "data ! offset \<noteq> 0x21" "data ! offset \<noteq> 0x2c" by blast
  then show ?thesis
  proof cases
    case 1
    then show ?thesis
      using at by (auto simp: gif_block_def advance_one skip_gif_sub_blocks_iff [symmetric] split: option.split)
  next
    case 2
    then have "?l \<longleftrightarrow> gif_image data w h p (Suc frames) (Suc offset) = Some (Some next) \<and> frames1 = Suc frames"
      using at by (auto simp: gif_block_def split: option.split)
    then show ?thesis using 2 by (auto simp: picture)
  next
    case 3
    then show ?thesis using at by (auto simp: gif_block_def)
  qed
qed

lemma gif_block_return_iff:
  assumes "offset < length data"
  shows "gif_block data w h p frames offset = Gif_Return True \<longleftrightarrow> data ! offset = 0x3b \<and> 0 < frames"
  using assms by (auto simp: gif_block_def index_byte_def split: option.splits)

lemma gif_block_not_panic:
  "length data < usize_limit \<Longrightarrow> offset < length data \<Longrightarrow> gif_block data w h p frames offset \<noteq> Gif_Panic"
  using gif_image_not_panic [of data w h p "frames + 1" "offset + 1"]
  by (auto simp: gif_block_def index_byte_def split: option.splits)

lemma gif_blocks_not_panic:
  "length data < usize_limit \<Longrightarrow> gif_blocks data w h p frames offset \<noteq> None"
proof (induction data w h p frames offset rule: gif_blocks.induct)
  case (1 data w h p frames offset)
  then show ?case
    using gif_block_not_panic [of data offset w h p frames]
    by (subst gif_blocks.simps) (auto split: gif_step.split)
qed

lemma gif_stream_iff:
  "gif_stream data w h offset n \<longleftrightarrow>
     (offset < length data \<and> data ! offset = 0x3b \<and> n = 0) \<or>
     (\<exists>next. offset + 2 \<le> length data \<and> data ! offset = 0x21 \<and> sub_blocks data (offset + 2) next \<and>
        gif_stream data w h next n) \<or>
     (\<exists>next m. offset + 10 \<le> length data \<and> data ! offset = 0x2c \<and> image_ends data w h (offset + 1) next \<and>
        n = Suc m \<and> gif_stream data w h next m)"
  by (subst gif_stream.simps) (auto simp: image_ends_def Let_def)

text \<open>The loop from an offset accepts exactly the well-formed streams within the frame budget.\<close>

lemma gif_blocks_iff:
  "length data < usize_limit \<Longrightarrow>
   gif_blocks data w h p frames offset = Some True \<longleftrightarrow>
     (\<exists>n. gif_stream data w h offset n \<and> 0 < frames + n \<and>
        (n = 0 \<or> frames + n \<le> MAX_INLINE_GIF_PIXEL_FRAMES div p))"
proof (induction data w h p frames offset rule: gif_blocks.induct)
  case (1 data w h p frames offset)
  note IH = "1.IH" and len = "1.prems"
  let ?F = "MAX_INLINE_GIF_PIXEL_FRAMES div p"
  show ?case
  proof (cases "offset < length data")
    case False
    then show ?thesis
      by (subst gif_blocks.simps, subst gif_stream_iff) auto
  next
    case True
    show ?thesis
    proof (cases "gif_block data w h p frames offset")
      case Gif_Panic
      then show ?thesis using gif_block_not_panic [OF len True] by blast
    next
      case (Gif_Return b)
      then have none: "gif_block data w h p frames offset \<noteq> Gif_Next next f" for "next" f by simp
      have "b \<longleftrightarrow> data ! offset = 0x3b \<and> 0 < frames"
        using gif_block_return_iff [OF True, of w h p frames] Gif_Return by simp
      moreover have "gif_blocks data w h p frames offset = Some b"
        using True Gif_Return by (subst gif_blocks.simps) simp
      moreover have "\<not> (data ! offset = 0x21 \<and> offset + 2 \<le> length data \<and> sub_blocks data (offset + 2) nx)" for nx
        using none [of nx frames, unfolded gif_block_next_iff [OF len True]] by blast
      moreover have "\<not> (data ! offset = 0x2c \<and> offset + 10 \<le> length data \<and> frames + Suc m \<le> ?F \<and>
          image_ends data w h (offset + 1) nx)" for nx m
        using none [of nx "frames + 1", unfolded gif_block_next_iff [OF len True]] by auto
      ultimately show ?thesis using True by (subst gif_stream_iff) auto
    next
      case (Gif_Next nx frames1)
      have loop: "gif_blocks data w h p frames offset = gif_blocks data w h p frames1 nx"
        using True Gif_Next by (subst gif_blocks.simps) simp
      note nx = Gif_Next [unfolded gif_block_next_iff [OF len True]]
      show ?thesis unfolding loop IH [OF True Gif_Next len]
      proof (cases "data ! offset = 0x21")
        case True
        with nx have "frames1 = frames" "sub_blocks data (offset + 2) nx" "offset + 2 \<le> length data" by auto
        then have "gif_stream data w h offset n \<longleftrightarrow> gif_stream data w h nx n" for n
          using True by (subst gif_stream_iff) (auto dest: sub_blocks_unique)
        then show "(\<exists>n. gif_stream data w h nx n \<and> 0 < frames1 + n \<and> (n = 0 \<or> frames1 + n \<le> ?F)) \<longleftrightarrow>
            (\<exists>n. gif_stream data w h offset n \<and> 0 < frames + n \<and> (n = 0 \<or> frames + n \<le> ?F))"
          using \<open>frames1 = frames\<close> by simp
      next
        case False
        with nx have b: "data ! offset = 0x2c" "frames1 = Suc frames" "offset + 10 \<le> length data"
            "image_ends data w h (offset + 1) nx" "Suc frames \<le> ?F" by auto
        then have "gif_stream data w h offset n \<longleftrightarrow> (\<exists>m. n = Suc m \<and> gif_stream data w h nx m)" for n
          by (subst gif_stream_iff) (auto dest: image_ends_unique)
        then show "(\<exists>n. gif_stream data w h nx n \<and> 0 < frames1 + n \<and> (n = 0 \<or> frames1 + n \<le> ?F)) \<longleftrightarrow>
            (\<exists>n. gif_stream data w h offset n \<and> 0 < frames + n \<and> (n = 0 \<or> frames + n \<le> ?F))"
          using b by auto
      qed
    qed
  qed
qed

lemma media_limit_small: "n \<le> MAX_INLINE_MEDIA_BYTES \<Longrightarrow> n < usize_limit"
  by (simp add: MAX_INLINE_MEDIA_BYTES_def usize_limit_def)

lemma checked_mul_le16: "checked_mul (le16 data i) (le16 data j) = Some (le16 data i * le16 data j)"
proof -
  have "le16 data i * le16 data j \<le> 65536 * 65536"
    using le16_less [of data i] le16_less [of data j] by (intro mult_le_mono) simp_all
  then show ?thesis by (simp add: checked_mul_def usize_limit_def)
qed

lemma gif_stream_offset: "gif_stream data w h offset n \<Longrightarrow> offset < length data"
  by (auto elim: gif_streamE)

definition gif_header_ok :: "bytes \<Rightarrow> bool" where
  "gif_header_ok data \<longleftrightarrow>
     13 \<le> length data \<and> length data \<le> MAX_INLINE_MEDIA_BYTES \<and> gif_signature data \<and>
     0 < le16 data 6 \<and> le16 data 6 \<le> MAX_INLINE_GIF_EDGE \<and>
     0 < le16 data 8 \<and> le16 data 8 \<le> MAX_INLINE_GIF_EDGE \<and>
     le16 data 6 * le16 data 8 \<le> MAX_INLINE_GIF_PIXELS"

lemma bounded_inline_gif_eq:
  "bounded_inline_gif data =
     (if gif_header_ok data then
        (if has_color_table (data ! 10) \<and> length data < color_table_end (data ! 10) 13 then Some False
         else gif_blocks data (le16 data 6) (le16 data 8) (le16 data 6 * le16 data 8) 0
                (color_table_end (data ! 10) 13))
      else Some False)"
proof (cases "13 \<le> length data \<and> length data \<le> MAX_INLINE_MEDIA_BYTES \<and> gif_signature data")
  case True
  then have "gif_u16 data 6 = Some (le16 data 6)" "gif_u16 data 8 = Some (le16 data 8)"
    using media_limit_small [of "length data"] by (auto intro!: gif_u16_le16)
  moreover have "index_byte data 10 = Some (data ! 10)" using True by (simp add: index_byte_def)
  moreover have "\<not> (length data < 13 \<or> MAX_INLINE_MEDIA_BYTES < length data \<or> \<not> gif_signature data)"
    using True by auto
  ultimately show ?thesis
    unfolding bounded_inline_gif_def gif_header_ok_def
    by (auto simp: checked_mul_le16 skip_color_table_eq not_less not_le)
qed (auto simp: bounded_inline_gif_def gif_header_ok_def)

text \<open>
  C34. The GIF parser never reads out of bounds and decides exactly the reference grammar: it
  accepts a byte string if and only if the header is valid and within the edge and pixel limits, and a
  well-formed stream of at least one image inside the canvas follows whose frames times canvas pixels stay within the budget.
\<close>

theorem bounded_inline_gif_decides:
  "bounded_inline_gif data \<noteq> None \<and>
   (bounded_inline_gif data = Some True \<longleftrightarrow>
      gif_header_ok data \<and>
      (\<exists>n. gif_stream data (le16 data 6) (le16 data 8) (color_table_end (data ! 10) 13) n \<and> 0 < n \<and>
           n * (le16 data 6 * le16 data 8) \<le> MAX_INLINE_GIF_PIXEL_FRAMES))"
proof (cases "gif_header_ok data")
  case True
  then have len: "length data < usize_limit" by (simp add: gif_header_ok_def media_limit_small)
  let ?p = "le16 data 6 * le16 data 8"
  have "0 < ?p" using True by (simp add: gif_header_ok_def)
  then have "n \<le> MAX_INLINE_GIF_PIXEL_FRAMES div ?p \<longleftrightarrow> n * ?p \<le> MAX_INLINE_GIF_PIXEL_FRAMES" for n
    by (rule less_eq_div_iff_mult_less_eq)
  then show ?thesis
    using True gif_blocks_iff [OF len, of "le16 data 6" "le16 data 8" ?p 0 "color_table_end (data ! 10) 13"]
      gif_blocks_not_panic [OF len, of "le16 data 6" "le16 data 8" ?p 0 "color_table_end (data ! 10) 13"]
    by (auto simp: bounded_inline_gif_eq dest: gif_stream_offset)
qed (simp add: bounded_inline_gif_eq)

end
