(* ===== verification/Media_Files.thy ===== *)
theory Media_Files
  imports Media
begin

section \<open>Downloaded attachments, the transcoder and avatars (backend/media.rs)\<close>

text \<open>
  What becomes of a downloaded attachment: whether it is one of Signal's GIF videos, the name
  and type it is shown with, its replacement by the transcoder's output, and the cache of prepared avatars. The child process, the
  file system and the image library are arguments.
\<close>

subsection \<open>Signal GIF videos and their names\<close>

definition be32 :: "bytes \<Rightarrow> nat" where
  "be32 d = ((unat (d ! 0) * 256 + unat (d ! 1)) * 256 + unat (d ! 2)) * 256 + unat (d ! 3)"

definition mp4_file_type_box_matches :: "bytes \<Rightarrow> bool" where
  "mp4_file_type_box_matches data =
     (if length data < 16 \<or> take 4 (drop 4 data) \<noteq> ascii_bytes ''ftyp'' then False
      else let box_size = be32 data in 16 \<le> box_size \<and> box_size \<le> length data)"

definition has_gif_flag :: "externals \<Rightarrow> attachment_pointer \<Rightarrow> bool" where
  "has_gif_flag x a = (and (case ap_flags a of Some f \<Rightarrow> f | None \<Rightarrow> 0) (x_gif_flag x) \<noteq> 0)"

definition content_type_is :: "attachment_pointer \<Rightarrow> string \<Rightarrow> bool" where
  "content_type_is a t =
     (case ap_content_type a of Some c \<Rightarrow> eq_ignore_ascii_case c t | None \<Rightarrow> False)"

definition signal_gif_video_matches :: "externals \<Rightarrow> attachment_pointer \<Rightarrow> bytes \<Rightarrow> bool" where
  "signal_gif_video_matches x a data =
     (length data \<le> MAX_INLINE_MEDIA_BYTES \<and> content_type_is a ''video/mp4'' \<and> has_gif_flag x a \<and>
      mp4_file_type_box_matches data)"

text \<open>\<^verbatim>\<open>rsplit(['/', '\\']).next()\<close>: what follows the last separator.\<close>

definition is_separator :: "char \<Rightarrow> bool" where
  "is_separator c = (c = CHR ''/'' \<or> c = CHR 0x5C)"

definition base_name :: "string \<Rightarrow> string" where
  "base_name s = rev (takeWhile (\<lambda>c. \<not> is_separator c) (rev s))"

text \<open>\<^verbatim>\<open>rsplit_once('.')\<close>: what precedes and follows the last dot.\<close>

definition rsplit_dot :: "string \<Rightarrow> (string \<times> string) option" where
  "rsplit_dot s =
     (if CHR ''.'' \<in> set s
      then Some (rev (tl (dropWhile (\<lambda>c. c \<noteq> CHR ''.'') (rev s))), rev (takeWhile (\<lambda>c. c \<noteq> CHR ''.'') (rev s)))
      else None)"

definition signal_gif_inline_filename :: "attachment_pointer \<Rightarrow> string" where
  "signal_gif_inline_filename a =
     (case non_empty (ap_file_name a) of
        None \<Rightarrow> ''signal-animation.gif''
      | Some filename \<Rightarrow>
          let basename = base_name filename in
          if basename = [] \<or> basename = ''.'' \<or> basename = ''..'' then ''signal-animation.gif''
          else
            let stem = (case rsplit_dot basename of
                          Some (stem, _) \<Rightarrow> if stem = [] then basename else stem
                        | None \<Rightarrow> basename)
            in stem @ ''.gif'')"

definition attachment_display_name :: "externals \<Rightarrow> attachment_pointer \<Rightarrow> string" where
  "attachment_display_name x a =
     (case non_empty (ap_file_name a) of
        Some file_name \<Rightarrow> file_name
      | None \<Rightarrow>
          if has_gif_flag x a then
            (if content_type_is a ''image/gif'' then ''signal-animation.gif''
             else if content_type_is a ''video/mp4'' then ''signal-animation.mp4''
             else ''signal-animation'')
          else if content_type_is a ''image/jpeg'' then ''signal-image.jpg''
          else if content_type_is a ''image/png'' then ''signal-image.png''
          else if content_type_is a ''image/gif'' then ''signal-animation.gif''
          else if content_type_is a ''video/mp4'' then ''signal-video.mp4''
          else ''signal-attachment'')"

record downloaded_attachment =
  da_attachment_index :: usize
  da_filename :: string
  da_content_type :: "string option"
  da_data :: bytes
  da_signal_gif_filename :: "string option"

definition downloaded_new :: "externals \<Rightarrow> usize \<Rightarrow> attachment_pointer \<Rightarrow> bytes \<Rightarrow> downloaded_attachment" where
  "downloaded_new x i a data =
     \<lparr>da_attachment_index = i, da_filename = attachment_display_name x a,
      da_content_type = ap_content_type a, da_data = data,
      da_signal_gif_filename =
        (if signal_gif_video_matches x a data then Some (signal_gif_inline_filename a) else None)\<rparr>"

definition apply_signal_gif :: "bytes \<Rightarrow> downloaded_attachment \<Rightarrow> bool \<times> downloaded_attachment" where
  "apply_signal_gif gif d =
     (case da_signal_gif_filename d of
        None \<Rightarrow> (False, d)
      | Some filename \<Rightarrow>
          if bounded_inline_gif gif \<noteq> Some True then (False, d)
          else (True, d\<lparr>da_filename := filename, da_signal_gif_filename := None,
                        da_content_type := Some ''image/gif'', da_data := gif\<rparr>))"

subsection \<open>The transcoder\<close>

text \<open>
  The reads of the child's output: chunks of at most 64 KiB, an error as \<open>None\<close>, and the end of
  the list as the end of the stream.
\<close>

fun read_transcode_output :: "bytes \<Rightarrow> bytes option list \<Rightarrow> bytes option" where
  "read_transcode_output collected [] = Some collected"
| "read_transcode_output collected (None # rs) = None"
| "read_transcode_output collected (Some chunk # rs) =
     (if chunk = [] then Some collected
      else if MAX_INLINE_MEDIA_BYTES - length collected < length chunk then None
      else read_transcode_output (collected @ chunk) rs)"

definition SIGNAL_GIF_TRANSCODE_POLL_INTERVAL_MS :: nat where
  "SIGNAL_GIF_TRANSCODE_POLL_INTERVAL_MS = 20"

definition SIGNAL_GIF_TRANSCODE_TIMEOUT_MS :: nat where
  "SIGNAL_GIF_TRANSCODE_TIMEOUT_MS = 15000"

definition SIGNAL_GIF_FFMPEG :: string where
  "SIGNAL_GIF_FFMPEG = ''/usr/bin/ffmpeg''"

definition SIGNAL_GIF_PRLIMIT :: string where
  "SIGNAL_GIF_PRLIMIT = ''/usr/bin/prlimit''"

definition SIGNAL_GIF_ADDRESS_SPACE_LIMIT :: string where
  "SIGNAL_GIF_ADDRESS_SPACE_LIMIT = ''--as=1073741824:1073741824''"

definition path_join :: "string \<Rightarrow> string \<Rightarrow> string" where
  "path_join dir name =
     (if dir = [] \<or> last dir = CHR ''/'' then dir @ name else dir @ ''/'' @ name)"

definition resolve_binary :: "string list option \<Rightarrow> (string \<Rightarrow> bool) \<Rightarrow> string \<Rightarrow> string \<Rightarrow> string option" where
  "resolve_binary path_var is_file name default_path =
     (case find is_file (map (\<lambda>dir. path_join dir name) (case path_var of Some dirs \<Rightarrow> dirs | None \<Rightarrow> [])) of
        Some candidate \<Rightarrow> Some candidate
      | None \<Rightarrow> if is_file default_path then Some default_path else None)"

definition ffmpeg_args :: "string list" where
  "ffmpeg_args =
     [''-nostdin'', ''-hide_banner'', ''-loglevel'', ''error'', ''-max_alloc'', ''134217728'',
      ''-threads'', ''1'', ''-filter_threads'', ''1'', ''-filter_complex_threads'', ''1'',
      ''-protocol_whitelist'', ''pipe'', ''-probesize'', ''8388608'', ''-analyzeduration'', ''5000000'',
      ''-i'', ''pipe:0'', ''-map'', ''0:v:0'', ''-map_metadata'', ''-1'', ''-map_chapters'', ''-1'',
      ''-an'', ''-sn'', ''-dn'', ''-vf'',
      ''scale=w='min(480,iw)':h='min(480,ih)':force_original_aspect_ratio=decrease:flags=lanczos'',
      ''-fpsmax'', ''15'', ''-threads'', ''1'', ''-loop'', ''0'', ''-f'', ''gif'', ''pipe:1'']"

definition transcode_command :: "string \<Rightarrow> string option \<Rightarrow> string list" where
  "transcode_command ffmpeg_path prlimit_path =
     (case prlimit_path of
        Some prlimit \<Rightarrow>
          prlimit # [SIGNAL_GIF_ADDRESS_SPACE_LIMIT, ''--cpu=10:12'', ''--nofile=64:64'', ''--'', ffmpeg_path]
            @ ffmpeg_args
      | None \<Rightarrow> ffmpeg_path # ffmpeg_args)"

text \<open>One \<^verbatim>\<open>try_wait\<close>: the child exited (successfully or not), still runs after so many milliseconds, or the call failed.\<close>

datatype child_wait = Child_Exited bool | Child_Running nat | Child_Wait_Error

text \<open>
  The polling loop over its successive results: \<open>None\<close> while it has not ended, \<open>Some None\<close> when the
  child was stopped.
\<close>

fun transcode_status :: "child_wait list \<Rightarrow> bool option option" where
  "transcode_status [] = None"
| "transcode_status (Child_Exited success # ws) = Some (Some success)"
| "transcode_status (Child_Running elapsed # ws) =
     (if elapsed < SIGNAL_GIF_TRANSCODE_TIMEOUT_MS then transcode_status ws else Some None)"
| "transcode_status (Child_Wait_Error # ws) = Some None"

text \<open>What the environment gives a run: the lock, the binaries, and the child's behaviour for a command and an input.\<close>

record child_run =
  cr_spawned :: bool
  cr_pipes :: bool
  cr_writer_thread :: bool
  cr_reader_thread :: bool
  cr_waits :: "child_wait list"
  cr_input_complete :: bool
  cr_output :: "bytes option list"

record transcode_env =
  te_lock_free :: bool
  te_path :: "string list option"
  te_is_file :: "string \<Rightarrow> bool"
  te_utf8 :: "string \<Rightarrow> bool"
  te_child :: "string list \<Rightarrow> bytes \<Rightarrow> child_run"

text \<open>The outer option is \<open>None\<close> while the polling loop has not ended.\<close>

definition transcode_signal_gif_video_blocking :: "transcode_env \<Rightarrow> bytes \<Rightarrow> bytes option option" where
  "transcode_signal_gif_video_blocking env input =
     (if \<not> te_lock_free env then Some None
      else
        case resolve_binary (te_path env) (te_is_file env) ''ffmpeg'' SIGNAL_GIF_FFMPEG of
          None \<Rightarrow> Some None
        | Some ffmpeg_path \<Rightarrow>
            let prlimit_path = resolve_binary (te_path env) (te_is_file env) ''prlimit'' SIGNAL_GIF_PRLIMIT
            in if prlimit_path \<noteq> None \<and> \<not> te_utf8 env ffmpeg_path then Some None
               else
                 let run = te_child env (transcode_command ffmpeg_path prlimit_path) input
                 in if \<not> cr_spawned run \<or> \<not> cr_pipes run \<or> \<not> cr_writer_thread run \<or> \<not> cr_reader_thread run
                    then Some None
                    else
                      map_option (\<lambda>status.
                        if \<not> cr_input_complete run \<or> status \<noteq> Some True then None
                        else
                          (case read_transcode_output [] (cr_output run) of
                             Some output \<Rightarrow> if bounded_inline_gif output = Some True then Some output else None
                           | None \<Rightarrow> None))
                        (transcode_status (cr_waits run)))"

text \<open>The transcoded output as its callers use it; a loop that has not ended gives nothing.\<close>

definition transcode_signal_gif_video :: "transcode_env \<Rightarrow> bytes \<Rightarrow> bytes option" where
  "transcode_signal_gif_video env input =
     (case transcode_signal_gif_video_blocking env input of Some r \<Rightarrow> r | None \<Rightarrow> None)"

subsection \<open>Avatars\<close>

definition MAX_AVATAR_DIMENSION :: u32 where
  "MAX_AVATAR_DIMENSION = 192"

definition AVATAR_JPEG_QUALITY :: u8 where
  "AVATAR_JPEG_QUALITY = 85"

datatype image_format = Format_Png | Format_Other

record 'img image_library =
  im_guess :: "bytes \<Rightarrow> string + image_format option"
  im_dimensions :: "bytes \<Rightarrow> (u32 \<times> u32) option"
  im_load :: "bytes \<Rightarrow> string + 'img"
  im_thumbnail :: "u32 \<Rightarrow> u32 \<Rightarrow> 'img \<Rightarrow> 'img"
  im_has_alpha :: "'img \<Rightarrow> bool"
  im_write_png :: "'img \<Rightarrow> string + bytes"
  im_encode_jpeg :: "u8 \<Rightarrow> 'img \<Rightarrow> string + bytes"

definition downscale_avatar :: "'img image_library \<Rightarrow> bytes \<Rightarrow> bytes rresult" where
  "downscale_avatar im raw_data =
     (case im_guess im raw_data of
        Inl e \<Rightarrow> Inl (''unrecognized image format: '' @ e)
      | Inr format \<Rightarrow>
          if (case im_dimensions im raw_data of
                Some (w, h) \<Rightarrow> w \<le> MAX_AVATAR_DIMENSION \<and> h \<le> MAX_AVATAR_DIMENSION
              | None \<Rightarrow> False)
          then Inr raw_data
          else
            case im_load im raw_data of
              Inl e \<Rightarrow> Inl (''image decode error: '' @ e)
            | Inr dynamic_img \<Rightarrow>
                let resized = im_thumbnail im MAX_AVATAR_DIMENSION MAX_AVATAR_DIMENSION dynamic_img
                in if format = Some Format_Png \<or> im_has_alpha im resized
                   then (case im_write_png im resized of
                           Inl e \<Rightarrow> Inl (''png encode error: '' @ e) | Inr output \<Rightarrow> Inr output)
                   else (case im_encode_jpeg im AVATAR_JPEG_QUALITY resized of
                           Inl e \<Rightarrow> Inl (''jpeg encode error: '' @ e) | Inr output \<Rightarrow> Inr output))"

text \<open>
  The cache: whether it has a directory, the memory map, and the files of the directory by name.
  The outcomes of the file operations of one call are an argument.
\<close>

record avatar_cache =
  av_cache_dir :: bool
  av_mem_cache :: "bytes \<rightharpoonup> (bytes \<times> string)"
  av_disk :: "string \<rightharpoonup> bytes"

record file_outcomes =
  fo_read_ok :: bool
  fo_write_ok :: bool
  fo_rename_ok :: bool
  fo_process_id :: nat

definition persist_avatar :: "file_outcomes \<Rightarrow> string \<Rightarrow> bytes \<Rightarrow> avatar_cache \<Rightarrow> avatar_cache" where
  "persist_avatar fo raw_hash_hex data c =
     (if av_cache_dir c \<and> fo_write_ok fo then
        if fo_rename_ok fo then c\<lparr>av_disk := (av_disk c)(raw_hash_hex \<mapsto> data)\<rparr>
        else c\<lparr>av_disk := (av_disk c)(raw_hash_hex @ ''.tmp.'' @ decimal_digits (fo_process_id fo) \<mapsto> data)\<rparr>
      else c)"

definition prepare_avatar ::
  "externals \<Rightarrow> 'img image_library \<Rightarrow> file_outcomes \<Rightarrow> bytes \<Rightarrow> avatar_cache \<Rightarrow> (bytes \<times> string) \<times> avatar_cache"
where
  "prepare_avatar x im fo raw_data c =
     (if raw_data = [] then ((raw_data, []), c)
      else
        let raw_hash = x_sha256 x raw_data
        in case av_mem_cache c raw_hash of
             Some hit \<Rightarrow> (hit, c)
           | None \<Rightarrow>
               let raw_hash_hex = hex_encode raw_hash
               in case (if av_cache_dir c \<and> fo_read_ok fo then av_disk c raw_hash_hex else None) of
                    Some disk_bytes \<Rightarrow>
                      let checksum = hex_encode (x_sha256 x disk_bytes)
                      in ((disk_bytes, checksum),
                          c\<lparr>av_mem_cache := (av_mem_cache c)(raw_hash \<mapsto> (disk_bytes, checksum))\<rparr>)
                  | None \<Rightarrow>
                      let downscaled = (case downscale_avatar im raw_data of Inr p \<Rightarrow> p | Inl _ \<Rightarrow> [])
                      in if downscaled = [] then (([], []), c)
                         else
                           let checksum = hex_encode (x_sha256 x downscaled);
                               c1 = persist_avatar fo raw_hash_hex downscaled c
                           in ((downscaled, checksum),
                               c1\<lparr>av_mem_cache := (av_mem_cache c1)(raw_hash \<mapsto> (downscaled, checksum))\<rparr>))"

subsection \<open>Lemmas\<close>

lemma base_name_no_separator: "c \<in> set (base_name s) \<Longrightarrow> \<not> is_separator c"
  by (auto simp: base_name_def dest: set_takeWhileD)

lemma set_tl_subset: "set (tl xs) \<subseteq> set xs"
  by (cases xs) auto

lemma rsplit_dot_subset: "rsplit_dot s = Some (stem, ext) \<Longrightarrow> set stem \<subseteq> set s"
proof -
  assume "rsplit_dot s = Some (stem, ext)"
  then have "stem = rev (tl (dropWhile (\<lambda>c. c \<noteq> CHR ''.'') (rev s)))"
    by (simp add: rsplit_dot_def split: if_splits)
  then have "set stem \<subseteq> set (dropWhile (\<lambda>c. c \<noteq> CHR ''.'') (rev s))"
    using set_tl_subset by simp
  then show ?thesis using set_dropWhileD by fastforce
qed

definition stem_of :: "string \<Rightarrow> string" where
  "stem_of b = (case rsplit_dot b of Some (stem, _) \<Rightarrow> if stem = [] then b else stem | None \<Rightarrow> b)"

lemma stem_of_subset: "b \<noteq> [] \<Longrightarrow> set (stem_of b) \<subseteq> set b \<and> stem_of b \<noteq> []"
proof (cases "rsplit_dot b")
  case (Some p)
  assume "b \<noteq> []"
  with Some rsplit_dot_subset [of b "fst p" "snd p"] show ?thesis
    by (cases "fst p = []") (simp_all add: stem_of_def case_prod_beta)
qed (simp add: stem_of_def)

text \<open>The stem taken from the sender's name, \<open>None\<close> where the default name is used.\<close>

definition inline_stem :: "attachment_pointer \<Rightarrow> string option" where
  "inline_stem a =
     (case non_empty (ap_file_name a) of
        None \<Rightarrow> None
      | Some filename \<Rightarrow>
          let b = base_name filename
          in if b = [] \<or> b = ''.'' \<or> b = ''..'' then None else Some (stem_of b))"

lemma inline_filename_stem:
  "signal_gif_inline_filename a =
     (case inline_stem a of None \<Rightarrow> ''signal-animation.gif'' | Some stem \<Rightarrow> stem @ ''.gif'')"
  by (cases "non_empty (ap_file_name a)")
     (simp_all add: signal_gif_inline_filename_def inline_stem_def stem_of_def Let_def)

lemma inline_stem_safe:
  assumes "inline_stem a = Some stem"
  shows "list_all (\<lambda>c. \<not> is_separator c) stem" "stem \<noteq> []"
proof -
  obtain filename where filename: "non_empty (ap_file_name a) = Some filename"
    using assms by (cases "non_empty (ap_file_name a)") (simp_all add: inline_stem_def)
  then have "base_name filename \<noteq> []" and stem: "stem = stem_of (base_name filename)"
    using assms by (simp_all add: inline_stem_def Let_def split: if_splits)
  note sub = stem_of_subset [OF this(1), folded stem]
  then show "list_all (\<lambda>c. \<not> is_separator c) stem"
    using base_name_no_separator [of _ filename] unfolding list_all_iff by blast
  show "stem \<noteq> []" using sub by blast
qed

lemma read_transcode_output_bound:
  "length collected \<le> MAX_INLINE_MEDIA_BYTES \<Longrightarrow> read_transcode_output collected rs = Some out \<Longrightarrow>
     length out \<le> MAX_INLINE_MEDIA_BYTES"
  by (induction collected rs rule: read_transcode_output.induct) (auto split: if_splits)

definition polls_timed :: "nat \<Rightarrow> child_wait list \<Rightarrow> bool" where
  "polls_timed k ws \<longleftrightarrow>
     (\<forall>i < length ws. \<forall>t. ws ! i = Child_Running t \<longrightarrow> SIGNAL_GIF_TRANSCODE_POLL_INTERVAL_MS * (k + i) \<le> t)"

lemma polls_timed_Cons: "polls_timed k (w # ws) \<Longrightarrow> polls_timed (Suc k) ws"
  by (fastforce simp: polls_timed_def)

lemma transcode_status_ends:
  "polls_timed k ws \<Longrightarrow> 750 < k + length ws \<Longrightarrow> ws \<noteq> [] \<Longrightarrow> transcode_status ws \<noteq> None"
proof (induction ws arbitrary: k)
  case (Cons w ws)
  show ?case
  proof (cases w)
    case (Child_Running t)
    have t: "20 * k \<le> t"
      using Cons.prems(1) Child_Running
      by (auto simp: polls_timed_def SIGNAL_GIF_TRANSCODE_POLL_INTERVAL_MS_def)
    show ?thesis
    proof (cases "t < SIGNAL_GIF_TRANSCODE_TIMEOUT_MS")
      case True
      then have "k < 750" using t by (simp add: SIGNAL_GIF_TRANSCODE_TIMEOUT_MS_def)
      then have "ws \<noteq> []" using Cons.prems(2) by auto
      then show ?thesis
        using Cons.IH [OF polls_timed_Cons [OF Cons.prems(1)]] Cons.prems(2) Child_Running by simp
    qed (simp add: Child_Running)
  qed simp_all
qed simp

definition avatar_cache_inv :: "externals \<Rightarrow> avatar_cache \<Rightarrow> bool" where
  "avatar_cache_inv x c \<longleftrightarrow>
     (\<forall>h d s. av_mem_cache c h = Some (d, s) \<longrightarrow> s = hex_encode (x_sha256 x d))"

lemma persist_avatar_mem [simp]: "av_mem_cache (persist_avatar fo h d c) = av_mem_cache c"
  by (simp add: persist_avatar_def)

subsection \<open>Properties\<close>

text \<open>
  The file name given to an inlined animation never escapes its directory: whatever name
  the sender chose, it contains no slash and no backslash, ends in \<^verbatim>\<open>.gif\<close> and has a stem before that ending.
\<close>

lemma inline_filename_safe:
  "list_all (\<lambda>c. \<not> is_separator c) (signal_gif_inline_filename a) \<and>
   (\<exists>stem. stem \<noteq> [] \<and> signal_gif_inline_filename a = stem @ ''.gif'')"
proof (cases "inline_stem a")
  case None
  then have "signal_gif_inline_filename a = ''signal-animation'' @ ''.gif''"
    by (simp add: inline_filename_stem)
  then show ?thesis by (intro conjI exI [of _ "''signal-animation''"]) (simp_all add: is_separator_def)
next
  case (Some stem)
  then have "signal_gif_inline_filename a = stem @ ''.gif''" by (simp add: inline_filename_stem)
  then show ?thesis
    using inline_stem_safe [OF Some] by (intro conjI exI [of _ stem]) (simp_all add: is_separator_def)
qed

text \<open>
  Waiting for the transcoder ends: when successive polls are at least the poll interval
  apart, 751 polls suffice for the loop to end, because by then the child has exited, the call has failed, or the time limit
  has passed and the child is stopped.
\<close>

lemma transcode_polling_ends:
  assumes "polls_timed 0 ws" and "750 < length ws"
  shows "\<exists>status. transcode_status ws = Some status"
  using transcode_status_ends [of 0 ws] assms by (cases ws) auto

text \<open>
  Avatars are cached soundly: every answer is empty or carries the checksum of exactly the bytes
  returned, whatever the memory and disk caches held and however the file operations ended; the cache keeps
  that invariant; and once an avatar has been prepared, asking again for the same image gives the same bytes and
  checksum from memory without touching disk or the image library.
\<close>

lemma prepare_avatar_sound:
  assumes "avatar_cache_inv x c" and "prepare_avatar x im fo raw c = ((d, s), c1)"
  shows "((d = [] \<and> s = []) \<or> s = hex_encode (x_sha256 x d)) \<and> avatar_cache_inv x c1 \<and>
    (s \<noteq> [] \<longrightarrow> prepare_avatar x im2 fo2 raw c1 = ((d, s), c1))"
proof (cases "raw = []")
  case True
  then show ?thesis using assms by (simp add: prepare_avatar_def)
next
  case False
  let ?h = "x_sha256 x raw"
  have stored: "prepare_avatar x im2 fo2 raw c1 = ((d, s), c1)" if "av_mem_cache c1 ?h = Some (d, s)"
    using that False by (simp add: prepare_avatar_def Let_def)
  show ?thesis
  proof (cases "av_mem_cache c ?h")
    case (Some hit)
    then have "(d, s) = hit" "c1 = c" using assms(2) False by (simp_all add: prepare_avatar_def Let_def)
    then show ?thesis using assms(1) Some stored by (auto simp: avatar_cache_inv_def)
  next
    case None
    then consider "d = []" "s = []" "c1 = c"
      | "s = hex_encode (x_sha256 x d)" "av_mem_cache c1 = (av_mem_cache c)(?h \<mapsto> (d, s))"
      using assms(2) False
      by (fastforce simp: prepare_avatar_def Let_def split: option.splits if_splits)
    then show ?thesis using assms(1) stored by cases (auto simp: avatar_cache_inv_def)
  qed
qed

end
