(* ===== verification/Incoming.thy ===== *)
theory Incoming
  imports Backend Message_Projection Media_Files
begin

section \<open>Incoming content (backend/coordinator.rs)\<close>

text \<open>
  What the backend does with one decrypted message: \<^verbatim>\<open>handle_content\<close> routes it and \<^verbatim>\<open>emit_data_message\<close>
  downloads its attachments and emits the events the plugin shows. The environments of the transcoder runs and the
  departure state that the second membership test finds are arguments. The properties concern what the plugin sees: exactly one event
  carries the delivery id and it is the last one, nothing of a group the account has left is shown, and the data of every event is bounded.
\<close>

definition MAX_ATTACHMENT_SIZE_BYTES :: usize where
  "MAX_ATTACHMENT_SIZE_BYTES = 50 * 1024 * 1024"

definition MAX_ATTACHMENT_DOWNLOADS_PER_MESSAGE :: usize where
  "MAX_ATTACHMENT_DOWNLOADS_PER_MESSAGE = 32"

record data_message_projection =
  dp_message :: data_message
  dp_peer :: string
  dp_outgoing :: bool
  dp_timestamp :: u64
  dp_delivery_id :: u64

definition dp_incoming_new :: "data_message \<Rightarrow> string \<Rightarrow> u64 \<Rightarrow> u64 \<Rightarrow> data_message_projection" where
  "dp_incoming_new message peer timestamp delivery_id =
     \<lparr>dp_message = message, dp_peer = peer, dp_outgoing = False, dp_timestamp = timestamp,
      dp_delivery_id = delivery_id\<rparr>"

definition dp_outgoing_new :: "data_message \<Rightarrow> string \<Rightarrow> u64 \<Rightarrow> u64 \<Rightarrow> data_message_projection" where
  "dp_outgoing_new message peer timestamp delivery_id =
     \<lparr>dp_message = message, dp_peer = peer, dp_outgoing = True, dp_timestamp = timestamp,
      dp_delivery_id = delivery_id\<rparr>"

subsection \<open>Attachments of a message\<close>

definition download_error :: "string \<Rightarrow> event" where
  "download_error reason = event_error (''Could not download a Signal attachment: '' @ reason) False"

definition download_attachment ::
  "'w services \<Rightarrow> usize \<Rightarrow> attachment_pointer \<Rightarrow> 'w backend \<Rightarrow> downloaded_attachment option \<times> 'w backend" where
  "download_attachment sv index a b =
     (if MAX_ATTACHMENT_SIZE_BYTES < unat (case ap_size a of Some sz \<Rightarrow> sz | None \<Rightarrow> 0) then
        (None, emit (download_error ''attachment exceeds 50 MiB limit'') b)
      else
        case perform (sp_get_attachment (sv_manager sv) (attachment_pointer_without_sender_size_hint a)) b of
          (Inl error, b1) \<Rightarrow> (None, emit (download_error error) b1)
        | (Inr raw, b1) \<Rightarrow>
            let data = truncate_attachment_to_sender_size a raw
            in if MAX_ATTACHMENT_SIZE_BYTES < length data then
                 (None, emit (download_error ''attachment exceeds 50 MiB limit'') b1)
               else if data = [] then (None, emit (download_error ''decrypted attachment was empty'') b1)
               else (Some (downloaded_new (sv_ext sv) index a data), b1))"

fun download_attachments ::
  "'w services \<Rightarrow> (usize \<times> attachment_pointer) list \<Rightarrow> 'w backend \<Rightarrow> downloaded_attachment list \<times> 'w backend" where
  "download_attachments sv [] b = ([], b)"
| "download_attachments sv ((index, a) # rest) b =
     (case download_attachment sv index a b of
        (d, b1) \<Rightarrow>
          (case download_attachments sv rest b1 of
             (ds, b2) \<Rightarrow> ((case d of Some v \<Rightarrow> [v] | None \<Rightarrow> []) @ ds, b2)))"

text \<open>\<open>te n\<close> is the environment of the \<open>n\<close>-th transcoder run for this message.\<close>

fun transcode_attachments ::
  "(usize \<Rightarrow> transcode_env) \<Rightarrow> usize \<Rightarrow> downloaded_attachment list \<Rightarrow> downloaded_attachment list" where
  "transcode_attachments te n [] = []"
| "transcode_attachments te n (d # ds) =
     (if MAX_SIGNAL_GIF_TRANSCODES_PER_MESSAGE \<le> n then d # ds
      else if da_signal_gif_filename d = None then d # transcode_attachments te n ds
      else
        (case transcode_signal_gif_video (te n) (da_data d) of
           Some gif \<Rightarrow> snd (apply_signal_gif gif d)
         | None \<Rightarrow> d) # transcode_attachments te (n + 1) ds)"

definition inline_attachment_indexes :: "bool \<Rightarrow> downloaded_attachment list \<Rightarrow> usize set" where
  "inline_attachment_indexes outgoing ds =
     da_attachment_index ` set (filter (\<lambda>d. should_inline_image outgoing (da_content_type d) (Some (da_data d))) ds)"

subsection \<open>Events of a message\<close>

definition text_event ::
  "externals \<Rightarrow> aci \<Rightarrow> data_message_projection \<Rightarrow> group_key option \<Rightarrow> string option \<Rightarrow> u64 \<Rightarrow> string \<Rightarrow> event" where
  "text_event x local dp gk title message_delivery_id body =
     (let flags = (if dp_outgoing dp then FLAG_OUTGOING else 0)
      in case gk of
           Some key \<Rightarrow>
             event_default\<lparr>ev_kind := EVENT_GROUP_MESSAGE, ev_request_id := message_delivery_id, ev_flags := flags,
               ev_peer_id := Some (group_message_peer x (dp_outgoing dp) (dp_peer dp) local),
               ev_chat_id := Some (group_identifier x key), ev_title := title, ev_text := Some body,
               ev_timestamp_ms := dp_timestamp dp\<rparr>
         | None \<Rightarrow>
             event_default\<lparr>ev_kind := EVENT_MESSAGE, ev_request_id := message_delivery_id, ev_flags := flags,
               ev_peer_id := Some (dp_peer dp), ev_text := Some body, ev_timestamp_ms := dp_timestamp dp\<rparr>)"

definition attachment_event ::
  "externals \<Rightarrow> data_message_projection \<Rightarrow> group_key option \<Rightarrow> u64 \<Rightarrow> downloaded_attachment \<Rightarrow> event" where
  "attachment_event x dp gk request d =
     event_default\<lparr>ev_kind := EVENT_ATTACHMENT, ev_request_id := request, ev_peer_id := Some (dp_peer dp),
       ev_chat_id := map_option (group_identifier x) gk, ev_title := Some (da_filename d),
       ev_text := da_content_type d, ev_data := da_data d, ev_timestamp_ms := dp_timestamp dp\<rparr>"

definition attachment_events ::
  "externals \<Rightarrow> data_message_projection \<Rightarrow> group_key option \<Rightarrow> downloaded_attachment list \<Rightarrow> event list" where
  "attachment_events x dp gk ds =
     map (\<lambda>(index, d). attachment_event x dp gk (if index + 1 = length ds then dp_delivery_id dp else 0) d)
       (List.enumerate 0 ds)"

text \<open>The part of \<^verbatim>\<open>emit_data_message\<close> after the target of the message is settled.\<close>

definition emit_projected ::
  "'w services \<Rightarrow> (usize \<Rightarrow> transcode_env) \<Rightarrow> data_message_projection \<Rightarrow> group_key option \<Rightarrow> string option \<Rightarrow>
     'w backend \<Rightarrow> 'w backend" where
  "emit_projected sv te dp gk title b =
     (let attachments = regular_message_attachments (dp_message dp);
          excess = MAX_ATTACHMENT_DOWNLOADS_PER_MESSAGE < length attachments;
          b1 = (if \<not> dp_outgoing dp \<and> excess then
                  emit (event_error
                    (''Ignored '' @ decimal_digits (length attachments - MAX_ATTACHMENT_DOWNLOADS_PER_MESSAGE) @
                     '' Signal attachments beyond the per-message limit of '' @
                     decimal_digits MAX_ATTACHMENT_DOWNLOADS_PER_MESSAGE) False) b
                else b);
          (raw, b2) = (if dp_outgoing dp then ([], b1)
                       else download_attachments sv
                              (take MAX_ATTACHMENT_DOWNLOADS_PER_MESSAGE (List.enumerate 0 attachments)) b1);
          downloaded = transcode_attachments te 0 raw;
          inlined = inline_attachment_indexes (dp_outgoing dp) downloaded;
          body = projected_data_message_text (data_message_text (dp_message dp))
                   (map (\<lambda>(index, a). (Some (attachment_display_name (sv_ext sv) a), index \<in> inlined))
                      (List.enumerate 0 attachments));
          message_delivery_id = (if downloaded = [] then dp_delivery_id dp else 0);
          b3 = (case body of
                  Some t \<Rightarrow> emit (text_event (sv_ext sv) (local_aci sv) dp gk title message_delivery_id t) b2
                | None \<Rightarrow> b2)
      in fold emit (attachment_events (sv_ext sv) dp gk downloaded) b3)"

definition emit_data_message ::
  "'w services \<Rightarrow> (usize \<Rightarrow> transcode_env) \<Rightarrow> departed_groups \<Rightarrow> data_message_projection \<Rightarrow> 'w backend \<Rightarrow>
     projection_disposition \<times> 'w backend" where
  "emit_data_message sv te mid dp b =
     (case group_message_target (dp_message dp) of
        Target_Malformed \<Rightarrow>
          (Complete,
           emit (event_error ''Ignored a Signal group message with a missing or malformed group master key'' False) b)
      | target \<Rightarrow>
          if data_message_text (dp_message dp) = [] \<and> regular_message_attachments (dp_message dp) = [] then (Complete, b)
          else
            case target of
              Target_Group key \<Rightarrow>
                (case group_for_projection sv mid key b of
                   (Inr (Projection_Active g), b1) \<Rightarrow>
                     (AwaitingAck, emit_projected sv te dp (Some key) (Some (gr_title g)) b1)
                 | (Inr Projection_Complete, b1) \<Rightarrow> (Complete, b1)
                 | (Inr Projection_Retry, b1) \<Rightarrow> (Retry, b1)
                 | (Inl error, b1) \<Rightarrow> (Retry, emit (event_error error False) b1))
            | _ \<Rightarrow> (AwaitingAck, emit_projected sv te dp None None b))"

subsection \<open>Routing\<close>

text \<open>The projection of a message that arrives directly, in either direction.\<close>

definition bare_projection :: "'w services \<Rightarrow> content \<Rightarrow> data_message \<Rightarrow> u64 \<Rightarrow> data_message_projection" where
  "bare_projection sv c message delivery_id =
     (let route = bare_data_message_route (sv_ext sv) (ct_sender c) (ct_destination c) (local_aci sv)
      in if rt_outgoing route then dp_outgoing_new message (rt_peer route) (content_timestamp c) delivery_id
         else dp_incoming_new message (rt_peer route) (content_timestamp c) delivery_id)"

definition sent_projection :: "'w services \<Rightarrow> content \<Rightarrow> sent_transcript \<Rightarrow> data_message \<Rightarrow> u64 \<Rightarrow> data_message_projection" where
  "sent_projection sv c sent message delivery_id =
     dp_outgoing_new message
       (case st_destination sent of
          Some sid \<Rightarrow> x_service_id_string (sv_ext sv) sid
        | None \<Rightarrow> x_service_id_string (sv_ext sv) (ct_sender c))
       (content_timestamp c) delivery_id"

text \<open>
  The receipt of a message that needs one, with the report of a full queue; \<open>None\<close> is the panic of an
  exhausted timestamp space.
\<close>

definition enqueue_receipt ::
  "'w services \<Rightarrow> content \<Rightarrow> delivery_receipt_queue \<Rightarrow> 'w backend \<Rightarrow> (delivery_receipt_queue \<times> 'w backend) option" where
  "enqueue_receipt sv c receipts b =
     (if \<not> ct_needs_receipt c then Some (receipts, b)
      else
        case next_timestamp sv b of
          None \<Rightarrow> None
        | Some (t, b1) \<Rightarrow>
            (case receipts_enqueue (sv_ext sv) (ct_sender c) (content_timestamp c) t receipts of
               (report, receipts1) \<Rightarrow>
                 Some (receipts1,
                   if report then emit (transient_error
                     ''Signal delivery-receipt backlog limit reached; excess receipts were discarded'') b1
                   else b1)))"

definition handle_content ::
  "'w services \<Rightarrow> (usize \<Rightarrow> transcode_env) \<Rightarrow> departed_groups \<Rightarrow> content \<Rightarrow> u64 \<Rightarrow> delivery_receipt_queue \<Rightarrow>
     'w backend \<Rightarrow> (projection_disposition \<times> delivery_receipt_queue \<times> 'w backend) option" where
  "handle_content sv te mid c delivery_id receipts b =
     (let timestamp = content_timestamp c;
          sender = x_service_id_string (sv_ext sv) (ct_sender c);
          shown = (\<lambda>dp. case emit_data_message sv te mid dp b of (d, b1) \<Rightarrow> Some (d, receipts, b1));
          complete = (\<lambda>b1. Some (Complete, receipts, b1))
      in case ct_body c of
           Body_Data message \<Rightarrow>
             (case emit_data_message sv te mid (bare_projection sv c message delivery_id) b of
                (disposition, b1) \<Rightarrow>
                  map_option (\<lambda>(receipts1, b2). (disposition, receipts1, b2)) (enqueue_receipt sv c receipts b1))
         | Body_Edit edit \<Rightarrow>
             (case em_data_message edit of
                Some message \<Rightarrow> shown (bare_projection sv c message delivery_id)
              | None \<Rightarrow> complete b)
         | Body_Sync (Some (Sync_Sent sent)) \<Rightarrow>
             (case st_message sent of
                Some message \<Rightarrow> shown (sent_projection sv c sent message delivery_id)
              | None \<Rightarrow>
                  (case st_edit_message sent of
                     Some edit \<Rightarrow>
                       (case em_data_message edit of
                          Some message \<Rightarrow> shown (sent_projection sv c sent message delivery_id)
                        | None \<Rightarrow> complete b)
                   | None \<Rightarrow> complete b))
         | Body_Typing message \<Rightarrow>
             complete (if ty_group_id message = None then
               emit (event_default\<lparr>ev_kind := EVENT_TYPING, ev_peer_id := Some sender,
                 ev_timestamp_ms := (case ty_timestamp message of Some t \<Rightarrow> t | None \<Rightarrow> timestamp),
                 ev_value := (if ty_action message = Some Typing_Started then 1 else 0)\<rparr>) b
               else b)
         | Body_Receipt message \<Rightarrow>
             complete (emit (event_default\<lparr>ev_kind := EVENT_RECEIPT, ev_peer_id := Some sender,
               ev_timestamp_ms := (case rm_timestamp message of t # _ \<Rightarrow> t | [] \<Rightarrow> timestamp),
               ev_value := (case rm_type message of Some v \<Rightarrow> v | None \<Rightarrow> 0)\<rparr>) b)
         | Body_Decryption_Error \<Rightarrow>
             complete (emit (event_error
               (''A message from '' @ sender @ '' could not be decrypted'') False) b)
         | _ \<Rightarrow> complete b)"

section \<open>What the plugin sees\<close>

lemma emit_simps [simp]:
  "bk_events (emit e b) = bk_events b @ [e]" "bk_world (emit e b) = bk_world b" "bk_departed (emit e b) = bk_departed b"
  by (simp_all add: emit_def)

lemma fold_emit_events [simp]: "bk_events (fold emit es b) = bk_events b @ es"
  by (induction es arbitrary: b) simp_all

lemma perform_events: "perform f b = (r, b1) \<Longrightarrow> bk_events b1 = bk_events b"
  by (auto simp: perform_def split: prod.splits)

text \<open>Reports do not concern a delivery, and a list of events that settles a delivery ends with its id.\<close>

definition is_report :: "event \<Rightarrow> bool" where
  "is_report e \<longleftrightarrow> ev_kind e = EVENT_ERROR \<and> ev_request_id e = 0 \<and> ev_data e = []"

definition carries_delivery :: "u64 \<Rightarrow> event list \<Rightarrow> bool" where
  "carries_delivery delivery_id es \<longleftrightarrow>
     es \<noteq> [] \<and> ev_request_id (last es) = delivery_id \<and> list_all (\<lambda>e. ev_request_id e = 0) (butlast es)"

lemma is_report_error [simp]: "is_report (event_error t f)" "is_report (download_error t)"
  by (simp_all add: is_report_def event_error_def event_default_def download_error_def)

lemma carries_delivery_append:
  "list_all (\<lambda>e. ev_request_id e = 0) rs \<Longrightarrow> carries_delivery i es \<Longrightarrow> carries_delivery i (rs @ es)"
  by (auto simp: carries_delivery_def butlast_append)

lemma download_attachment_reports:
  assumes "download_attachment sv index a b = (d, b1)"
  shows "(\<exists>es. bk_events b1 = bk_events b @ es \<and> list_all is_report es) \<and>
    (\<forall>v. d = Some v \<longrightarrow> length (da_data v) \<le> MAX_ATTACHMENT_SIZE_BYTES)"
  using assms
  by (auto simp: download_attachment_def downloaded_new_def Let_def
      split: if_splits prod.splits sum.splits dest!: perform_events)

lemma download_attachments_reports:
  "download_attachments sv as b = (ds, b1) \<Longrightarrow>
     (\<exists>es. bk_events b1 = bk_events b @ es \<and> list_all is_report es) \<and> length ds \<le> length as \<and>
     list_all (\<lambda>d. length (da_data d) \<le> MAX_ATTACHMENT_SIZE_BYTES) ds"
proof (induction sv as b arbitrary: ds b1 rule: download_attachments.induct)
  case (2 sv index a rest b)
  obtain d b2 where d: "download_attachment sv index a b = (d, b2)" by (cases "download_attachment sv index a b")
  obtain ds1 b3 where r: "download_attachments sv rest b2 = (ds1, b3)" by (cases "download_attachments sv rest b2")
  have eq: "ds = (case d of Some v \<Rightarrow> [v] | None \<Rightarrow> []) @ ds1" "b1 = b3" using "2.prems" d r by simp_all
  from download_attachment_reports [OF d] obtain es1
    where es1: "bk_events b2 = bk_events b @ es1" "list_all is_report es1" by blast
  from "2.IH" [OF d [symmetric] r] obtain es2
    where es2: "bk_events b3 = bk_events b2 @ es2" "list_all is_report es2" by blast
  have "\<exists>es. bk_events b1 = bk_events b @ es \<and> list_all is_report es"
    using es1 es2 by (intro exI [of _ "es1 @ es2"]) (simp add: eq)
  then show ?case
    using "2.IH" [OF d [symmetric] r] download_attachment_reports [OF d] by (auto simp: eq split: option.split)
qed simp

lemma bounded_gif_length: "bounded_inline_gif gif = Some True \<Longrightarrow> length gif \<le> MAX_INLINE_MEDIA_BYTES"
  by (auto simp: bounded_inline_gif_def split: if_splits)

lemma apply_signal_gif_data:
  "length (da_data d) \<le> MAX_ATTACHMENT_SIZE_BYTES \<Longrightarrow>
     length (da_data (snd (apply_signal_gif gif d))) \<le> MAX_ATTACHMENT_SIZE_BYTES"
  using bounded_gif_length [of gif]
  by (auto simp: apply_signal_gif_def MAX_INLINE_MEDIA_BYTES_def MAX_ATTACHMENT_SIZE_BYTES_def split: option.split)

lemma length_transcode [simp]: "length (transcode_attachments te n ds) = length ds"
  by (induction te n ds rule: transcode_attachments.induct) auto

lemma transcode_Nil [simp]: "transcode_attachments te n ds = [] \<longleftrightarrow> ds = []"
  by (metis length_0_conv length_transcode)

lemma transcode_data:
  "list_all (\<lambda>d. length (da_data d) \<le> MAX_ATTACHMENT_SIZE_BYTES) ds \<Longrightarrow>
     list_all (\<lambda>d. length (da_data d) \<le> MAX_ATTACHMENT_SIZE_BYTES) (transcode_attachments te n ds)"
  by (induction te n ds rule: transcode_attachments.induct) (auto simp: apply_signal_gif_data split: option.split)

lemma projected_text_None:
  "projected_data_message_text t atts = None \<longleftrightarrow> t = [] \<and> list_all snd atts"
proof -
  have "projected_lines t atts = [] \<longleftrightarrow> t = [] \<and> list_all snd atts"
    by (induction t atts rule: projected_lines.induct) auto
  then show ?thesis by (simp add: projected_data_message_text_def Let_def)
qed

lemma attachment_events_snoc:
  "attachment_events x dp gk (ds @ [d]) =
     map (attachment_event x dp gk 0) ds @ [attachment_event x dp gk (dp_delivery_id dp) d]"
proof -
  have "map (\<lambda>(index, e). attachment_event x dp gk (if index + 1 = Suc (length ds) then dp_delivery_id dp else 0) e)
      (List.enumerate 0 ds) = map (attachment_event x dp gk 0) ds"
    by (intro nth_equalityI) (simp_all add: nth_enumerate_eq)
  then show ?thesis by (simp add: attachment_events_def enumerate_append_eq)
qed

lemma attachment_events_carry:
  "ds \<noteq> [] \<Longrightarrow> carries_delivery (dp_delivery_id dp) (attachment_events x dp gk ds)"
proof (induction ds rule: rev_induct)
  case (snoc d ds)
  show ?case
    by (simp add: attachment_events_snoc carries_delivery_def list_all_iff attachment_event_def event_default_def)
qed simp

lemma length_attachment_events [simp]: "length (attachment_events x dp gk ds) = length ds"
  by (simp add: attachment_events_def)

lemma attachment_events_data:
  "list_all (\<lambda>d. length (da_data d) \<le> n) ds \<Longrightarrow>
     list_all (\<lambda>e. length (ev_data e) \<le> n) (attachment_events x dp gk ds)"
  by (induction ds rule: rev_induct) (auto simp: attachment_events_snoc attachment_event_def list_all_iff,
      simp add: attachment_events_def)

lemma text_event_simps [simp]:
  "ev_request_id (text_event x l dp gk title i t) = i" "ev_data (text_event x l dp gk title i t) = []"
  by (simp_all add: text_event_def event_default_def Let_def split: option.split)

text \<open>A message with attachments or text of which nothing was inlined has a text to show.\<close>

lemma nothing_inlined:
  assumes "projected_data_message_text t (map (\<lambda>(index, a). (f a, False)) (List.enumerate n atts)) = None"
  shows "t = [] \<and> atts = []"
  using assms by (cases atts) (auto simp: projected_text_None)

text \<open>The parts of the events of a message for one settled target.\<close>

lemma emit_projected_parts:
  obtains excess b1 raw b2 body where
    "bk_events b1 = bk_events b @ map (\<lambda>t. event_error t False) excess"
    "(if dp_outgoing dp then ([], b1)
      else download_attachments sv
        (take MAX_ATTACHMENT_DOWNLOADS_PER_MESSAGE (List.enumerate 0 (regular_message_attachments (dp_message dp)))) b1) = (raw, b2)"
    "body = projected_data_message_text (data_message_text (dp_message dp))
      (map (\<lambda>(index, a). (Some (attachment_display_name (sv_ext sv) a),
         index \<in> inline_attachment_indexes (dp_outgoing dp) (transcode_attachments te 0 raw)))
        (List.enumerate 0 (regular_message_attachments (dp_message dp))))"
    "bk_events (emit_projected sv te dp gk title b) = bk_events b2 @
      (case body of None \<Rightarrow> []
       | Some t \<Rightarrow> [text_event (sv_ext sv) (local_aci sv) dp gk title (if raw = [] then dp_delivery_id dp else 0) t]) @
      attachment_events (sv_ext sv) dp gk (transcode_attachments te 0 raw)"
proof -
  define atts where "atts = regular_message_attachments (dp_message dp)"
  define b1 where "b1 = (if \<not> dp_outgoing dp \<and> MAX_ATTACHMENT_DOWNLOADS_PER_MESSAGE < length atts then
      emit (event_error
        (''Ignored '' @ decimal_digits (length atts - MAX_ATTACHMENT_DOWNLOADS_PER_MESSAGE) @
         '' Signal attachments beyond the per-message limit of '' @
         decimal_digits MAX_ATTACHMENT_DOWNLOADS_PER_MESSAGE) False) b else b)"
  obtain raw b2 where raw: "(if dp_outgoing dp then ([], b1)
      else download_attachments sv (take MAX_ATTACHMENT_DOWNLOADS_PER_MESSAGE (List.enumerate 0 atts)) b1) = (raw, b2)"
    by (cases "if dp_outgoing dp then ([], b1)
      else download_attachments sv (take MAX_ATTACHMENT_DOWNLOADS_PER_MESSAGE (List.enumerate 0 atts)) b1")
  define body where "body = projected_data_message_text (data_message_text (dp_message dp))
      (map (\<lambda>(index, a). (Some (attachment_display_name (sv_ext sv) a),
         index \<in> inline_attachment_indexes (dp_outgoing dp) (transcode_attachments te 0 raw))) (List.enumerate 0 atts))"
  have "\<exists>excess. bk_events b1 = bk_events b @ map (\<lambda>t. event_error t False) excess"
    by (cases "\<not> dp_outgoing dp \<and> MAX_ATTACHMENT_DOWNLOADS_PER_MESSAGE < length atts")
       (simp_all add: b1_def exI [of _ "[]"] exI [of _ "[_]"])
  moreover have "bk_events (emit_projected sv te dp gk title b) = bk_events b2 @
      (case body of None \<Rightarrow> []
       | Some t \<Rightarrow> [text_event (sv_ext sv) (local_aci sv) dp gk title (if raw = [] then dp_delivery_id dp else 0) t]) @
      attachment_events (sv_ext sv) dp gk (transcode_attachments te 0 raw)"
    unfolding emit_projected_def atts_def [symmetric] Let_def b1_def [symmetric] raw prod.case body_def [symmetric]
    by (simp split: option.split)
  ultimately show thesis using that raw body_def unfolding atts_def by blast
qed

text \<open>The reports and then the events of the message.\<close>

lemma emit_projected_events:
  assumes "data_message_text (dp_message dp) \<noteq> [] \<or> regular_message_attachments (dp_message dp) \<noteq> []"
  shows "\<exists>reports shown. bk_events (emit_projected sv te dp gk title b) = bk_events b @ reports @ shown \<and>
    list_all is_report reports \<and> carries_delivery (dp_delivery_id dp) shown \<and>
    length shown \<le> 1 + MAX_ATTACHMENT_DOWNLOADS_PER_MESSAGE \<and>
    list_all (\<lambda>e. length (ev_data e) \<le> MAX_ATTACHMENT_SIZE_BYTES) shown"
proof -
  let ?atts = "regular_message_attachments (dp_message dp)"
  obtain excess b1 raw b2 body where excess: "bk_events b1 = bk_events b @ map (\<lambda>t. event_error t False) excess"
    and raw: "(if dp_outgoing dp then ([], b1)
      else download_attachments sv (take MAX_ATTACHMENT_DOWNLOADS_PER_MESSAGE (List.enumerate 0 ?atts)) b1) = (raw, b2)"
    and body: "body = projected_data_message_text (data_message_text (dp_message dp))
      (map (\<lambda>(index, a). (Some (attachment_display_name (sv_ext sv) a),
         index \<in> inline_attachment_indexes (dp_outgoing dp) (transcode_attachments te 0 raw))) (List.enumerate 0 ?atts))"
    and shown: "bk_events (emit_projected sv te dp gk title b) = bk_events b2 @
      (case body of None \<Rightarrow> []
       | Some t \<Rightarrow> [text_event (sv_ext sv) (local_aci sv) dp gk title (if raw = [] then dp_delivery_id dp else 0) t]) @
      attachment_events (sv_ext sv) dp gk (transcode_attachments te 0 raw)"
    by (rule emit_projected_parts)
  define ds where "ds = transcode_attachments te 0 raw"
  define head where "head = (case body of None \<Rightarrow> []
    | Some t \<Rightarrow> [text_event (sv_ext sv) (local_aci sv) dp gk title (if ds = [] then dp_delivery_id dp else 0) t])"
  have loaded: "(\<exists>es. bk_events b2 = bk_events b1 @ es \<and> list_all is_report es) \<and>
      length raw \<le> MAX_ATTACHMENT_DOWNLOADS_PER_MESSAGE \<and>
      list_all (\<lambda>d. length (da_data d) \<le> MAX_ATTACHMENT_SIZE_BYTES) raw"
    using raw download_attachments_reports [of sv "take MAX_ATTACHMENT_DOWNLOADS_PER_MESSAGE (List.enumerate 0 ?atts)" b1 raw b2]
    by (cases "dp_outgoing dp") auto
  then obtain es2 where es2: "bk_events b2 = bk_events b1 @ es2" "list_all is_report es2" by blast
  have some: "ds \<noteq> []" if "body = None"
    using that assms nothing_inlined [of "data_message_text (dp_message dp)" _ 0 ?atts]
    by (auto simp: body ds_def inline_attachment_indexes_def)
  have "carries_delivery (dp_delivery_id dp) (head @ attachment_events (sv_ext sv) dp gk ds)"
  proof (cases "ds = []")
    case True
    then obtain t where "body = Some t" using some by (cases body) auto
    then show ?thesis by (simp add: True head_def attachment_events_def carries_delivery_def)
  next
    case False
    have "list_all (\<lambda>e. ev_request_id e = 0) head" using False by (simp add: head_def split: option.split)
    then show ?thesis using attachment_events_carry [OF False] by (rule carries_delivery_append)
  qed
  moreover have "length (head @ attachment_events (sv_ext sv) dp gk ds) \<le> 1 + MAX_ATTACHMENT_DOWNLOADS_PER_MESSAGE"
    using loaded by (simp add: head_def ds_def split: option.split)
  moreover have "list_all (\<lambda>e. length (ev_data e) \<le> MAX_ATTACHMENT_SIZE_BYTES)
      (head @ attachment_events (sv_ext sv) dp gk ds)"
    using loaded by (simp add: head_def ds_def attachment_events_data transcode_data split: option.split)
  moreover have "list_all is_report (map (\<lambda>t. event_error t False) excess @ es2)" using es2 by (auto simp: list_all_iff)
  ultimately show ?thesis
    using shown excess es2
    by (intro exI [of _ "map (\<lambda>t. event_error t False) excess @ es2"] exI [of _ "head @ attachment_events (sv_ext sv) dp gk ds"])
       (simp add: head_def ds_def)
qed

lemma group_for_projection_events:
  "group_for_projection sv mid key b = (r, b1) \<Longrightarrow> bk_events b1 = bk_events b"
  by (auto simp: group_for_projection_def Let_def split: option.splits prod.splits sum.splits
      dest!: perform_events)

lemma group_for_projection_active:
  assumes "group_for_projection sv mid key b = (Inr (Projection_Active g), b1)"
  shows "departure_state_of (bk_departed b) (group_identifier (sv_ext sv) key) = Departure_Active \<and>
    departure_state_of mid (group_identifier (sv_ext sv) key) = Departure_Active \<and>
    fst (so_group (sv_repo sv) key (bk_world b)) = Inr (Some g) \<and> group_contains_local_aci g (local_aci sv)"
proof -
  obtain r b2 where p: "perform (so_group (sv_repo sv) key) b = (r, b2)" by (cases "perform (so_group (sv_repo sv) key) b")
  have "fst (so_group (sv_repo sv) key (bk_world b)) = r" using p by (auto simp: perform_def split: prod.splits)
  then show ?thesis
    using assms p
    by (auto simp: group_for_projection_def departure_projection_disposition_def option_filter_def Let_def
        split: departure_state.splits sum.splits option.splits if_splits)
qed

lemma emit_data_message_cases:
  assumes "emit_data_message sv te mid dp b = (d, b1)"
  obtains (shown) b0 gk title where "d = AwaitingAck" "bk_events b0 = bk_events b"
      "b1 = emit_projected sv te dp gk title b0"
      "data_message_text (dp_message dp) \<noteq> [] \<or> regular_message_attachments (dp_message dp) \<noteq> []"
    | (hidden) reports where "d \<noteq> AwaitingAck" "bk_events b1 = bk_events b @ reports" "list_all is_report reports"
proof -
  consider "group_message_target (dp_message dp) = Target_Malformed"
    | "data_message_text (dp_message dp) = [] \<and> regular_message_attachments (dp_message dp) = []"
        "group_message_target (dp_message dp) \<noteq> Target_Malformed"
    | "\<not> (data_message_text (dp_message dp) = [] \<and> regular_message_attachments (dp_message dp) = [])"
        "group_message_target (dp_message dp) = Target_Direct"
    | key where "\<not> (data_message_text (dp_message dp) = [] \<and> regular_message_attachments (dp_message dp) = [])"
        "group_message_target (dp_message dp) = Target_Group key"
    by (cases "group_message_target (dp_message dp)") auto
  then show thesis
  proof cases
    case 1
    then show ?thesis using assms hidden by (auto simp: emit_data_message_def)
  next
    case 2
    then show ?thesis using assms hidden [of "[]"] by (auto simp: emit_data_message_def split: message_target.splits)
  next
    case 3
    then show ?thesis using assms shown [of b] by (auto simp: emit_data_message_def)
  next
    case (4 key)
    obtain r b0 where g: "group_for_projection sv mid key b = (r, b0)" by (cases "group_for_projection sv mid key b")
    have ev: "bk_events b0 = bk_events b" using g by (rule group_for_projection_events)
    consider e where "r = Inl e" | g where "r = Inr (Projection_Active g)" | "r = Inr Projection_Complete"
      | "r = Inr Projection_Retry" by (metis projection_group.exhaust sum.exhaust)
    then show ?thesis
    proof cases
      case (1 e)
      then show ?thesis using assms 4 g ev hidden [of "[event_error e False]"] by (auto simp: emit_data_message_def)
    next
      case (2 grp)
      then show ?thesis using assms 4 g ev shown [of b0 "Some key" "Some (gr_title grp)"] by (auto simp: emit_data_message_def)
    qed (use assms 4 g ev hidden [of "[]"] in \<open>auto simp: emit_data_message_def\<close>)
  qed
qed

text \<open>
  The events of a shown message: after error reports that concern no delivery come at most 33 events, each with at most 50 MiB of data,
  of which the last and only the last carries the delivery id of the message. So the plugin acknowledges a message only when it has
  seen all of it. A message that is not shown causes error reports only.
\<close>

lemma emit_data_message_acknowledged_last:
  "case emit_data_message sv te mid dp b of
     (d, b1) \<Rightarrow> \<exists>reports shown. bk_events b1 = bk_events b @ reports @ shown \<and> list_all is_report reports \<and>
       (if d = AwaitingAck then carries_delivery (dp_delivery_id dp) shown else shown = []) \<and>
       length shown \<le> 33 \<and> list_all (\<lambda>e. length (ev_data e) \<le> 50 * 1024 * 1024) shown"
proof -
  obtain d b1 where r: "emit_data_message sv te mid dp b = (d, b1)" by (cases "emit_data_message sv te mid dp b")
  then show ?thesis
  proof (cases rule: emit_data_message_cases)
    case (shown b0 gk title)
    then show ?thesis
      using r emit_projected_events [OF shown(4), of sv te gk title b0]
      by (simp add: MAX_ATTACHMENT_DOWNLOADS_PER_MESSAGE_def MAX_ATTACHMENT_SIZE_BYTES_def)
  qed (use r in auto)
qed

text \<open>
  C14. A message is shown only in a direct conversation or in a group that the store has, that has the account as a member, and that the
  account has neither left nor begun to leave, before and after the store was read.
\<close>

theorem group_message_shown_to_members_only:
  "case emit_data_message sv te mid dp b of
     (AwaitingAck, b1) \<Rightarrow>
       (case group_message_target (dp_message dp) of
          Target_Direct \<Rightarrow> True
        | Target_Malformed \<Rightarrow> False
        | Target_Group key \<Rightarrow>
            (\<exists>g. fst (so_group (sv_repo sv) key (bk_world b)) = Inr (Some g) \<and>
               group_contains_local_aci g (local_aci sv)) \<and>
            \<not> departed_contains (bk_departed b) (group_identifier (sv_ext sv) key) \<and>
            \<not> departed_contains mid (group_identifier (sv_ext sv) key))
   | (_, b1) \<Rightarrow> True"
proof (cases "group_message_target (dp_message dp)")
  case (Target_Group key)
  obtain r b0 where g: "group_for_projection sv mid key b = (r, b0)" by (cases "group_for_projection sv mid key b")
  consider e where "r = Inl e" | g where "r = Inr (Projection_Active g)" | "r = Inr Projection_Complete"
    | "r = Inr Projection_Retry" by (metis projection_group.exhaust sum.exhaust)
  then show ?thesis
  proof cases
    case (2 grp)
    then show ?thesis
      using Target_Group g group_for_projection_active [of sv mid key b grp b0]
      by (auto simp: emit_data_message_def departed_contains_def)
  qed (use Target_Group g in \<open>auto simp: emit_data_message_def\<close>)
qed (auto simp: emit_data_message_def)

end
