(* ===== verification/Outbox.thy ===== *)
theory Outbox
  imports Backend
begin

section \<open>The encrypted outbox (backend/outbox.rs)\<close>

text \<open>
  A message is stored before it is sent and stays stored until it is sent, refused for good, or
  has failed five times. The theory has the operations of outbox.rs and two groups of results: what an attempt sends, for any
  storage and network, and what happens to the stored entry, for any storage that meets the contract of the outbox table.
\<close>

record outbox_attempt_error =
  ox_message :: string
  ox_retryable :: bool

definition ox_permanent :: "string \<Rightarrow> outbox_attempt_error" where
  "ox_permanent message = \<lparr>ox_message = message, ox_retryable = False\<rparr>"

definition ox_retry :: "string \<Rightarrow> outbox_attempt_error" where
  "ox_retry message = \<lparr>ox_message = message, ox_retryable = True\<rparr>"

definition fatal_markers :: "string list" where
  "fatal_markers =
     [''401'', ''403'', ''404'', ''unregistered'', ''not registered'', ''untrusted identity'',
      ''untrustedidentity'', ''authorization failed'', ''forbidden'', ''not found'']"

definition classify :: "string \<Rightarrow> outbox_attempt_error" where
  "classify msg =
     (if list_ex (contains (to_ascii_lowercase msg)) fatal_markers then ox_permanent msg else ox_retry msg)"

definition should_retry :: "outbox_attempt_error \<Rightarrow> bool" where
  "should_retry e = ox_retryable e"

definition MAX_OUTBOX_ATTEMPTS :: u32 where
  "MAX_OUTBOX_ATTEMPTS = 5"

text \<open>The saturating operations of \<^verbatim>\<open>u32\<close> and \<^verbatim>\<open>u64\<close>.\<close>

definition saturating_add_word :: "'a :: len word \<Rightarrow> 'a word \<Rightarrow> 'a word" where
  "saturating_add_word a b = (if unat a + unat b < 2 ^ LENGTH('a) then a + b else - 1)"

definition saturating_mul_word :: "'a :: len word \<Rightarrow> 'a word \<Rightarrow> 'a word" where
  "saturating_mul_word a b = (if unat a * unat b < 2 ^ LENGTH('a) then a * b else - 1)"

definition retry_delay_ms :: "u32 \<Rightarrow> u64" where
  "retry_delay_ms attempts =
     (let exponent = min attempts 9
      in min (saturating_mul_word 5000 (push_bit (unat exponent) 1)) 3600000)"

definition outbox_message_is_attemptable :: "client_outbox_kind \<Rightarrow> bool \<Rightarrow> bool" where
  "outbox_message_is_attemptable kind authoritative = (authoritative \<or> kind = Kind_Direct)"

definition direct_message :: "client_outbox_message \<Rightarrow> data_message" where
  "direct_message m =
     data_message_default\<lparr>dm_body := Some (om_body m), dm_timestamp := Some (om_timestamp m)\<rparr>"

definition group_message :: "client_outbox_message \<Rightarrow> group_key \<Rightarrow> group \<Rightarrow> data_message" where
  "group_message m key g =
     (direct_message m)\<lparr>dm_group_v2 := Some \<lparr>gc_master_key = Some key, gc_revision = Some (gr_revision g)\<rparr>\<rparr>"

definition attempt_outbox_message ::
  "'w services \<Rightarrow> client_outbox_message \<Rightarrow> 'w backend \<Rightarrow> (outbox_attempt_error + sent_message) \<times> 'w backend"
where
  "attempt_outbox_message sv m b =
     (case om_kind m of
        Kind_Direct \<Rightarrow>
          (case parse_recipient (sv_ext sv) (om_recipient m) of
             None \<Rightarrow> (Inl (ox_permanent ''Recipient is not a canonical Signal service identifier''), b)
           | Some recipient \<Rightarrow>
               (case perform (sp_send_message (sv_manager sv) recipient (Body_Data (direct_message m))
                       (om_timestamp m)) b of
                  (Inl e, b1) \<Rightarrow> (Inl (classify e), b1)
                | (Inr _, b1) \<Rightarrow>
                    (Inr \<lparr>sm_thread = Thread_Contact recipient, sm_timestamp = om_timestamp m\<rparr>, b1)))
      | Kind_Group \<Rightarrow>
          (case resolve_active_group sv (om_recipient m) b of
             (Inl e, b1) \<Rightarrow> (Inl (classify e), b1)
           | (Inr None, b1) \<Rightarrow>
               (Inl (ox_permanent ''Signal group is unavailable or this account is no longer a member''), b1)
           | (Inr (Some (key, g)), b1) \<Rightarrow>
               (case perform (sp_send_message_to_group (sv_manager sv) key (Body_Data (group_message m key g))
                       (om_timestamp m)) b1 of
                  (Inl e, b2) \<Rightarrow> (Inl (classify e), b2)
                | (Inr _, b2) \<Rightarrow>
                    (Inr \<lparr>sm_thread = Thread_Group key, sm_timestamp = om_timestamp m\<rparr>, b2))))"

definition finish_outbox_attempt ::
  "'w services \<Rightarrow> client_outbox_message \<Rightarrow> outbox_attempt_error + sent_message \<Rightarrow> 'w backend \<Rightarrow>
     unit rresult \<times> 'w backend" where
  "finish_outbox_attempt sv m result b =
     (case result of
        Inr _ \<Rightarrow>
          (case perform (so_complete_outbox_message (sv_repo sv) (om_id m)) b of
             (r, b1) \<Rightarrow>
               (map_err (\<lambda>e. ''Message sent but its outbox entry could not be cleared: '' @ sse_display e) r, b1))
      | Inl error \<Rightarrow>
          if \<not> should_retry error \<or> MAX_OUTBOX_ATTEMPTS \<le> saturating_add_word (om_attempts m) 1 then
            (case perform (so_complete_outbox_message (sv_repo sv) (om_id m)) b of
               (r, b1) \<Rightarrow> (map_err (\<lambda>e. ''Could not discard a terminal outbox entry: '' @ sse_display e) r, b1))
          else
            let attempts = saturating_add_word (om_attempts m) 1
            in case perform (sv_wall_clock_ms sv) b of
                 (now, b1) \<Rightarrow>
                   (case perform (so_defer_outbox_message (sv_repo sv) (om_id m) attempts
                           (saturating_add_word now (retry_delay_ms attempts))) b1 of
                      (r, b2) \<Rightarrow> (map_err (\<lambda>e. ''Could not schedule message retry: '' @ sse_display e) r, b2)))"

text \<open>One turn of the loop of \<^verbatim>\<open>retry_outbox\<close>, and the loop.\<close>

definition retry_outbox_message :: "'w services \<Rightarrow> bool \<Rightarrow> client_outbox_message \<Rightarrow> 'w backend \<Rightarrow> 'w backend" where
  "retry_outbox_message sv authoritative m b =
     (if \<not> outbox_message_is_attemptable (om_kind m) authoritative then b
      else
        case attempt_outbox_message sv m b of
          (result, b1) \<Rightarrow>
            let b2 = (case result of Inr sent \<Rightarrow> mark_sent_message_projected_or_report sv sent b1 | Inl _ \<Rightarrow> b1)
            in case finish_outbox_attempt sv m result b2 of
                 (Inl error, b3) \<Rightarrow> emit (event_error error False) b3
               | (Inr _, b3) \<Rightarrow>
                   (case result of
                      Inr _ \<Rightarrow> b3
                    | Inl error \<Rightarrow>
                        let next_attempts = saturating_add_word (om_attempts m) 1
                        in if \<not> should_retry error \<or> MAX_OUTBOX_ATTEMPTS \<le> next_attempts then
                             emit (event_error
                               (''Discarded a queued Signal message that can no longer be sent: '' @ ox_message error)
                               False) b3
                           else if next_attempts = 4 then
                             emit (event_error
                               (''A Signal message is still queued after '' @ decimal_digits (unat next_attempts) @
                                '' attempts: '' @ ox_message error) False) b3
                           else b3))"

definition retry_outbox :: "'w services \<Rightarrow> bool \<Rightarrow> 'w backend \<Rightarrow> 'w backend" where
  "retry_outbox sv authoritative b =
     (case perform (sv_wall_clock_ms sv) b of
        (now, b1) \<Rightarrow>
          (case perform (so_due_outbox_messages (sv_repo sv) now) b1 of
             (Inl error, b2) \<Rightarrow>
               if sqlite_store_error_is_transient error then b2
               else emit (event_error
                      (''Could not read the encrypted Signal outbox: '' @ sse_display error) False) b2
           | (Inr messages, b2) \<Rightarrow> fold (retry_outbox_message sv authoritative) messages b2))"

record new_outbox_message =
  no_kind :: client_outbox_kind
  no_recipient :: string
  no_body :: string

text \<open>The outer option is the panic of the timestamp allocator.\<close>

definition enqueue_and_send ::
  "'w services \<Rightarrow> new_outbox_message \<Rightarrow> 'w backend \<Rightarrow> ((outbox_attempt_error + unit) \<times> 'w backend) option"
where
  "enqueue_and_send sv request b =
     (case next_timestamp sv b of
        None \<Rightarrow> None
      | Some (timestamp, b1) \<Rightarrow> Some (
          case perform (so_enqueue_outbox_message (sv_repo sv) (no_kind request) (no_recipient request)
                 (no_body request) timestamp) b1 of
            (Inl e, b2) \<Rightarrow>
              (Inl (classify (''Could not save the message in the encrypted outbox: '' @ sse_display e)), b2)
          | (Inr i, b2) \<Rightarrow>
              let message = \<lparr>om_id = i, om_kind = no_kind request, om_recipient = no_recipient request,
                     om_body = no_body request, om_timestamp = timestamp, om_attempts = 0\<rparr>
              in case attempt_outbox_message sv message b2 of
                   (result, b3) \<Rightarrow>
                     let b4 = (case result of
                                 Inr sent \<Rightarrow> mark_sent_message_projected_or_report sv sent b3 | Inl _ \<Rightarrow> b3)
                     in case finish_outbox_attempt sv message result b4 of
                          (finish_result, b5) \<Rightarrow>
                            (case result of
                               Inr _ \<Rightarrow> (map_err classify finish_result, b5)
                             | Inl error \<Rightarrow> (Inl error, b5))))"

subsection \<open>Delays and attempts\<close>

lemma retry_delay_ms_eq: "retry_delay_ms n = 5000 * 2 ^ min (unat n) 9"
proof -
  have u: "unat (min n 9) = min (unat n) 9" by (auto simp: min_def word_le_nat_alt)
  have k: "min (unat n) 9 \<in> {0, 1, 2, 3, 4, 5, 6, 7, 8, 9}" by auto
  show ?thesis
    unfolding retry_delay_ms_def Let_def u using k
    by (auto simp: saturating_mul_word_def push_bit_eq_mult)
qed

lemma saturating_succ_u32: "a < 5 \<Longrightarrow> saturating_add_word a (1 :: u32) = a + 1"
  by (auto simp: saturating_add_word_def word_less_nat_alt)

lemma attempts_not_last: "a < (5 :: u32) \<Longrightarrow> \<not> MAX_OUTBOX_ATTEMPTS \<le> saturating_add_word a 1 \<Longrightarrow>
  saturating_add_word a 1 < 5"
  by (simp add: MAX_OUTBOX_ATTEMPTS_def)

subsection \<open>What an attempt sends\<close>

text \<open>
  Services that record every send beside the world, whether or not it succeeds.
\<close>

datatype send = Send_Direct service_id content_body u64 | Send_Group group_key content_body u64

definition lift_io :: "('w, 'a) io \<Rightarrow> ('w \<times> 'l, 'a) io" where
  "lift_io f = (\<lambda>(w, l). case f w of (r, w1) \<Rightarrow> (r, (w1, l)))"

definition logged_io :: "send \<Rightarrow> ('w, 'a) io \<Rightarrow> ('w \<times> send list, 'a) io" where
  "logged_io s f = (\<lambda>(w, l). case f w of (r, w1) \<Rightarrow> (r, (w1, l @ [s])))"

definition logged_manager :: "'w signal_protocol \<Rightarrow> ('w \<times> send list) signal_protocol" where
  "logged_manager sp =
     \<lparr>sp_local_aci = sp_local_aci sp,
      sp_send_message = (\<lambda>r c t. logged_io (Send_Direct r c t) (sp_send_message sp r c t)),
      sp_send_message_to_group = (\<lambda>k c t. logged_io (Send_Group k c t) (sp_send_message_to_group sp k c t)),
      sp_upload_attachment = (\<lambda>s d. lift_io (sp_upload_attachment sp s d)),
      sp_get_attachment = (\<lambda>p. lift_io (sp_get_attachment sp p)),
      sp_leave_group = (\<lambda>k. lift_io (sp_leave_group sp k)),
      sp_clear_sessions = (\<lambda>r. lift_io (sp_clear_sessions sp r))\<rparr>"

definition logged_repo :: "'w storage_ops \<Rightarrow> ('w \<times> send list) storage_ops" where
  "logged_repo r =
     \<lparr>so_due_outbox_messages = (\<lambda>n. lift_io (so_due_outbox_messages r n)),
      so_enqueue_outbox_message = (\<lambda>k a b t. lift_io (so_enqueue_outbox_message r k a b t)),
      so_complete_outbox_message = (\<lambda>i. lift_io (so_complete_outbox_message r i)),
      so_defer_outbox_message = (\<lambda>i n t. lift_io (so_defer_outbox_message r i n t)),
      so_expedite_outbox_messages = (\<lambda>p. lift_io (so_expedite_outbox_messages r p)),
      so_unprojected_messages = lift_io (so_unprojected_messages r),
      so_mark_message_projected = (\<lambda>c. lift_io (so_mark_message_projected r c)),
      so_sent_message_content = (\<lambda>t n. lift_io (so_sent_message_content r t n)),
      so_mark_sent_message_projected = (\<lambda>t n. lift_io (so_mark_sent_message_projected r t n)),
      so_accept_identity_change = (\<lambda>p. lift_io (so_accept_identity_change r p)),
      so_dismiss_identity_change = (\<lambda>p. lift_io (so_dismiss_identity_change r p)),
      so_groups = lift_io (so_groups r),
      so_group = (\<lambda>k. lift_io (so_group r k)),
      so_active_group = (\<lambda>k a. lift_io (so_active_group r k a))\<rparr>"

definition logged :: "'w services \<Rightarrow> ('w \<times> send list) services" where
  "logged sv =
     \<lparr>sv_ext = sv_ext sv, sv_repo = logged_repo (sv_repo sv), sv_manager = logged_manager (sv_manager sv),
      sv_wall_clock_ms = lift_io (sv_wall_clock_ms sv), sv_read_file = (\<lambda>p. lift_io (sv_read_file sv p))\<rparr>"

abbreviation sends :: "('w \<times> send list) backend \<Rightarrow> send list" where
  "sends b \<equiv> snd (bk_world b)"

lemma logged_simps [simp]:
  "sv_ext (logged sv) = sv_ext sv"
  "sp_local_aci (sv_manager (logged sv)) = sp_local_aci (sv_manager sv)"
  "sp_send_message (sv_manager (logged sv)) r c t =
     logged_io (Send_Direct r c t) (sp_send_message (sv_manager sv) r c t)"
  "sp_send_message_to_group (sv_manager (logged sv)) k c t =
     logged_io (Send_Group k c t) (sp_send_message_to_group (sv_manager sv) k c t)"
  "so_active_group (sv_repo (logged sv)) k a = lift_io (so_active_group (sv_repo sv) k a)"
  "so_groups (sv_repo (logged sv)) = lift_io (so_groups (sv_repo sv))"
  by (simp_all add: logged_def logged_manager_def logged_repo_def)

lemma perform_lift:
  "perform (lift_io f) b = (r, b1) \<Longrightarrow> sends b1 = sends b \<and> bk_departed b1 = bk_departed b"
  by (auto simp: perform_def lift_io_def split: prod.splits)

lemma perform_logged:
  "perform (logged_io s f) b = (r, b1) \<Longrightarrow> sends b1 = sends b @ [s]"
  by (auto simp: perform_def logged_io_def split: prod.splits)

text \<open>The repository only hands out groups the account is a member of.\<close>

lemma repository_active_group:
  "so_active_group (storage_repository st) key a w = (Inr (Some g), w1) \<Longrightarrow> group_contains_local_aci g a"
  by (auto simp: storage_repository_def repo_active_group_def option_filter_def group_has_local_aci_def
      group_contains_local_aci_def contains_local_aci_def list_ex_iff split: prod.splits sum.splits
      option.splits if_splits)

lemma find_SomeD: "find P xs = Some x \<Longrightarrow> P x \<and> x \<in> set xs"
  by (auto simp: find_Some_iff)

lemma scan_active_groups_logged:
  assumes "scan_active_groups (logged sv) identifier b = (res, b1)"
  shows "sends b1 = sends b \<and> (\<forall>key g. res = Inr (Some (key, g)) \<longrightarrow> group_contains_local_aci g (local_aci sv))"
  using assms
  by (auto simp: scan_active_groups_def split: prod.splits sum.splits option.splits dest!: perform_lift find_SomeD)

lemma active_group_logged:
  assumes "sv_repo sv = storage_repository st"
    and "perform (lift_io (so_active_group (sv_repo sv) key a)) b = (Inr (Some g), b1)"
  shows "group_contains_local_aci g a"
  using assms(2) repository_active_group [of st key a] unfolding assms(1)
  by (auto simp: perform_def lift_io_def split: prod.splits)

lemma resolve_active_group_logged:
  assumes repo: "sv_repo sv = storage_repository st"
    and "resolve_active_group (logged sv) identifier b = (res, b1)"
  shows "sends b1 = sends b \<and>
    (\<forall>key g. res = Inr (Some (key, g)) \<longrightarrow>
       \<not> departed_contains (bk_departed b) identifier \<and> group_contains_local_aci g (local_aci sv))"
proof (cases "departed_contains (bk_departed b) identifier")
  case True
  then show ?thesis using assms(2) by (auto simp: resolve_active_group_def)
next
  case False
  then have res: "resolve_active_group_in_store (logged sv) identifier b = (res, b1)"
    using assms(2) by (simp add: resolve_active_group_def)
  show ?thesis
  proof (cases "group_key_for_identifier identifier (bk_cache b)")
    case None
    then have "scan_active_groups (logged sv) identifier b = (res, b1)"
      using res by (simp add: resolve_active_group_in_store_def)
    then show ?thesis using False by (simp add: scan_active_groups_logged)
  next
    case (Some key)
    obtain r b2 where r: "perform (lift_io (so_active_group (sv_repo sv) key (local_aci sv))) b = (r, b2)"
      by (metis prod.exhaust)
    consider e where "r = Inl e" | g where "r = Inr (Some g)" | "r = Inr None"
      by (metis option.exhaust sum.exhaust)
    then show ?thesis
    proof cases
      case 2
      with active_group_logged [OF repo] r have "group_contains_local_aci g (local_aci sv)" by blast
      then show ?thesis
        using res False Some r 2 perform_lift [OF r] by (auto simp: resolve_active_group_in_store_def)
    next
      case 3
      then have "scan_active_groups (logged sv) identifier b2 = (res, b1)"
        using res Some r by (simp add: resolve_active_group_in_store_def)
      then show ?thesis using False perform_lift [OF r] scan_active_groups_logged by metis
    qed (use res Some r perform_lift [OF r] in \<open>auto simp: resolve_active_group_in_store_def\<close>)
  qed
qed

text \<open>What one attempt may send.\<close>

definition legitimate_send :: "'w services \<Rightarrow> departed_groups \<Rightarrow> client_outbox_message \<Rightarrow> send \<Rightarrow> bool" where
  "legitimate_send sv dg m s =
     (case s of
        Send_Direct recipient body t \<Rightarrow>
          om_kind m = Kind_Direct \<and> parse_recipient (sv_ext sv) (om_recipient m) = Some recipient \<and>
          body = Body_Data (direct_message m) \<and> t = om_timestamp m
      | Send_Group key body t \<Rightarrow>
          om_kind m = Kind_Group \<and> \<not> departed_contains dg (om_recipient m) \<and>
          (\<exists>g. group_contains_local_aci g (local_aci sv) \<and> body = Body_Data (group_message m key g)) \<and>
          t = om_timestamp m)"

lemma attempt_sends:
  assumes "sv_repo sv = storage_repository st"
    and "attempt_outbox_message (logged sv) m b = (res, b1)"
  shows "\<exists>new. sends b1 = sends b @ new \<and> length new \<le> 1 \<and> (\<forall>s \<in> set new. legitimate_send sv (bk_departed b) m s) \<and>
    (\<forall>sent. res = Inr sent \<longrightarrow> new \<noteq> [] \<and> sm_timestamp sent = om_timestamp m)"
proof (cases "om_kind m")
  case Kind_Direct
  then show ?thesis
    using assms(2)
    by (auto simp: attempt_outbox_message_def legitimate_send_def
        split: option.splits prod.splits sum.splits dest!: perform_logged)
next
  case Kind_Group
  obtain r b2 where r: "resolve_active_group (logged sv) (om_recipient m) b = (r, b2)"
    by (metis prod.exhaust)
  note resolved = resolve_active_group_logged [OF assms(1) r]
  consider e where "r = Inl e" | "r = Inr None" | key g where "r = Inr (Some (key, g))"
    by (metis option.exhaust sum.exhaust prod.exhaust)
  then show ?thesis
  proof cases
    case 3
    then have ok: "\<not> departed_contains (bk_departed b) (om_recipient m)" "group_contains_local_aci g (local_aci sv)"
      using resolved by auto
    then show ?thesis
      using assms(2) Kind_Group r 3 resolved
      by (auto simp: attempt_outbox_message_def legitimate_send_def
          split: prod.splits sum.splits dest!: perform_logged)
  qed (use assms(2) Kind_Group r resolved in \<open>auto simp: attempt_outbox_message_def\<close>)
qed

subsection \<open>What happens to the stored entry\<close>

text \<open>
  The outbox over services whose storage meets the contract of the outbox table and whose clock
  leaves it alone.
\<close>

locale outbox_client = outbox_system "sv_repo sv" inv entries "sv_manager sv"
  for sv :: "'w services" and inv :: "'w \<Rightarrow> bool" and entries :: "'w \<Rightarrow> outbox_entries" +
  assumes clock_law: "inv w \<Longrightarrow> sv_wall_clock_ms sv w = (now, w1) \<Longrightarrow> inv w1 \<and> entries w1 = entries w"

lemma performE:
  assumes "perform f b = (r, b1)"
  obtains w1 where "f (bk_world b) = (r, w1)" "b1 = b\<lparr>bk_world := w1\<rparr>"
  using assms that by (auto simp: perform_def split: prod.splits)

text \<open>The abstract effect of settling an attempt on the table.\<close>

definition terminal_failure :: "client_outbox_message \<Rightarrow> outbox_attempt_error \<Rightarrow> bool" where
  "terminal_failure m e = (\<not> should_retry e \<or> MAX_OUTBOX_ATTEMPTS \<le> saturating_add_word (om_attempts m) 1)"

definition settled ::
  "u64 \<Rightarrow> client_outbox_message \<Rightarrow> outbox_attempt_error + sent_message \<Rightarrow> outbox_entries \<Rightarrow> outbox_entries" where
  "settled now m result E =
     (case result of
        Inr _ \<Rightarrow> E(om_id m := None)
      | Inl e \<Rightarrow>
          if terminal_failure m e then E(om_id m := None)
          else let n = saturating_add_word (om_attempts m) 1
               in E(om_id m \<mapsto> (m\<lparr>om_attempts := n\<rparr>, saturating_add_word now (retry_delay_ms n))))"

context outbox_client
begin

lemma perform_kept:
  assumes "\<And>w r w1. inv w \<Longrightarrow> f w = (r, w1) \<Longrightarrow> inv w1 \<and> entries w1 = entries w"
    and "inv (bk_world b)" "perform f b = (r, b1)"
  shows "inv (bk_world b1) \<and> entries (bk_world b1) = entries (bk_world b)"
  using assms by (auto simp: perform_def split: prod.splits)

lemma clock_kept:
  "inv (bk_world b) \<Longrightarrow> perform (sv_wall_clock_ms sv) b = (r, b1) \<Longrightarrow>
     inv (bk_world b1) \<and> entries (bk_world b1) = entries (bk_world b)"
  by (rule perform_kept [OF clock_law])

lemma groups_kept:
  "inv (bk_world b) \<Longrightarrow> perform (so_groups (sv_repo sv)) b = (r, b1) \<Longrightarrow>
     inv (bk_world b1) \<and> entries (bk_world b1) = entries (bk_world b)"
  by (rule perform_kept [OF groups_law])

lemma active_group_kept:
  "inv (bk_world b) \<Longrightarrow> perform (so_active_group (sv_repo sv) key a) b = (r, b1) \<Longrightarrow>
     inv (bk_world b1) \<and> entries (bk_world b1) = entries (bk_world b)"
  by (rule perform_kept [OF active_group_law])

lemma projected_kept:
  "inv (bk_world b) \<Longrightarrow> perform (so_mark_sent_message_projected (sv_repo sv) th t) b = (r, b1) \<Longrightarrow>
     inv (bk_world b1) \<and> entries (bk_world b1) = entries (bk_world b)"
  by (rule perform_kept [OF projected_law])

lemma send_kept:
  "inv (bk_world b) \<Longrightarrow> perform (sp_send_message (sv_manager sv) sid c t) b = (r, b1) \<Longrightarrow>
     inv (bk_world b1) \<and> entries (bk_world b1) = entries (bk_world b)"
  by (rule perform_kept [OF send_law])

lemma send_group_kept:
  "inv (bk_world b) \<Longrightarrow> perform (sp_send_message_to_group (sv_manager sv) key c t) b = (r, b1) \<Longrightarrow>
     inv (bk_world b1) \<and> entries (bk_world b1) = entries (bk_world b)"
  by (rule perform_kept [OF send_group_law])

lemma scan_kept:
  assumes "inv (bk_world b)" "scan_active_groups sv identifier b = (r, b1)"
  shows "inv (bk_world b1) \<and> entries (bk_world b1) = entries (bk_world b)"
proof -
  obtain g b2 where p: "perform (so_groups (sv_repo sv)) b = (g, b2)" by (metis prod.exhaust)
  have "bk_world b1 = bk_world b2"
    using assms(2) by (auto simp: scan_active_groups_def p split: sum.splits option.splits prod.splits)
  then show ?thesis using groups_kept [OF assms(1) p] by simp
qed

lemma resolve_kept:
  assumes "inv (bk_world b)" "resolve_active_group sv identifier b = (r, b1)"
  shows "inv (bk_world b1) \<and> entries (bk_world b1) = entries (bk_world b)"
proof (cases "departed_contains (bk_departed b) identifier")
  case True
  then show ?thesis using assms by (simp add: resolve_active_group_def)
next
  case False
  then have res: "resolve_active_group_in_store sv identifier b = (r, b1)"
    using assms(2) by (simp add: resolve_active_group_def)
  show ?thesis
  proof (cases "group_key_for_identifier identifier (bk_cache b)")
    case None
    then show ?thesis using res scan_kept [OF assms(1)] by (simp add: resolve_active_group_in_store_def)
  next
    case (Some key)
    obtain a b2 where p: "perform (so_active_group (sv_repo sv) key (local_aci sv)) b = (a, b2)"
      by (cases "perform (so_active_group (sv_repo sv) key (local_aci sv)) b")
    note kept = active_group_kept [OF assms(1) p]
    have "b1 = b2 \<or> scan_active_groups sv identifier b2 = (r, b1)"
      using res Some p by (auto simp: resolve_active_group_in_store_def split: sum.splits option.splits)
    then show ?thesis using kept scan_kept by fastforce
  qed
qed

lemma attempt_kept:
  assumes "inv (bk_world b)" "attempt_outbox_message sv m b = (r, b1)"
  shows "inv (bk_world b1) \<and> entries (bk_world b1) = entries (bk_world b)"
  using assms
  by (auto simp: attempt_outbox_message_def
      split: client_outbox_kind.splits option.splits prod.splits sum.splits
      dest: send_kept send_group_kept resolve_kept)
     (metis resolve_kept send_group_kept)+

lemma mark_sent_loop_kept:
  "inv (bk_world b) \<Longrightarrow> mark_sent_loop sv sent left b = (r, b1) \<Longrightarrow>
     inv (bk_world b1) \<and> entries (bk_world b1) = entries (bk_world b)"
proof (induction left arbitrary: b)
  case Nil
  then show ?case
    by (subst (asm) mark_sent_loop.simps)
       (auto split: prod.splits sum.splits if_splits dest: projected_kept)
next
  case (Cons d left)
  obtain r0 b0 where p: "perform (so_mark_sent_message_projected (sv_repo sv) (sm_thread sent) (sm_timestamp sent)) b = (r0, b0)"
    by (metis prod.exhaust)
  note kept = projected_kept [OF Cons.prems(1) p]
  from Cons.prems(2) p have "(r, b1) = (r0, b0) \<or> mark_sent_loop sv sent left b0 = (r, b1)"
    by (subst (asm) mark_sent_loop.simps) (auto split: sum.splits if_splits)
  then show ?case using Cons.IH kept by auto
qed

lemma report_kept:
  "inv (bk_world b) \<Longrightarrow>
     inv (bk_world (mark_sent_message_projected_or_report sv sent b)) \<and>
     entries (bk_world (mark_sent_message_projected_or_report sv sent b)) = entries (bk_world b)"
  by (auto simp: mark_sent_message_projected_or_report_def mark_sent_message_projected_def emit_def
      split: prod.splits sum.splits dest: mark_sent_loop_kept)

lemma finish_settles:
  assumes inv: "inv (bk_world b)" and entry: "entries (bk_world b) (om_id m) = Some (m, d)"
    and fin: "finish_outbox_attempt sv m result b = (r, b1)"
  shows "inv (bk_world b1) \<and>
    (case r of Inl _ \<Rightarrow> entries (bk_world b1) = entries (bk_world b)
     | Inr _ \<Rightarrow> \<exists>now. entries (bk_world b1) = settled now m result (entries (bk_world b)))"
proof -
  have complete: "inv (bk_world b2) \<and> (case r of Inl _ \<Rightarrow> entries (bk_world b2) = entries (bk_world b)
      | Inr _ \<Rightarrow> entries (bk_world b2) = (entries (bk_world b))(om_id m := None))"
    if "perform (so_complete_outbox_message (sv_repo sv) (om_id m)) b = (r, b2)" for r b2
    using that
  proof (rule performE)
    fix w1
    assume "so_complete_outbox_message (sv_repo sv) (om_id m) (bk_world b) = (r, w1)" "b2 = b\<lparr>bk_world := w1\<rparr>"
    with complete_law [OF inv this(1)] show ?thesis by (cases r) simp_all
  qed
  have deferral: "inv (bk_world b3) \<and> (case r of Inl _ \<Rightarrow> entries (bk_world b3) = entries (bk_world b)
      | Inr _ \<Rightarrow> entries (bk_world b3) = (entries (bk_world b))(om_id m \<mapsto> (m\<lparr>om_attempts := n\<rparr>, at)))"
    if "perform (sv_wall_clock_ms sv) b = (now, b2)"
      "perform (so_defer_outbox_message (sv_repo sv) (om_id m) n at) b2 = (r, b3)" for now b2 n at r b3
    using that(2)
  proof (rule performE)
    fix w1
    assume w1: "so_defer_outbox_message (sv_repo sv) (om_id m) n at (bk_world b2) = (r, w1)" "b3 = b2\<lparr>bk_world := w1\<rparr>"
    have "inv (bk_world b2)" "entries (bk_world b2) = entries (bk_world b)"
      using clock_kept [OF inv that(1)] by simp_all
    with defer_law [OF _ _ w1(1), of m d] entry w1(2) show ?thesis by (cases r) simp_all
  qed
  show ?thesis
    using fin
    by (auto simp: finish_outbox_attempt_def settled_def terminal_failure_def Let_def
        split: sum.splits if_splits prod.splits dest!: complete deferral)
qed

lemma retry_message_settles:
  fixes auth :: bool
  assumes inv: "inv (bk_world b)" and entry: "entries (bk_world b) (om_id m) = Some (m, d)"
  defines "b9 \<equiv> retry_outbox_message sv auth m b"
  shows "inv (bk_world b9) \<and>
    (entries (bk_world b9) = entries (bk_world b) \<or>
     (\<exists>now result. entries (bk_world b9) = settled now m result (entries (bk_world b))))"
proof (cases "outbox_message_is_attemptable (om_kind m) auth")
  case False
  then show ?thesis using inv by (simp add: b9_def retry_outbox_message_def)
next
  case True
  obtain result b1 where a: "attempt_outbox_message sv m b = (result, b1)"
    by (cases "attempt_outbox_message sv m b")
  define b2 where "b2 = (case result of Inr sent \<Rightarrow> mark_sent_message_projected_or_report sv sent b1 | Inl _ \<Rightarrow> b1)"
  obtain r b3 where f: "finish_outbox_attempt sv m result b2 = (r, b3)"
    by (cases "finish_outbox_attempt sv m result b2")
  have kept: "inv (bk_world b2)" "entries (bk_world b2) = entries (bk_world b)"
    using attempt_kept [OF inv a] report_kept [of b1] by (auto simp: b2_def split: sum.splits)
  have "bk_world b9 = bk_world b3"
    using True a f
    by (auto simp: b9_def retry_outbox_message_def b2_def [symmetric] emit_def Let_def split: sum.splits)
  then show ?thesis
    using finish_settles [OF kept(1) _ f, of d] entry kept(2) by (cases r) auto
qed

end

text \<open>What a round of retries may do to the table.\<close>

definition retried :: "outbox_entries \<Rightarrow> outbox_entries \<Rightarrow> bool" where
  "retried E F \<longleftrightarrow>
     (\<forall>i. F i = E i \<or> F i = None \<or>
        (\<exists>m d d1. E i = Some (m, d) \<and>
           F i = Some (m\<lparr>om_attempts := saturating_add_word (om_attempts m) 1\<rparr>, d1) \<and>
           saturating_add_word (om_attempts m) 1 < MAX_OUTBOX_ATTEMPTS))"

lemma retried_refl: "retried E E"
  by (simp add: retried_def)

lemma settled_other: "j \<noteq> om_id m \<Longrightarrow> settled now m result E j = E j"
  by (simp add: settled_def Let_def split: sum.split)

definition new_entry :: "new_outbox_message \<Rightarrow> int \<Rightarrow> u64 \<Rightarrow> u32 \<Rightarrow> client_outbox_message" where
  "new_entry request i t n =
     \<lparr>om_id = i, om_kind = no_kind request, om_recipient = no_recipient request,
      om_body = no_body request, om_timestamp = t, om_attempts = n\<rparr>"

definition save_failure :: "outbox_attempt_error \<Rightarrow> bool" where
  "save_failure e \<longleftrightarrow> (\<exists>s. e = classify (''Could not save the message in the encrypted outbox: '' @ s))"

lemma settled_new:
  assumes "om_id m = i" "E i = None" "om_attempts m = 0"
  shows "settled now m result (E(i \<mapsto> (m, 0))) =
    (case result of Inr _ \<Rightarrow> E
     | Inl e \<Rightarrow> if should_retry e then E(i \<mapsto> (m\<lparr>om_attempts := 1\<rparr>, saturating_add_word now (retry_delay_ms 1))) else E)"
proof -
  have "saturating_add_word (0 :: u32) 1 = 1" "\<not> (5 :: u32) \<le> 1"
    by (simp_all add: saturating_add_word_def word_le_nat_alt)
  then show ?thesis
    using assms
    by (auto simp: settled_def terminal_failure_def MAX_OUTBOX_ATTEMPTS_def Let_def fun_eq_iff split: sum.split)
qed

lemma retried_settled:
  "E (om_id m) = Some (m, d) \<Longrightarrow> retried E (settled now m result E)"
  unfolding retried_def settled_def terminal_failure_def Let_def
  by (auto split: sum.splits if_splits simp: not_le)

context outbox_client
begin

lemma retry_fold:
  fixes auth :: bool
  assumes "inv (bk_world b)" "distinct (map om_id ms)"
    and "\<And>m. m \<in> set ms \<Longrightarrow> \<exists>d. entries (bk_world b) (om_id m) = Some (m, d)"
  defines "b9 \<equiv> fold (retry_outbox_message sv auth) ms b"
  shows "inv (bk_world b9) \<and>
    (\<forall>i. i \<notin> om_id ` set ms \<longrightarrow> entries (bk_world b9) i = entries (bk_world b) i) \<and>
    retried (entries (bk_world b)) (entries (bk_world b9))"
  unfolding b9_def using assms(1-3)
proof (induction ms arbitrary: b)
  case Nil
  then show ?case by (simp add: retried_def)
next
  case (Cons m ms)
  define b1 where "b1 = retry_outbox_message sv auth m b"
  obtain d where entry: "entries (bk_world b) (om_id m) = Some (m, d)" using Cons.prems(3) by auto
  note step = retry_message_settles [OF Cons.prems(1) entry, of auth, folded b1_def]
  have other: "entries (bk_world b1) i = entries (bk_world b) i" if "i \<noteq> om_id m" for i
    using step settled_other [OF that] by auto
  have head: "retried (entries (bk_world b)) (entries (bk_world b1))"
    using step retried_settled [of "entries (bk_world b)", OF entry] retried_refl by metis
  have "\<exists>d. entries (bk_world b1) (om_id n) = Some (n, d)" if "n \<in> set ms" for n
  proof -
    have "om_id n \<noteq> om_id m" using Cons.prems(2) that by (auto simp: image_iff)
    then show ?thesis using Cons.prems(3) [of n] that other [of "om_id n"] by auto
  qed
  note rest = Cons.IH [of b1, OF _ _ this]
  have r: "inv (bk_world (fold (retry_outbox_message sv auth) ms b1))"
      "\<And>i. i \<notin> om_id ` set ms \<Longrightarrow>
         entries (bk_world (fold (retry_outbox_message sv auth) ms b1)) i = entries (bk_world b1) i"
      "retried (entries (bk_world b1)) (entries (bk_world (fold (retry_outbox_message sv auth) ms b1)))"
    using rest step Cons.prems(2) by auto
  let ?F = "entries (bk_world (fold (retry_outbox_message sv auth) ms b1))"
  have "?F i = entries (bk_world b1) i \<or> entries (bk_world b1) i = entries (bk_world b) i" for i
    using r(2) [of i] other [of i] Cons.prems(2) by (cases "i = om_id m") auto
  then have "retried (entries (bk_world b)) ?F"
    using head r(3) unfolding retried_def by metis
  then show ?case using r other by (auto simp: b1_def)
qed

lemma retry_outbox_table:
  assumes inv: "inv (bk_world b)"
  shows "inv (bk_world (retry_outbox sv auth b)) \<and>
    retried (entries (bk_world b)) (entries (bk_world (retry_outbox sv auth b)))"
proof -
  obtain now b1 where c: "perform (sv_wall_clock_ms sv) b = (now, b1)" by (cases "perform (sv_wall_clock_ms sv) b")
  obtain r b2 where d: "perform (so_due_outbox_messages (sv_repo sv) now) b1 = (r, b2)"
    by (cases "perform (so_due_outbox_messages (sv_repo sv) now) b1")
  obtain w2 where w2: "so_due_outbox_messages (sv_repo sv) now (bk_world b1) = (r, w2)" "b2 = b1\<lparr>bk_world := w2\<rparr>"
    using d by (rule performE)
  note k = clock_kept [OF inv c] and due = due_law [OF _ w2(1)]
  show ?thesis
  proof (cases r)
    case (Inl e)
    then show ?thesis
      using k due w2(2) by (auto simp: retry_outbox_def c d emit_def retried_def)
  next
    case (Inr ms)
    have "inv (bk_world b2)" "entries (bk_world b2) = entries (bk_world b)" "distinct (map om_id ms)"
      using k due w2(2) Inr by auto
    moreover have "\<exists>d. entries (bk_world b2) (om_id m) = Some (m, d)" if "m \<in> set ms" for m
      using k due w2(2) Inr that by auto
    ultimately show ?thesis
      using retry_fold [of b2 ms auth] by (simp add: retry_outbox_def c d Inr)
  qed
qed

lemma next_timestamp_kept:
  assumes "inv (bk_world b)" "next_timestamp sv b = Some (t, b1)"
  shows "inv (bk_world b1) \<and> entries (bk_world b1) = entries (bk_world b)"
proof -
  obtain now b2 where c: "perform (sv_wall_clock_ms sv) b = (now, b2)" by (cases "perform (sv_wall_clock_ms sv) b")
  have "bk_world b1 = bk_world b2" using assms(2) by (auto simp: next_timestamp_def c)
  then show ?thesis using clock_kept [OF assms(1) c] by simp
qed

lemma enqueue_and_send_settles:
  assumes inv: "inv (bk_world b)" and run: "enqueue_and_send sv request b = Some (res, b9)"
  defines "E \<equiv> entries (bk_world b)" and "F \<equiv> entries (bk_world b9)"
  shows "inv (bk_world b9) \<and>
    ((res = Inr () \<and> F = E) \<or>
     (\<exists>e. res = Inl e \<and> F = E \<and> (\<not> should_retry e \<or> save_failure e)) \<or>
     (\<exists>e i t n d. res = Inl e \<and> E i = None \<and> n \<le> 1 \<and> F = E(i \<mapsto> (new_entry request i t n, d))))"
proof -
  obtain t b1 where ts: "next_timestamp sv b = Some (t, b1)"
    using run by (auto simp: enqueue_and_send_def split: option.splits)
  have k1: "inv (bk_world b1)" "entries (bk_world b1) = E"
    using next_timestamp_kept [OF inv ts] by (simp_all add: E_def)
  obtain r b2 where p: "perform (so_enqueue_outbox_message (sv_repo sv) (no_kind request) (no_recipient request)
      (no_body request) t) b1 = (r, b2)" by (metis prod.exhaust)
  then obtain w2 where w2: "so_enqueue_outbox_message (sv_repo sv) (no_kind request) (no_recipient request)
      (no_body request) t (bk_world b1) = (r, w2)" "b2 = b1\<lparr>bk_world := w2\<rparr>"
    by (rule performE)
  note enq = enqueue_law [OF k1(1) w2(1)]
  show ?thesis
  proof (cases r)
    case (Inl e)
    then show ?thesis
      using run enq k1 w2(2) by (auto simp: enqueue_and_send_def ts p F_def save_failure_def)
  next
    case (Inr i)
    define m where "m = new_entry request i t 0"
    have e2: "inv (bk_world b2)" "E i = None" "entries (bk_world b2) = E(i \<mapsto> (m, 0))"
      using enq Inr k1 w2(2) by (simp_all add: m_def new_entry_def)
    obtain result b3 where a: "attempt_outbox_message sv m b2 = (result, b3)"
      by (cases "attempt_outbox_message sv m b2")
    define b4 where "b4 = (case result of Inr sent \<Rightarrow> mark_sent_message_projected_or_report sv sent b3 | Inl _ \<Rightarrow> b3)"
    obtain f b5 where f: "finish_outbox_attempt sv m result b4 = (f, b5)"
      by (cases "finish_outbox_attempt sv m result b4")
    have k4: "inv (bk_world b4)" "entries (bk_world b4) = E(i \<mapsto> (m, 0))"
      using attempt_kept [OF e2(1) a] report_kept [of b3] e2(3) by (auto simp: b4_def split: sum.splits)
    have "om_id m = i" by (simp add: m_def new_entry_def)
    then have fin: "inv (bk_world b5) \<and> (case f of Inl _ \<Rightarrow> entries (bk_world b5) = E(i \<mapsto> (m, 0))
        | Inr _ \<Rightarrow> \<exists>now. entries (bk_world b5) = settled now m result (E(i \<mapsto> (m, 0))))"
      using finish_settles [OF k4(1) _ f, of 0, unfolded k4(2)] by simp
    have res: "(res, b9) = (case result of Inr _ \<Rightarrow> (map_err classify f, b5) | Inl e \<Rightarrow> (Inl e, b5))"
      using run by (simp add: enqueue_and_send_def ts p Inr new_entry_def [symmetric] m_def [symmetric] a
          b4_def [symmetric] f Let_def)
    then have b9: "b9 = b5" by (simp split: sum.splits)
    have none: "E i = None" "om_attempts m = 0" by (simp_all add: e2 m_def new_entry_def)
    have one: "m\<lparr>om_attempts := 1\<rparr> = new_entry request i t 1" by (simp add: m_def new_entry_def)
    have stays: ?thesis if "res = Inl e" "F = E(i \<mapsto> (new_entry request i t n, d))" "n \<le> 1" for e n d
      using that fin b9 none(1) by blast
    show ?thesis
    proof (cases result)
      case (Inr sent)
      then have "res = map_err classify f" using res by simp
      then show ?thesis
        using fin b9 Inr settled_new [of m i E, OF \<open>om_id m = i\<close> none] stays [of _ 0 0]
        by (cases f) (auto simp: F_def m_def)
    next
      case (Inl e)
      then have err: "res = Inl e" using res by simp
      show ?thesis
      proof (cases f)
        case (Inl x)
        then have "F = E(i \<mapsto> (new_entry request i t 0, 0))" using fin b9 by (simp add: F_def m_def)
        then show ?thesis by (rule stays [OF err]) simp
      next
        case (Inr u)
        then obtain now where "F = settled now m result (E(i \<mapsto> (m, 0)))" using fin b9 by (auto simp: F_def)
        then have F: "F = (if should_retry e
            then E(i \<mapsto> (new_entry request i t 1, saturating_add_word now (retry_delay_ms 1))) else E)"
          using settled_new [of m i E, OF \<open>om_id m = i\<close> none] one \<open>result = Inl e\<close> by simp
        show ?thesis
        proof (cases "should_retry e")
          case True
          then show ?thesis using F by (intro stays [OF err _ order_refl]) simp
        next
          case False
          then show ?thesis using F err fin b9 by auto
        qed
      qed
    qed
  qed
qed

end

lemma retried_attempts:
  assumes "retried E F" and "\<forall>i m d. E i = Some (m, d) \<longrightarrow> om_attempts m < MAX_OUTBOX_ATTEMPTS"
  shows "\<forall>i m d. F i = Some (m, d) \<longrightarrow> om_attempts m < MAX_OUTBOX_ATTEMPTS"
proof (intro allI impI)
  fix i m d
  assume F: "F i = Some (m, d)"
  from assms(1) have "F i = E i \<or> F i = None \<or>
      (\<exists>n d d1. E i = Some (n, d) \<and> F i = Some (n\<lparr>om_attempts := saturating_add_word (om_attempts n) 1\<rparr>, d1) \<and>
         saturating_add_word (om_attempts n) 1 < MAX_OUTBOX_ATTEMPTS)"
    unfolding retried_def by (rule spec)
  then show "om_attempts m < MAX_OUTBOX_ATTEMPTS"
  proof (elim disjE exE conjE)
    assume "F i = E i"
    then show ?thesis using assms(2) F by metis
  next
    assume "F i = None"
    then show ?thesis using F by simp
  next
    fix n d0 d1
    assume "F i = Some (n\<lparr>om_attempts := saturating_add_word (om_attempts n) 1\<rparr>, d1)"
      "saturating_add_word (om_attempts n) 1 < MAX_OUTBOX_ATTEMPTS"
    then show ?thesis using F by simp
  qed
qed

subsection \<open>Services for the examples\<close>

definition sample_services :: "fake_world services" where
  "sample_services =
     \<lparr>sv_ext = sample_externals,
      sv_repo = fake_storage, sv_manager = fake_signal_protocol [7],
      sv_wall_clock_ms = (\<lambda>w. (1000, w)), sv_read_file = (\<lambda>_ w. (Inl ''no such file'', w))\<rparr>"

text \<open>The same with a network that refuses every send for now.\<close>

definition offline_services :: "fake_world services" where
  "offline_services =
     sample_services\<lparr>sv_manager := (fake_signal_protocol [7])\<lparr>
       sp_send_message := (\<lambda>_ _ _ w. (Inl ''offline'', w)),
       sp_send_message_to_group := (\<lambda>_ _ _ w. (Inl ''offline'', w))\<rparr>\<rparr>"

definition sample_backend :: "fake_world backend" where
  "sample_backend =
     \<lparr>bk_world = fake_new, bk_cache = metadata_cache_default, bk_departed = departed_groups_new,
      bk_latest = 0, bk_events = []\<rparr>"

lemma sample_services_simps [simp]:
  "sv_repo sample_services = fake_storage" "sv_manager sample_services = fake_signal_protocol [7]"
  "sv_wall_clock_ms sample_services w = (1000, w)"
  by (simp_all add: sample_services_def)

interpretation sample_outbox: outbox_client sample_services fake_inv fake_entries
proof (intro outbox_client.intro outbox_client_axioms.intro)
  show "outbox_system (sv_repo sample_services) fake_inv fake_entries (sv_manager sample_services)"
    using fake_outbox.outbox_system_axioms by simp
qed simp_all

lemma offline_services_simps [simp]:
  "sv_repo offline_services = fake_storage" "sv_wall_clock_ms offline_services w = (1000, w)"
  "sv_ext offline_services = sv_ext sample_services"
  "sp_send_message (sv_manager offline_services) r c t w = (Inl ''offline'', w)"
  "sp_send_message_to_group (sv_manager offline_services) k c t w = (Inl ''offline'', w)"
  by (simp_all add: offline_services_def)

interpretation offline_outbox: outbox_client offline_services fake_inv fake_entries
proof (intro outbox_client.intro outbox_system.intro outbox_client_axioms.intro outbox_system_axioms.intro)
  show "outbox_store (sv_repo offline_services) fake_inv fake_entries"
    using fake_outbox.outbox_store_axioms by simp
qed auto

lemma fake_new_inv [simp]: "fake_inv fake_new"
  by (simp add: fake_inv_def fake_new_def)

lemma sample_backend_simps [simp]:
  "bk_world sample_backend = fake_new" "bk_latest sample_backend = 0"
  by (simp_all add: sample_backend_def)

section \<open>Properties of the outbox\<close>

lemma to_ascii_lowercase_append: "to_ascii_lowercase (a @ b) = to_ascii_lowercase a @ to_ascii_lowercase b"
  by (simp add: to_ascii_lowercase_def)

lemma fatal_markers_lower: "list_all (\<lambda>k. to_ascii_lowercase k = k) fatal_markers"
  by (simp add: fatal_markers_def to_ascii_lowercase_def ascii_lower_def)

lemma contains_refl [simp]: "contains k k"
  by (simp add: contains_iff_sublist)

lemma classify_marked:
  assumes "k \<in> set fatal_markers"
  shows "\<not> should_retry (classify (a @ k @ c))"
proof -
  have "to_ascii_lowercase k = k" using assms fatal_markers_lower by (simp add: list_all_iff)
  then have "contains (to_ascii_lowercase (a @ k @ c)) k"
    unfolding to_ascii_lowercase_append by (metis contains_append contains_refl)
  then have "list_ex (contains (to_ascii_lowercase (a @ k @ c))) fatal_markers"
    using assms by (auto simp: list_ex_iff)
  then show ?thesis by (simp add: classify_def should_retry_def ox_permanent_def)
qed


text \<open>
  C9. Queueing and sending a new message over storage that keeps the outbox contract: on success the table is as before;
  a failure either is one that must not be retried, or happened while saving (in both cases the table is as before), or leaves exactly
  one new entry with the message, its timestamp and at most one counted attempt.
\<close>

theorem enqueue_and_send_keeps_retryable:
  assumes "outbox_client sv ok entries" and "ok (bk_world b)"
    and "enqueue_and_send sv request b = Some (res, b9)"
  shows "ok (bk_world b9) \<and>
    ((res = Inr () \<and> entries (bk_world b9) = entries (bk_world b)) \<or>
     (\<exists>e. res = Inl e \<and> entries (bk_world b9) = entries (bk_world b) \<and> (save_failure e \<or> \<not> should_retry e)) \<or>
     (\<exists>e i t n d. res = Inl e \<and> entries (bk_world b) i = None \<and> n \<le> 1 \<and>
        entries (bk_world b9) = (entries (bk_world b))(i \<mapsto> (new_entry request i t n, d))))"
  using outbox_client.enqueue_and_send_settles [OF assms] by blast

definition sample_request :: new_outbox_message where
  "sample_request = \<lparr>no_kind = Kind_Direct, no_recipient = ''0a'', no_body = ''hi''\<rparr>"

lemma offline_run: "\<exists>res b9. enqueue_and_send offline_services sample_request sample_backend = Some (res, b9)"
proof -
  have "next_at 1000 0 \<noteq> None" by (simp add: next_at_def next_at_pass_def checked_succ_def)
  then show ?thesis
    by (auto simp: enqueue_and_send_def next_timestamp_def perform_def fake_storage_def fake_enqueue_def Let_def
        split: option.split prod.split)
qed

theorem enqueue_and_send_keeps_retryable_witness:
  "\<exists>res b9. enqueue_and_send offline_services sample_request sample_backend = Some (res, b9) \<and>
     fake_inv (bk_world b9)"
proof -
  obtain res b9 where run: "enqueue_and_send offline_services sample_request sample_backend = Some (res, b9)"
    using offline_run by blast
  moreover have "fake_inv (bk_world sample_backend)" by simp
  ultimately show ?thesis
    using enqueue_and_send_keeps_retryable [OF offline_outbox.outbox_client_axioms _ run] by blast
qed

text \<open>
  C23. A round of retries only removes entries or counts one more failed attempt on them, and keeps
  every stored entry below the limit of five attempts.
\<close>

theorem retry_outbox_bounded:
  assumes "outbox_client sv ok entries" and "ok (bk_world b)"
    and "\<forall>i m d. entries (bk_world b) i = Some (m, d) \<longrightarrow> om_attempts m < MAX_OUTBOX_ATTEMPTS"
  shows "ok (bk_world (retry_outbox sv authoritative b)) \<and>
    retried (entries (bk_world b)) (entries (bk_world (retry_outbox sv authoritative b))) \<and>
    (\<forall>i m d. entries (bk_world (retry_outbox sv authoritative b)) i = Some (m, d) \<longrightarrow>
       om_attempts m < MAX_OUTBOX_ATTEMPTS)"
  using outbox_client.retry_outbox_table [OF assms(1,2)] retried_attempts [OF _ assms(3)] by blast

definition queued_backend :: "fake_world backend" where
  "queued_backend =
     sample_backend\<lparr>bk_world := snd (fake_enqueue Kind_Direct ''0a'' ''hi'' 7 fake_new)\<rparr>"

theorem retry_outbox_bounded_witness:
  "fake_entries (bk_world queued_backend) 1 \<noteq> None \<and>
   fake_inv (bk_world (retry_outbox offline_services True queued_backend))"
proof -
  have inv: "fake_inv (bk_world queued_backend)" "fake_entries (bk_world queued_backend) 1 \<noteq> None"
    by (simp_all add: queued_backend_def fake_enqueue_def fake_new_def fake_inv_def fake_entries_def Let_def)
  moreover have "\<forall>i m d. fake_entries (bk_world queued_backend) i = Some (m, d) \<longrightarrow> om_attempts m < MAX_OUTBOX_ATTEMPTS"
    by (auto simp: queued_backend_def fake_enqueue_def fake_new_def fake_entries_def Let_def MAX_OUTBOX_ATTEMPTS_def
        split: if_splits)
  ultimately show ?thesis
    using retry_outbox_bounded [OF offline_outbox.outbox_client_axioms, of queued_backend True] by blast
qed

text \<open>
  The delay before the next attempt doubles from five seconds with each failure up to the ninth and stays
  at 2,560 seconds from there: the one-hour limit the code applies last is never reached.
\<close>

lemma retry_delay_doubles:
  "retry_delay_ms attempts = 5000 * 2 ^ min (unat attempts) 9 \<and> retry_delay_ms attempts \<le> 2560000"
proof -
  have "min (unat attempts) 9 \<in> {0, 1, 2, 3, 4, 5, 6, 7, 8, 9}" by auto
  then show ?thesis unfolding retry_delay_ms_eq by (auto simp: word_le_nat_alt)
qed


end
