(* ===== verification/Projection.thy ===== *)
theory Projection
  imports Incoming Outbox
begin

section \<open>Showing, acknowledging and receipting messages (backend/projection.rs)\<close>

text \<open>
  The handlers of projection.rs over the state of \<^verbatim>\<open>Message_Projection\<close>: showing one message,
  processing the acknowledgements of the user interface in batches and, at shutdown, all of them, and the attempts to send
  delivery receipts. The sleeps, the tracing output and the task handles are left out; a receipt being sent is an entry of the task list.
\<close>

text \<open>What follows the handling of a tracked message, by its disposition.\<close>

definition settle_projection ::
  "'w services \<Rightarrow> content \<Rightarrow> u64 \<Rightarrow> projection_disposition \<Rightarrow> message_projection \<Rightarrow> 'w backend \<Rightarrow>
     message_projection \<times> 'w backend" where
  "settle_projection sv c delivery_id disposition p b =
     (let effect = projection_effect_of disposition
      in if \<not> pe_remove_pending effect then (p, b)
         else if \<not> pe_mark_projected effect then (snd (projection_release (sv_ext sv) delivery_id p), b)
         else
           case perform (so_mark_message_projected (sv_repo sv) c) b of
             (Inr _, b1) \<Rightarrow> (snd (projection_complete (sv_ext sv) delivery_id p), b1)
           | (Inl error, b1) \<Rightarrow>
               (snd (projection_release (sv_ext sv) delivery_id p),
                if sqlite_store_error_is_transient error then b1
                else emit (event_error
                  (''Could not record a handled Signal message: '' @ sse_display error) False) b1))"

definition project_content ::
  "'w services \<Rightarrow> (usize \<Rightarrow> transcode_env) \<Rightarrow> departed_groups \<Rightarrow> content \<Rightarrow> bool \<Rightarrow> message_projection \<Rightarrow>
     'w backend \<Rightarrow> (message_projection \<times> 'w backend) option" where
  "project_content sv te mid c authoritative p b =
     (if \<not> content_is_projectable (ct_body c) authoritative then Some (p, b)
      else
        case projection_track (sv_ext sv) c p of
          (None, p1) \<Rightarrow> Some (p1, b)
        | (Some delivery_id, p1) \<Rightarrow>
            map_option (\<lambda>(disposition, receipts, b1).
              settle_projection sv c delivery_id disposition (p1\<lparr>mp_delivery_receipts := receipts\<rparr>) b1)
              (handle_content sv te mid c delivery_id (mp_delivery_receipts p1) b))"

subsection \<open>Acknowledgements\<close>

definition acknowledge_message ::
  "'w services \<Rightarrow> u64 \<Rightarrow> message_projection \<Rightarrow> 'w backend \<Rightarrow> bool \<times> message_projection \<times> 'w backend" where
  "acknowledge_message sv delivery_id p b =
     (case map_of (mp_pending p) delivery_id of
        None \<Rightarrow> (True, p\<lparr>mp_acknowledgments := ack_unregister delivery_id (mp_acknowledgments p)\<rparr>, b)
      | Some c \<Rightarrow>
          (case perform (so_mark_message_projected (sv_repo sv) c) b of
             (Inr _, b1) \<Rightarrow> (True, snd (projection_complete (sv_ext sv) delivery_id p), b1)
           | (Inl error, b1) \<Rightarrow>
               (False, p,
                if sqlite_store_error_is_transient error then b1
                else emit (event_error
                  (''Could not acknowledge a displayed Signal message: '' @ sse_display error) False) b1)))"

definition ACKNOWLEDGMENT_BATCH_SIZE :: usize where
  "ACKNOWLEDGMENT_BATCH_SIZE = 64"

fun acknowledge_all ::
  "'w services \<Rightarrow> bool \<Rightarrow> u64 list \<Rightarrow> message_projection \<Rightarrow> 'w backend \<Rightarrow> message_projection \<times> 'w backend" where
  "acknowledge_all sv retry_failures [] p b = (p, b)"
| "acknowledge_all sv retry_failures (delivery_id # ids) p b =
     (case acknowledge_message sv delivery_id p b of
        (done, p1, b1) \<Rightarrow>
          let p2 = (if \<not> done \<and> retry_failures
                    then p1\<lparr>mp_acknowledgments := defer_retry delivery_id (mp_acknowledgments p1)\<rparr> else p1)
          in acknowledge_all sv retry_failures ids p2 b1)"

definition process_acknowledgments ::
  "'w services \<Rightarrow> bool \<Rightarrow> message_projection \<Rightarrow> 'w backend \<Rightarrow> usize \<times> message_projection \<times> 'w backend" where
  "process_acknowledgments sv retry_failures p b =
     (case take_ready ACKNOWLEDGMENT_BATCH_SIZE (mp_acknowledgments p) of
        (delivery_ids, inbox) \<Rightarrow>
          (length delivery_ids,
           acknowledge_all sv retry_failures delivery_ids (p\<lparr>mp_acknowledgments := inbox\<rparr>) b))"

abbreviation ready_acks :: "message_projection \<Rightarrow> u64 list" where
  "ready_acks p \<equiv> ai_ready (mp_acknowledgments p)"

text \<open>The inbox after a settled delivery, whichever way it was settled.\<close>

lemma complete_inbox:
  "ready_acks (snd (projection_complete x i p)) = ready_acks p \<or>
   ready_acks (snd (projection_complete x i p)) = filter (\<lambda>j. j \<noteq> i) (ready_acks p)"
  by (auto simp: projection_complete_def ack_unregister_def split: option.split)

lemma acknowledge_message_inbox:
  assumes "acknowledge_message sv i p b = (r, p1, b1)"
  shows "ready_acks p1 = ready_acks p \<or> ready_acks p1 = filter (\<lambda>j. j \<noteq> i) (ready_acks p)"
  using assms complete_inbox [of "sv_ext sv" i p]
  by (auto simp: acknowledge_message_def ack_unregister_def split: option.splits prod.splits sum.splits)

lemma acknowledge_all_ready:
  "acknowledge_all sv retry ids p b = (p1, b1) \<Longrightarrow> length (ready_acks p1) \<le> length (ready_acks p)"
proof (induction sv retry ids p b arbitrary: p1 b1 rule: acknowledge_all.induct)
  case (2 sv retry i ids p b)
  obtain r q c where a: "acknowledge_message sv i p b = (r, q, c)" by (cases "acknowledge_message sv i p b")
  have "length (ready_acks q) \<le> length (ready_acks p)"
    using acknowledge_message_inbox [OF a] by auto
  moreover define q2 where "q2 = (if \<not> r \<and> retry
      then q\<lparr>mp_acknowledgments := defer_retry i (mp_acknowledgments q)\<rparr> else q)"
  moreover have "ready_acks q2 = ready_acks q" by (simp add: q2_def defer_retry_def)
  moreover have "length (ready_acks p1) \<le> length (ready_acks q2)"
    using "2.IH" [OF a [symmetric] refl q2_def] "2.prems" a by (simp add: q2_def Let_def)
  ultimately show ?case by simp
qed simp

lemma process_acknowledgments_decreases:
  assumes "process_acknowledgments sv retry p b = (n, p1, b1)" "n \<noteq> 0"
  shows "length (ready_acks p1) < length (ready_acks p)"
proof -
  let ?ids = "fst (take_ready ACKNOWLEDGMENT_BATCH_SIZE (mp_acknowledgments p))"
  let ?a = "snd (take_ready ACKNOWLEDGMENT_BATCH_SIZE (mp_acknowledgments p))"
  have run: "n = length ?ids" "acknowledge_all sv retry ?ids (p\<lparr>mp_acknowledgments := ?a\<rparr>) b = (p1, b1)"
    using assms(1) by (auto simp: process_acknowledgments_def split: prod.splits)
  have "length (ready_acks p1) \<le> length (ai_ready ?a)"
    using acknowledge_all_ready [OF run(2)] by simp
  also have "\<dots> < length (ready_acks p)"
    using assms(2) run(1) by (simp add: take_ready_batch ACKNOWLEDGMENT_BATCH_SIZE_def)
  finally show ?thesis .
qed

text \<open>
  The loop of \<^verbatim>\<open>drain_acknowledgments\<close>. The inbox is closed, so that the plugin cannot add to it, and every batch
  makes the list of ready deliveries shorter.
\<close>

function drain_loop :: "'w services \<Rightarrow> message_projection \<Rightarrow> 'w backend \<Rightarrow> message_projection \<times> 'w backend" where
  "drain_loop sv p b =
     (case process_acknowledgments sv False p b of
        (n, p1, b1) \<Rightarrow> if n = 0 then (p1, b1) else drain_loop sv p1 b1)"
  by pat_completeness auto
termination
  by (relation "measure (\<lambda>(sv, p, b). length (ready_acks p))")
     (auto simp: process_acknowledgments_decreases [OF sym])

declare drain_loop.simps [simp del]

definition drain_acknowledgments ::
  "'w services \<Rightarrow> message_projection \<Rightarrow> 'w backend \<Rightarrow> message_projection \<times> 'w backend" where
  "drain_acknowledgments sv p b = drain_loop sv (p\<lparr>mp_acknowledgments := ack_close (mp_acknowledgments p)\<rparr>) b"

subsection \<open>Delivery receipts\<close>

record delivery_receipt_completion =
  rc_generation :: u64
  rc_receipt :: pending_delivery_receipt
  rc_result :: "presage_error + unit"

text \<open>\<open>send\<close> is the manager's \<^verbatim>\<open>send_message\<close>; the type of a receipt is its number in the protocol.\<close>

definition send_receipt_at_timestamp ::
  "(service_id \<Rightarrow> content_body \<Rightarrow> u64 \<Rightarrow> ('w, presage_error + unit) io) \<Rightarrow> service_id \<Rightarrow> u64 \<Rightarrow> int \<Rightarrow> u64 \<Rightarrow>
     ('w, presage_error + unit) io" where
  "send_receipt_at_timestamp send recipient message_timestamp receipt_type send_timestamp =
     send recipient (Body_Receipt \<lparr>rm_type = Some receipt_type, rm_timestamp = [message_timestamp]\<rparr>) send_timestamp"

definition RECEIPT_TYPE_DELIVERY :: int where
  "RECEIPT_TYPE_DELIVERY = 0"

definition spawn_delivery_receipt_attempt ::
  "u64 \<Rightarrow> pending_delivery_receipt \<Rightarrow> message_projection \<Rightarrow> message_projection" where
  "spawn_delivery_receipt_attempt generation receipt p =
     p\<lparr>mp_delivery_receipt_tasks := mp_delivery_receipt_tasks p @ [(generation, receipt)]\<rparr>"

text \<open>The body of a spawned task.\<close>

definition delivery_receipt_task ::
  "(service_id \<Rightarrow> content_body \<Rightarrow> u64 \<Rightarrow> ('w, presage_error + unit) io) \<Rightarrow> u64 \<Rightarrow> pending_delivery_receipt \<Rightarrow>
     ('w, delivery_receipt_completion) io" where
  "delivery_receipt_task send generation receipt w =
     (case send_receipt_at_timestamp send (pr_recipient receipt) (di_message_timestamp (pr_identity receipt))
             RECEIPT_TYPE_DELIVERY (pr_send_timestamp receipt) w of
        (result, w1) \<Rightarrow> (\<lparr>rc_generation = generation, rc_receipt = receipt, rc_result = result\<rparr>, w1))"

definition finish_delivery_receipt_attempt ::
  "delivery_receipt_completion \<Rightarrow> delivery_receipt_queue \<Rightarrow> 'w backend \<Rightarrow>
     string option \<times> delivery_receipt_queue \<times> 'w backend" where
  "finish_delivery_receipt_attempt completion receipts b =
     (let identity = pr_identity (rc_receipt completion)
      in case rc_result completion of
           Inr _ \<Rightarrow> (None, receipts_complete identity receipts, b)
         | Inl error \<Rightarrow>
             (case delivery_receipt_failure_action error of
                Failure_Retry \<Rightarrow> (None, receipts_retry identity False receipts, b)
              | Failure_Recover \<Rightarrow>
                  (Some (''Signal websocket closed while sending a delivery receipt: '' @ pre_display error),
                   receipts_retry identity True receipts, b)
              | Failure_Discard \<Rightarrow>
                  (None, receipts_complete identity receipts,
                   emit (event_error
                     (''Could not send a Signal delivery receipt: '' @ pre_display error) False) b)))"

definition abort_delivery_receipt_tasks :: "message_projection \<Rightarrow> message_projection" where
  "abort_delivery_receipt_tasks p =
     p\<lparr>mp_delivery_receipt_tasks := [],
       mp_delivery_receipts := receipts_release_in_flight (mp_delivery_receipts p)\<rparr>"

section \<open>Outcomes of showing a message\<close>

definition events_for :: "u64 \<Rightarrow> event list \<Rightarrow> event list" where
  "events_for delivery_id es = filter (\<lambda>e. ev_request_id e = delivery_id) es"

lemma events_for_append [simp]: "events_for i (es @ fs) = events_for i es @ events_for i fs"
  by (simp add: events_for_def)

lemma events_for_unrelated: "list_all (\<lambda>e. ev_request_id e = 0) es \<Longrightarrow> i \<noteq> 0 \<Longrightarrow> events_for i es = []"
  by (auto simp: events_for_def list_all_iff filter_empty_conv)

lemma carries_delivery_once: "carries_delivery i es \<Longrightarrow> i \<noteq> 0 \<Longrightarrow> length (events_for i es) = 1"
proof -
  assume "carries_delivery i es" "i \<noteq> 0"
  moreover from this obtain front e where "es = front @ [e]"
    by (metis append_butlast_last_id carries_delivery_def)
  ultimately show ?thesis
    using events_for_unrelated [of front i] by (simp add: carries_delivery_def) (simp add: events_for_def)
qed

lemma reports_unrelated: "list_all is_report es \<Longrightarrow> list_all (\<lambda>e. ev_request_id e = 0) es"
  by (auto simp: list_all_iff is_report_def)

text \<open>How many events carry the delivery id, by the disposition.\<close>

abbreviation marks :: "projection_disposition \<Rightarrow> nat" where
  "marks d \<equiv> if d = AwaitingAck then 1 else 0"

lemma emit_data_message_marks:
  assumes "emit_data_message sv te mid dp b = (d, b1)" "dp_delivery_id dp \<noteq> 0"
  shows "\<exists>es. bk_events b1 = bk_events b @ es \<and> length (events_for (dp_delivery_id dp) es) = marks d"
  using assms(1)
proof (cases rule: emit_data_message_cases)
  case (shown b0 gk title)
  from emit_projected_events [OF shown(4), of sv te gk title b0] obtain rs es
    where es: "bk_events b1 = bk_events b @ rs @ es" "list_all is_report rs" "carries_delivery (dp_delivery_id dp) es"
    using shown(2,3) by auto
  then show ?thesis
    using shown(1) events_for_unrelated [OF reports_unrelated assms(2)] carries_delivery_once [OF _ assms(2)]
    by (intro exI [of _ "rs @ es"]) simp
next
  case (hidden reports)
  then show ?thesis
    using events_for_unrelated [OF reports_unrelated assms(2)] by (intro exI [of _ reports]) simp
qed

lemma projection_delivery_ids [simp]:
  "dp_delivery_id (bare_projection sv c m i) = i" "dp_delivery_id (sent_projection sv c t m i) = i"
  by (simp_all add: bare_projection_def sent_projection_def dp_outgoing_new_def dp_incoming_new_def Let_def)

lemma enqueue_receipt_events:
  assumes "enqueue_receipt sv c receipts b = Some (receipts1, b1)"
  shows "\<exists>es. bk_events b1 = bk_events b @ es \<and> list_all (\<lambda>e. ev_request_id e = 0) es"
proof -
  have "bk_events b2 = bk_events b" if "next_timestamp sv b = Some (t, b2)" for t b2
    using that by (auto simp: next_timestamp_def split: prod.splits dest!: perform_events)
  then show ?thesis
    using assms
    by (auto simp: enqueue_receipt_def transient_error_def event_error_def event_default_def
        split: if_splits option.splits prod.splits)
qed

lemma handle_content_other:
  assumes "handle_content sv te mid c i receipts b = Some (d, receipts1, b1)" "\<And>m. ct_body c \<noteq> Body_Data m"
  shows "(\<exists>dp. dp_delivery_id dp = i \<and> emit_data_message sv te mid dp b = (d, b1)) \<or>
    d = Complete \<and> (b1 = b \<or> (\<exists>e. b1 = emit e b \<and> ev_request_id e = 0))"
proof -
  have shown: "\<exists>dp. dp_delivery_id dp = i \<and> emit_data_message sv te mid dp b = (d, b1)"
    if "(case emit_data_message sv te mid dp b of (d, b1) \<Rightarrow> Some (d, receipts, b1)) = Some (d, receipts1, b1)"
      "dp_delivery_id dp = i" for dp
    using that by (intro exI [of _ dp]) (simp split: prod.splits)
  show ?thesis
  proof (cases "ct_body c")
    case (Body_Edit edit)
    then show ?thesis using assms(1) shown by (auto simp: handle_content_def split: option.splits)
  next
    case (Body_Sync sync)
    then show ?thesis using assms(1) shown
      by (auto simp: handle_content_def split: option.splits sync_content.splits)
  qed (use assms in \<open>auto simp: handle_content_def event_default_def event_error_def split: if_splits\<close>)
qed

lemma handle_content_marks:
  assumes run: "handle_content sv te mid c i receipts b = Some (d, receipts1, b1)" and i: "i \<noteq> 0"
  shows "\<exists>es. bk_events b1 = bk_events b @ es \<and> length (events_for i es) = marks d"
proof (cases "\<exists>m. ct_body c = Body_Data m")
  case True
  then obtain m where m: "ct_body c = Body_Data m" ..
  obtain d0 b0 where e: "emit_data_message sv te mid (bare_projection sv c m i) b = (d0, b0)"
    by (cases "emit_data_message sv te mid (bare_projection sv c m i) b")
  have r: "d = d0" "enqueue_receipt sv c receipts b0 = Some (receipts1, b1)"
    using run m e by (auto simp: handle_content_def)
  from emit_data_message_marks [OF e] i obtain es
    where es: "bk_events b0 = bk_events b @ es" "length (events_for i es) = marks d0" by auto
  from enqueue_receipt_events [OF r(2)] obtain fs
    where "bk_events b1 = bk_events b0 @ fs" "list_all (\<lambda>e. ev_request_id e = 0) fs" by blast
  then show ?thesis using es r(1) events_for_unrelated [of fs i] i by (intro exI [of _ "es @ fs"]) simp
next
  case False
  from handle_content_other [OF run] False consider
      dp where "dp_delivery_id dp = i" "emit_data_message sv te mid dp b = (d, b1)"
    | "d = Complete" "b1 = b" | e where "d = Complete" "b1 = emit e b" "ev_request_id e = 0" by blast
  then show ?thesis
  proof cases
    case (1 dp)
    then show ?thesis using emit_data_message_marks [of sv te mid dp b d b1] i by simp
  next
    case (3 e)
    then show ?thesis using i by (intro exI [of _ "[e]"]) (simp add: events_for_def)
  qed (auto simp: events_for_def)
qed

lemma delete_appended: "k \<notin> fst ` set al \<Longrightarrow> AList.delete k (al @ [(k, v)]) = al"
  by (simp add: AList.delete_eq filter_id_conv) force

lemma track_result_state:
  assumes "projection_inv x p" "mp_next_delivery_id p \<noteq> - 1" "projection_track x c p = (Some i, p1)"
  shows "i \<noteq> 0" "i \<notin> fst ` set (mp_pending p)" "mp_pending p1 = mp_pending p @ [(i, c)]"
    "projection_identity_of x c \<notin> known_ids p" "projection_inv x p1"
proof -
  have i: "i = next_id (mp_next_delivery_id p)"
    and p1: "mp_pending p1 = AList.update i c (mp_pending p)"
    using assms(3)
    by (auto simp: projection_track_def reserve_identity_def Let_def split: if_splits bool.splits)
  show "i \<noteq> 0" by (simp add: i)
  have "mp_next_delivery_id p < i" using next_id_unat [OF assms(2)] by (simp add: i word_less_nat_alt)
  then show fresh: "i \<notin> fst ` set (mp_pending p)" using assms(1) by (auto simp: projection_inv_def)
  show "mp_pending p1 = mp_pending p @ [(i, c)]" using p1 update_fresh_alist [OF fresh] by simp
  show "projection_identity_of x c \<notin> known_ids p" using track_result [of x c p] assms(3) by simp
  show "projection_inv x p1" using projection_inv_track [OF assms(1,2), of c] assms(3) by simp
qed

lemma projection_inv_receipts [simp]:
  "projection_inv x (p\<lparr>mp_delivery_receipts := r\<rparr>) = projection_inv x p"
  by (simp add: projection_inv_def shown_ids_def)

lemma complete_newest:
  assumes "projection_inv x p" "mp_pending p = al @ [(i, c)]" "i \<notin> fst ` set al"
  shows "mp_pending (snd (projection_complete x i p)) = al"
    "projection_identity_of x c \<in> ids_completed (mp_identities (snd (projection_complete x i p)))"
proof -
  have found: "map_of (mp_pending p) i = Some c" using assms(2,3) by (simp add: map_add_dom_app_simps dom_map_of_conv_image_fst)
  then show "mp_pending (snd (projection_complete x i p)) = al"
    using delete_appended [OF assms(3)] by (simp add: projection_complete_def assms(2))
  have ids: "identities_inv (mp_identities p)" and "projection_identity_of x c \<in> ids_pending (mp_identities p)"
    using assms(1) shown_mem [OF found, of x] unfolding projection_inv_def by blast+
  then have new: "projection_identity_of x c \<notin> ids_completed (mp_identities p)" by (auto simp: identities_inv_def)
  let ?o = "ids_completed_order (mp_identities p)"
  have "length (?o @ [projection_identity_of x c]) - RECENT_PROJECTION_IDENTITY_LIMIT \<le> length ?o"
    by (simp add: RECENT_PROJECTION_IDENTITY_LIMIT_def)
  then show "projection_identity_of x c \<in> ids_completed (mp_identities (snd (projection_complete x i p)))"
    using complete_identity_eq [OF ids new] by (simp add: projection_complete_def found)
qed

lemma release_newest:
  assumes "projection_inv x p" "mp_pending p = al @ [(i, c)]" "i \<notin> fst ` set al"
  shows "mp_pending (snd (projection_release x i p)) = al"
    "projection_identity_of x c \<notin> known_ids (snd (projection_release x i p))"
proof -
  have found: "map_of (mp_pending p) i = Some c" using assms(2,3) by (simp add: map_add_dom_app_simps dom_map_of_conv_image_fst)
  then show "mp_pending (snd (projection_release x i p)) = al"
    using delete_appended [OF assms(3)] by (simp add: projection_release_def assms(2))
  have "identities_inv (mp_identities p)" "projection_identity_of x c \<in> ids_pending (mp_identities p)"
    using assms(1) shown_mem [OF found, of x] unfolding projection_inv_def by blast+
  then show "projection_identity_of x c \<notin> known_ids (snd (projection_release x i p))"
    by (auto simp: projection_release_def found release_pending_def identities_inv_def)
qed

text \<open>
  C12. Showing a message has one of four outcomes, and keeps the projection consistent: it is skipped, because it is not projectable yet, already known,
  or no room is left; or it waits for its acknowledgement under a new delivery id that exactly one of the emitted events carries; or
  it is recorded in the store as handled and remembered; or it is forgotten, so that a replay shows it again.
\<close>

theorem project_content_outcomes:
  assumes inv: "projection_inv (sv_ext sv) p" and room: "mp_next_delivery_id p \<noteq> - 1"
    and run: "project_content sv te mid c authoritative p b = Some (p9, b9)"
  shows "projection_inv (sv_ext sv) p9 \<and>
    ((mp_pending p9 = mp_pending p \<and> b9 = b) \<or>
     (\<exists>i es. i \<noteq> 0 \<and> mp_pending p9 = mp_pending p @ [(i, c)] \<and> bk_events b9 = bk_events b @ es \<and>
        length (events_for i es) = 1) \<or>
     (mp_pending p9 = mp_pending p \<and> projection_identity_of (sv_ext sv) c \<in> ids_completed (mp_identities p9) \<and>
        (\<exists>b8. perform (so_mark_message_projected (sv_repo sv) c) b8 = (Inr (), b9))) \<or>
     (mp_pending p9 = mp_pending p \<and> projection_identity_of (sv_ext sv) c \<notin> known_ids p9))"
proof (cases "content_is_projectable (ct_body c) authoritative")
  case True
  obtain r p1 where t: "projection_track (sv_ext sv) c p = (r, p1)" by (cases "projection_track (sv_ext sv) c p")
  have inv1: "projection_inv (sv_ext sv) p1" using projection_inv_track [OF inv room, of c] t by simp
  show ?thesis
  proof (cases r)
    case None
    have "mp_pending p1 = mp_pending p"
      using t None by (auto simp: projection_track_def Let_def split: if_splits prod.splits bool.splits)
    then show ?thesis using run True t None inv1 by (simp add: project_content_def)
  next
    case (Some i)
    note tracked = track_result_state [OF inv room t [unfolded Some]]
    obtain d receipts b1 where h: "handle_content sv te mid c i (mp_delivery_receipts p1) b = Some (d, receipts, b1)"
      using run True t Some by (auto simp: project_content_def)
    define p2 where "p2 = p1\<lparr>mp_delivery_receipts := receipts\<rparr>"
    have p2: "projection_inv (sv_ext sv) p2" "mp_pending p2 = mp_pending p @ [(i, c)]" using tracked by (simp_all add: p2_def)
    have run2: "settle_projection sv c i d p2 b1 = (p9, b9)" using run True t Some h by (simp add: project_content_def p2_def)
    show ?thesis
    proof (cases d)
      case AwaitingAck
      then show ?thesis
        using run2 p2 handle_content_marks [OF h tracked(1)] tracked(1) by (auto simp: settle_projection_def projection_effect_of_def Let_def)
    next
      case Retry
      then show ?thesis
        using run2 projection_inv_release [OF p2(1)] release_newest [OF p2 tracked(2)]
        by (auto simp: settle_projection_def projection_effect_of_def Let_def)
    next
      case Complete
      then show ?thesis
        using run2 projection_inv_release [OF p2(1), of i] release_newest [OF p2 tracked(2)]
          projection_inv_complete [OF p2(1), of i] complete_newest [OF p2 tracked(2)]
        by (auto simp: settle_projection_def projection_effect_of_def Let_def split: prod.splits sum.splits)
    qed
  qed
qed (use run inv in \<open>simp add: project_content_def\<close>)

definition sample_transcode_env :: transcode_env where
  "sample_transcode_env =
     \<lparr>te_lock_free = False, te_path = None, te_is_file = (\<lambda>_. False), te_utf8 = (\<lambda>_. True),
      te_child = (\<lambda>_ _. \<lparr>cr_spawned = False, cr_pipes = False, cr_writer_thread = False, cr_reader_thread = False,
        cr_waits = [], cr_input_complete = False, cr_output = []\<rparr>)\<rparr>"

definition sample_message :: content where
  "sample_message = (sample_content 5)\<lparr>ct_needs_receipt := False\<rparr>"

lemma sample_project:
  "\<exists>p9 b9. project_content sample_services (\<lambda>_. sample_transcode_env) departed_groups_new sample_message True
     (projection_new ack_new) sample_backend = Some (p9, b9)"
  by (auto simp: project_content_def content_is_projectable_def sample_message_def sample_content_def handle_content_def
      enqueue_receipt_def split: prod.split option.split)

theorem project_content_outcomes_witness:
  "\<exists>p9 b9. project_content sample_services (\<lambda>_. sample_transcode_env) departed_groups_new sample_message True
     (projection_new ack_new) sample_backend = Some (p9, b9) \<and> projection_inv (sv_ext sample_services) p9"
proof -
  obtain p9 b9 where run: "project_content sample_services (\<lambda>_. sample_transcode_env) departed_groups_new sample_message True
      (projection_new ack_new) sample_backend = Some (p9, b9)" using sample_project by blast
  have "projection_inv (sv_ext sample_services) p9"
    using project_content_outcomes [OF projection_inv_new _ run] by (simp add: projection_new_def)
  with run show ?thesis by blast
qed

section \<open>Draining the acknowledgements\<close>

text \<open>What settling the deliveries \<open>ids\<close> may do.\<close>

definition settled_only :: "u64 set \<Rightarrow> message_projection \<Rightarrow> message_projection \<Rightarrow> bool" where
  "settled_only ids p q \<longleftrightarrow>
     ai_open (mp_acknowledgments q) = ai_open (mp_acknowledgments p) \<and>
     set (ready_acks q) \<subseteq> set (ready_acks p) \<and>
     set (ai_retry (mp_acknowledgments q)) \<subseteq> set (ai_retry (mp_acknowledgments p)) \<and>
     (\<exists>gone \<subseteq> ids. mp_pending q = filter (\<lambda>e. fst e \<notin> gone) (mp_pending p))"

lemma settled_only_trans:
  assumes "settled_only I p q" "settled_only J q r"
  shows "settled_only (I \<union> J) p r"
proof -
  obtain g h where gh: "g \<subseteq> I" "mp_pending q = filter (\<lambda>e. fst e \<notin> g) (mp_pending p)"
      "h \<subseteq> J" "mp_pending r = filter (\<lambda>e. fst e \<notin> h) (mp_pending q)"
    using assms unfolding settled_only_def by blast
  have "mp_pending r = filter (\<lambda>e. fst e \<notin> g \<union> h) (mp_pending p)" by (simp add: gh(2,4) conj_commute)
  moreover have "g \<union> h \<subseteq> I \<union> J" using gh(1,3) by blast
  ultimately show ?thesis using assms unfolding settled_only_def by blast
qed

lemma delete_filter: "AList.delete i al = filter (\<lambda>e. fst e \<notin> {i}) al"
  by (auto simp: AList.delete_eq intro: filter_cong)

lemma settled_only_keep:
  "ack = mp_acknowledgments p \<or> ack = ack_unregister i (mp_acknowledgments p) \<Longrightarrow>
     pending = mp_pending p \<or> pending = AList.delete i (mp_pending p) \<Longrightarrow>
     settled_only {i} p (p\<lparr>mp_pending := pending, mp_acknowledgments := ack, mp_identities := ids\<rparr>)"
proof -
  assume ack: "ack = mp_acknowledgments p \<or> ack = ack_unregister i (mp_acknowledgments p)"
    and pend: "pending = mp_pending p \<or> pending = AList.delete i (mp_pending p)"
  from pend have "\<exists>gone \<subseteq> {i}. pending = filter (\<lambda>e. fst e \<notin> gone) (mp_pending p)"
  proof (elim disjE)
    assume "pending = mp_pending p"
    then show ?thesis by (intro exI [of _ "{}"]) simp
  next
    assume "pending = AList.delete i (mp_pending p)"
    then show ?thesis by (intro exI [of _ "{i}"]) (simp add: delete_filter)
  qed
  then show ?thesis using ack by (elim disjE) (simp_all add: settled_only_def ack_unregister_def)
qed

lemma acknowledge_message_settles:
  assumes "acknowledge_message sv i p b = (r, q, c)"
  shows "settled_only {i} p q"
proof -
  obtain pending ack ids where "q = p\<lparr>mp_pending := pending, mp_acknowledgments := ack, mp_identities := ids\<rparr>"
      "pending = mp_pending p \<or> pending = AList.delete i (mp_pending p)"
      "ack = mp_acknowledgments p \<or> ack = ack_unregister i (mp_acknowledgments p)"
  proof (cases "map_of (mp_pending p) i")
    case None
    then have "q = p\<lparr>mp_pending := mp_pending p, mp_acknowledgments := ack_unregister i (mp_acknowledgments p),
        mp_identities := mp_identities p\<rparr>"
      using assms by (auto simp: acknowledge_message_def)
    then show ?thesis using that by blast
  next
    case (Some m)
    then have "q = snd (projection_complete (sv_ext sv) i p) \<or> q = p"
      using assms by (auto simp: acknowledge_message_def split: prod.splits sum.splits)
    then show ?thesis
    proof
      assume "q = snd (projection_complete (sv_ext sv) i p)"
      then have "q = p\<lparr>mp_pending := AList.delete i (mp_pending p),
          mp_acknowledgments := ack_unregister i (mp_acknowledgments p),
          mp_identities := complete_identity (projection_identity_of (sv_ext sv) m) (mp_identities p)\<rparr>"
        by (simp add: projection_complete_def Some)
      then show ?thesis using that by blast
    next
      assume "q = p"
      then have "q = p\<lparr>mp_pending := mp_pending p, mp_acknowledgments := mp_acknowledgments p,
          mp_identities := mp_identities p\<rparr>" by simp
      then show ?thesis using that by blast
    qed
  qed
  then show ?thesis using settled_only_keep by blast
qed

lemma settled_only_refl: "settled_only I p p"
  unfolding settled_only_def by (intro conjI exI [of _ "{}"]) simp_all

lemma acknowledge_all_settles:
  "acknowledge_all sv False ids p b = (q, c) \<Longrightarrow> settled_only (set ids) p q"
proof (induction ids arbitrary: p b)
  case Nil
  then show ?case by (simp add: settled_only_refl)
next
  case (Cons i ids)
  obtain r p1 b1 where a: "acknowledge_message sv i p b = (r, p1, b1)" by (cases "acknowledge_message sv i p b")
  then have "acknowledge_all sv False ids p1 b1 = (q, c)" using Cons.prems by (simp add: Let_def)
  from settled_only_trans [OF acknowledge_message_settles [OF a] Cons.IH [OF this]] show ?case by simp
qed

lemma settled_only_mono: "settled_only I p q \<Longrightarrow> I \<subseteq> J \<Longrightarrow> settled_only J p q"
  unfolding settled_only_def by blast

lemma settled_only_inbox:
  "settled_only I (p\<lparr>mp_acknowledgments := a\<rparr>) q \<Longrightarrow> set (ai_ready a) \<subseteq> set (ready_acks p) \<Longrightarrow>
     ai_open a = ai_open (mp_acknowledgments p) \<Longrightarrow> ai_retry a = ai_retry (mp_acknowledgments p) \<Longrightarrow> settled_only I p q"
  by (simp add: settled_only_def) (blast intro: subset_trans)

lemma process_settles:
  assumes "process_acknowledgments sv False p b = (n, q, c)"
  shows "settled_only (set (ready_acks p)) p q" "n = 0 \<Longrightarrow> ready_acks q = []"
proof -
  let ?k = ACKNOWLEDGMENT_BATCH_SIZE
  let ?ids = "fst (take_ready ?k (mp_acknowledgments p))" and ?a = "snd (take_ready ?k (mp_acknowledgments p))"
  have run: "n = length ?ids" "acknowledge_all sv False ?ids (p\<lparr>mp_acknowledgments := ?a\<rparr>) b = (q, c)"
    using assms by (auto simp: process_acknowledgments_def split: prod.splits)
  have "settled_only (set ?ids) (p\<lparr>mp_acknowledgments := ?a\<rparr>) q" using run(2) by (rule acknowledge_all_settles)
  moreover have "set ?ids \<subseteq> set (ready_acks p)" "set (ai_ready ?a) \<subseteq> set (ready_acks p)"
    "ai_open ?a = ai_open (mp_acknowledgments p)" "ai_retry ?a = ai_retry (mp_acknowledgments p)"
    by (auto simp: take_ready_def Let_def dest: in_set_takeD in_set_dropD)
  ultimately show "settled_only (set (ready_acks p)) p q" by (blast intro: settled_only_inbox settled_only_mono)
  show "ready_acks q = []" if "n = 0"
    using that run acknowledge_all_ready [OF run(2)]
    by (simp add: take_ready_batch ACKNOWLEDGMENT_BATCH_SIZE_def)
qed

lemma drain_loop_settles:
  "drain_loop sv p b = (q, c) \<Longrightarrow> settled_only (set (ready_acks p)) p q \<and> ready_acks q = []"
proof (induction sv p b arbitrary: q c rule: drain_loop.induct)
  case (1 sv p b)
  obtain n p1 b1 where r: "process_acknowledgments sv False p b = (n, p1, b1)" by (cases "process_acknowledgments sv False p b")
  note batch = process_settles [OF r]
  show ?case
  proof (cases "n = 0")
    case True
    then show ?thesis using "1.prems" r batch by (subst (asm) drain_loop.simps) simp
  next
    case False
    then have "drain_loop sv p1 b1 = (q, c)" using "1.prems" r by (subst (asm) drain_loop.simps) simp
    then have rest: "settled_only (set (ready_acks p1)) p1 q" "ready_acks q = []" using "1.IH" [OF r [symmetric] _ False] by auto
    have "set (ready_acks p1) \<subseteq> set (ready_acks p)" using batch(1) by (simp add: settled_only_def)
    then show ?thesis using rest settled_only_trans [OF batch(1) rest(1)] by (simp add: Un_absorb2)
  qed
qed

text \<open>When the store records every message, exactly the acknowledged deliveries are settled.\<close>

lemma acknowledge_message_exact:
  assumes "\<And>m w. fst (so_mark_message_projected (sv_repo sv) m w) = Inr ()" "acknowledge_message sv i p b = (r, q, c)"
  shows "mp_pending q = filter (\<lambda>e. fst e \<notin> {i}) (mp_pending p)" "ready_acks q = filter (\<lambda>j. j \<notin> {i}) (ready_acks p)"
proof -
  have marked: "fst (perform (so_mark_message_projected (sv_repo sv) m) b) = Inr ()" for m
    using assms(1) [of m "bk_world b"] by (auto simp: perform_def split: prod.split)
  have "mp_pending q = filter (\<lambda>e. fst e \<notin> {i}) (mp_pending p) \<and> ready_acks q = filter (\<lambda>j. j \<notin> {i}) (ready_acks p)"
  proof (cases "map_of (mp_pending p) i")
    case None
    then have "filter (\<lambda>e. fst e \<notin> {i}) (mp_pending p) = mp_pending p"
      by (auto simp: map_of_eq_None_iff filter_id_conv)
    then show ?thesis using assms(2) None by (auto simp: acknowledge_message_def ack_unregister_def)
  next
    case (Some m)
    then have "q = snd (projection_complete (sv_ext sv) i p)"
      using assms(2) marked [of m] by (auto simp: acknowledge_message_def split: prod.splits sum.splits)
    then show ?thesis by (simp add: projection_complete_def Some ack_unregister_def delete_filter)
  qed
  then show "mp_pending q = filter (\<lambda>e. fst e \<notin> {i}) (mp_pending p)" "ready_acks q = filter (\<lambda>j. j \<notin> {i}) (ready_acks p)"
    by simp_all
qed

lemma acknowledge_all_exact:
  assumes ok: "\<And>m w. fst (so_mark_message_projected (sv_repo sv) m w) = Inr ()"
  shows "acknowledge_all sv False ids p b = (q, c) \<Longrightarrow>
    mp_pending q = filter (\<lambda>e. fst e \<notin> set ids) (mp_pending p) \<and> ready_acks q = filter (\<lambda>j. j \<notin> set ids) (ready_acks p)"
proof (induction ids arbitrary: p b)
  case (Cons i ids)
  obtain r p1 b1 where a: "acknowledge_message sv i p b = (r, p1, b1)" by (cases "acknowledge_message sv i p b")
  then have "acknowledge_all sv False ids p1 b1 = (q, c)" using Cons.prems by (simp add: Let_def)
  from Cons.IH [OF this] acknowledge_message_exact [OF ok a] show ?case by (auto intro: filter_cong)
qed simp

lemma drain_loop_exact:
  assumes ok: "\<And>m w. fst (so_mark_message_projected (sv_repo sv) m w) = Inr ()"
  shows "drain_loop sv p b = (q, c) \<Longrightarrow> mp_pending q = filter (\<lambda>e. fst e \<notin> set (ready_acks p)) (mp_pending p)"
proof (induction "length (ready_acks p)" arbitrary: p b rule: less_induct)
  case less
  let ?ids = "take ACKNOWLEDGMENT_BATCH_SIZE (ready_acks p)" and ?rest = "drop ACKNOWLEDGMENT_BATCH_SIZE (ready_acks p)"
  obtain n p1 b1 where r: "process_acknowledgments sv False p b = (n, p1, b1)" by (cases "process_acknowledgments sv False p b")
  let ?t = "take_ready ACKNOWLEDGMENT_BATCH_SIZE (mp_acknowledgments p)"
  have "acknowledge_all sv False (fst ?t) (p\<lparr>mp_acknowledgments := snd ?t\<rparr>) b = (p1, b1)" and n: "n = length (fst ?t)"
    using r by (auto simp: process_acknowledgments_def split: prod.splits)
  from acknowledge_all_exact [OF ok this(1)] have
    p1: "mp_pending p1 = filter (\<lambda>e. fst e \<notin> set ?ids) (mp_pending p)" "ready_acks p1 = filter (\<lambda>j. j \<notin> set ?ids) ?rest"
    by (simp_all add: take_ready_batch)
  have split: "set (ready_acks p) = set ?ids \<union> set ?rest" by (metis append_take_drop_id set_append)
  show ?case
  proof (cases "n = 0")
    case True
    then have "ready_acks p = []" by (auto simp: n take_ready_batch ACKNOWLEDGMENT_BATCH_SIZE_def min_def split: if_splits)
    then show ?thesis using less.prems r True p1 by (subst (asm) drain_loop.simps) simp
  next
    case False
    then have "drain_loop sv p1 b1 = (q, c)" using less.prems r by (subst (asm) drain_loop.simps) simp
    from less.hyps [OF process_acknowledgments_decreases [OF r False] this] show ?thesis
      unfolding p1 split by (auto intro: filter_cong)
  qed
qed

abbreviation acknowledged :: "message_projection \<Rightarrow> u64 set" where
  "acknowledged p \<equiv> set (ready_acks p) \<union> set (ai_retry (mp_acknowledgments p))"

text \<open>
  C13. Draining at shutdown ends, with the inbox closed and empty. It settles acknowledged deliveries only, so that a message the user has
  not seen is replayed by the next session; and when the store records every message it settles all of the acknowledged ones.
\<close>

theorem drain_settles_acknowledged:
  "case drain_acknowledgments sv p b of
     (q, c) \<Rightarrow> \<not> ai_open (mp_acknowledgments q) \<and> ready_acks q = [] \<and> ai_retry (mp_acknowledgments q) = [] \<and>
       (\<exists>gone \<subseteq> acknowledged p. mp_pending q = filter (\<lambda>e. fst e \<notin> gone) (mp_pending p)) \<and>
       ((\<forall>m w. fst (so_mark_message_projected (sv_repo sv) m w) = Inr ()) \<longrightarrow>
          mp_pending q = filter (\<lambda>e. fst e \<notin> acknowledged p) (mp_pending p))"
proof -
  let ?p = "p\<lparr>mp_acknowledgments := ack_close (mp_acknowledgments p)\<rparr>"
  obtain q c where d: "drain_loop sv ?p b = (q, c)" by (cases "drain_loop sv ?p b")
  have close: "set (ready_acks ?p) = acknowledged p" "ai_retry (mp_acknowledgments ?p) = []"
      "\<not> ai_open (mp_acknowledgments ?p)" "mp_pending ?p = mp_pending p"
    by (auto simp: ack_close_def)
  have "settled_only (acknowledged p) ?p q" "ready_acks q = []" using drain_loop_settles [OF d] close(1) by simp_all
  moreover have "mp_pending q = filter (\<lambda>e. fst e \<notin> acknowledged p) (mp_pending p)"
    if "\<forall>m w. fst (so_mark_message_projected (sv_repo sv) m w) = Inr ()"
    using drain_loop_exact [OF _ d] that close by auto
  ultimately show ?thesis
    using close d unfolding settled_only_def drain_acknowledgments_def by auto
qed

definition acknowledged_projection :: message_projection where
  "acknowledged_projection =
     fold (projection_exec sample_externals) [P_Track (sample_content 5), P_Track (sample_content 6), P_Submit 1]
       (projection_new ack_new)"

theorem drain_settles_acknowledged_witness:
  "mp_pending (fst (drain_acknowledgments sample_services acknowledged_projection sample_backend)) =
     filter (\<lambda>e. fst e \<notin> acknowledged acknowledged_projection) (mp_pending acknowledged_projection)"
proof -
  have "\<forall>m w. fst (so_mark_message_projected (sv_repo sample_services) m w) = Inr ()"
    by (simp add: fake_storage_def)
  then show ?thesis
    using drain_settles_acknowledged [where sv = sample_services and p = acknowledged_projection and b = sample_backend]
    by (simp split: prod.splits)
qed

section \<open>Outcomes of a receipt attempt\<close>

text \<open>
  A receipt leaves the queue only when it was sent or its failure is permanent; otherwise it stays and
  the connection is recovered exactly when the websocket had closed.
\<close>

lemma finish_keeps_receipt:
  assumes "receipts_inv q" "pr_identity (rc_receipt completion) \<in> set (receipt_ids q)"
    and "finish_delivery_receipt_attempt completion q b = (recover, q1, b1)"
  shows "receipts_inv q1 \<and>
    (pr_identity (rc_receipt completion) \<notin> set (receipt_ids q1) \<longleftrightarrow>
       (case rc_result completion of Inr _ \<Rightarrow> True | Inl e \<Rightarrow> \<not> receive_error_is_transient e)) \<and>
    (recover \<noteq> None \<longleftrightarrow>
       (case rc_result completion of Inr _ \<Rightarrow> False | Inl e \<Rightarrow> receipt_error_indicates_closed_websocket e))"
proof -
  let ?i = "pr_identity (rc_receipt completion)"
  have gone: "?i \<notin> set (receipt_ids (receipts_complete ?i q))" "receipts_inv (receipts_complete ?i q)"
    using receipts_inv_complete [OF assms(1), of ?i] by simp_all
  have stays: "receipt_ids (receipts_retry ?i imm q) = receipt_ids q" "receipts_inv (receipts_retry ?i imm q)" for imm
    using assms(1) by (simp_all add: receipts_marking receipts_inv_ids)
  show ?thesis
    using assms(2,3) gone stays closed_receipt_transient
    by (cases "rc_result completion")
       (auto simp: finish_delivery_receipt_attempt_def delivery_receipt_failure_action_def Let_def split: if_splits)
qed

end
