(* ===== verification/Commands.thy ===== *)
theory Commands
  imports Projection
begin

section \<open>Commands of the plugin (backend/command.rs, backend/coordinator.rs)\<close>

text \<open>
  The commands the plugin queues and what the backend does for each: \<^verbatim>\<open>handle_command\<close> with one definition
  for every arm, leaving a group with the events it ends with, and uploading and sending an attachment. \<open>None\<close> is a panic: an
  exhausted timestamp space, or an attachment command where the code declares it unreachable.
\<close>

datatype command =
    Send_Message u64 string string
  | Send_Group_Message u64 string string
  | Leave_Group u64 string
  | Send_Attachment u64 string string string attachment_payload bool attachment_permit
  | Set_Typing u64 string bool
  | Accept_Identity u64 string
  | Dismiss_Identity u64 string
  | Reset_Session u64 string
  | Mark_Read u64 string u64

definition NOT_CANONICAL :: string where
  "NOT_CANONICAL = ''Recipient is not a canonical Signal service identifier''"

definition GROUP_UNAVAILABLE :: string where
  "GROUP_UNAVAILABLE = ''Signal group is unavailable or this account is no longer a member''"

definition GROUPS_NOT_AUTHORITATIVE :: string where
  "GROUPS_NOT_AUTHORITATIVE =
     ''Signal groups are temporarily unavailable until authoritative synchronization succeeds''"

subsection \<open>Leaving a group\<close>

definition group_leave_warning_messages :: "bool \<Rightarrow> bool \<Rightarrow> string list" where
  "group_leave_warning_messages peer_notification_sent local_group_removed =
     (if \<not> peer_notification_sent
      then [''Signal accepted the group leave, but some remaining members could not be notified''] else []) @
     (if \<not> local_group_removed
      then [''Signal accepted the group leave, but the encrypted local group cache could not be removed; reconnect to retry cleanup'']
      else [])"

definition group_leave_completion_events ::
  "u64 \<Rightarrow> string \<Rightarrow> group_leave_completion \<Rightarrow> departed_groups \<Rightarrow> event list \<times> departed_groups" where
  "group_leave_completion_events request_id gk completion dg =
     (case completion of
        Leave_Accepted peer_notification_sent local_group_removed \<Rightarrow>
          (event_default\<lparr>ev_kind := EVENT_GROUP_LEFT, ev_request_id := request_id, ev_chat_id := Some gk\<rparr> #
             map (\<lambda>warning. event_error warning False)
               (group_leave_warning_messages peer_notification_sent local_group_removed),
           mark_departed gk dg)
      | Leave_Failed error \<Rightarrow> ([group_request_error request_id gk error], cancel_leave gk dg))"

definition emit_leave_completion ::
  "u64 \<Rightarrow> string \<Rightarrow> group_leave_completion \<Rightarrow> 'w backend \<Rightarrow> 'w backend" where
  "emit_leave_completion request_id gk completion b =
     (case group_leave_completion_events request_id gk completion (bk_departed b) of
        (events, dg) \<Rightarrow> fold emit events (b\<lparr>bk_departed := dg\<rparr>))"

text \<open>The refusals of \<^verbatim>\<open>LeaveGroup\<close> cancel the leave and report.\<close>

definition refuse_leave :: "u64 \<Rightarrow> string \<Rightarrow> string \<Rightarrow> 'w backend \<Rightarrow> 'w backend" where
  "refuse_leave request_id gk error b =
     emit (group_request_error request_id gk error) (b\<lparr>bk_departed := cancel_leave gk (bk_departed b)\<rparr>)"

text \<open>Reporting a failed store operation, and nothing else.\<close>

definition report_failure :: "string \<Rightarrow> sqlite_store_error + unit \<Rightarrow> 'w backend \<Rightarrow> 'w backend" where
  "report_failure what r b =
     (case r of Inl error \<Rightarrow> emit (event_error (what @ sse_display error) False) b | Inr _ \<Rightarrow> b)"

definition accepted_leave ::
  "'w services \<Rightarrow> bool \<Rightarrow> u64 \<Rightarrow> string \<Rightarrow> leave_group_outcome \<Rightarrow> 'w backend \<Rightarrow> 'w backend" where
  "accepted_leave sv authoritative request_id gk outcome b =
     (let b1 = emit_leave_completion request_id gk
                 (Leave_Accepted (lo_peer_notification_sent outcome) (lo_local_group_removed outcome)) b;
          b2 = b1\<lparr>bk_cache := remove_group_index gk (bk_cache b1)\<rparr>
      in case perform (so_expedite_outbox_messages (sv_repo sv) gk) b2 of
           (r, b3) \<Rightarrow>
             retry_outbox sv authoritative
               (report_failure ''Could not schedule stale group messages for cleanup: '' r b3))"

definition handle_leave_group :: "'w services \<Rightarrow> bool \<Rightarrow> u64 \<Rightarrow> string \<Rightarrow> 'w backend \<Rightarrow> 'w backend" where
  "handle_leave_group sv authoritative request_id gk b =
     (if \<not> authoritative then refuse_leave request_id gk GROUPS_NOT_AUTHORITATIVE b
      else
        case resolve_active_group_for_leave sv gk b of
          (Inl error, b1) \<Rightarrow> refuse_leave request_id gk error b1
        | (Inr None, b1) \<Rightarrow> refuse_leave request_id gk GROUP_UNAVAILABLE b1
        | (Inr (Some (key, _)), b1) \<Rightarrow>
            (case perform (sp_leave_group (sv_manager sv) key) b1 of
               (Inl error, b2) \<Rightarrow>
                 emit_leave_completion request_id gk
                   (Leave_Failed (''Could not leave the Signal group: '' @ error)) b2
             | (Inr outcome, b2) \<Rightarrow> accepted_leave sv authoritative request_id gk outcome b2))"

subsection \<open>The other commands\<close>

definition handle_accept_identity :: "'w services \<Rightarrow> bool \<Rightarrow> u64 \<Rightarrow> string \<Rightarrow> 'w backend \<Rightarrow> 'w backend" where
  "handle_accept_identity sv authoritative request_id recipient b =
     (case perform (so_accept_identity_change (sv_repo sv) recipient) b of
        (Inr True, b1) \<Rightarrow>
          (case perform (so_expedite_outbox_messages (sv_repo sv) recipient) b1 of
             (r, b2) \<Rightarrow>
               retry_outbox sv authoritative
                 (emit (event_default\<lparr>ev_kind := EVENT_IDENTITY_ACCEPTED, ev_request_id := request_id,
                    ev_peer_id := Some recipient\<rparr>)
                    (report_failure ''Could not expedite queued Signal messages: '' r b2)))
      | (Inr False, b1) \<Rightarrow>
          emit (request_error request_id ''No verified identity change is pending for this contact'') b1
      | (Inl error, b1) \<Rightarrow>
          emit (request_error request_id
            (''Could not accept the Signal identity change: '' @ sse_display error)) b1)"

definition handle_dismiss_identity :: "'w services \<Rightarrow> u64 \<Rightarrow> string \<Rightarrow> 'w backend \<Rightarrow> 'w backend" where
  "handle_dismiss_identity sv request_id recipient b =
     (case perform (so_dismiss_identity_change (sv_repo sv) recipient) b of
        (Inr _, b1) \<Rightarrow>
          emit (event_default\<lparr>ev_kind := EVENT_IDENTITY_CHANGE, ev_request_id := request_id,
            ev_peer_id := Some recipient\<rparr>) b1
      | (Inl error, b1) \<Rightarrow>
          emit (request_error request_id
            (''Could not dismiss the Signal identity notice: '' @ sse_display error)) b1)"

definition handle_reset_session :: "'w services \<Rightarrow> u64 \<Rightarrow> string \<Rightarrow> 'w backend \<Rightarrow> 'w backend" where
  "handle_reset_session sv request_id recipient b =
     (case (case parse_recipient (sv_ext sv) recipient of
              Some sid \<Rightarrow> perform (sp_clear_sessions (sv_manager sv) sid) b
            | None \<Rightarrow> (Inl NOT_CANONICAL, b)) of
        (Inr _, b1) \<Rightarrow>
          emit (event_default\<lparr>ev_kind := EVENT_SESSION_RESET, ev_request_id := request_id,
            ev_peer_id := Some recipient\<rparr>) b1
      | (Inl error, b1) \<Rightarrow>
          emit (request_error request_id (''Could not reset the Signal session: '' @ error)) b1)"

text \<open>Receipts and typing notices are sent at once, with a new timestamp, and only a failure is reported.\<close>

definition send_at_new_timestamp ::
  "'w services \<Rightarrow> u64 \<Rightarrow> string \<Rightarrow> (u64 \<Rightarrow> content_body) \<Rightarrow> 'w backend \<Rightarrow> 'w backend option" where
  "send_at_new_timestamp sv request_id recipient message b =
     (case parse_recipient (sv_ext sv) recipient of
        None \<Rightarrow> Some (emit (transient_request_error request_id NOT_CANONICAL) b)
      | Some sid \<Rightarrow>
          map_option (\<lambda>(t, b1).
            case perform (sp_send_message (sv_manager sv) sid (message t) t) b1 of
              (Inl error, b2) \<Rightarrow> emit (transient_request_error request_id error) b2
            | (Inr _, b2) \<Rightarrow> b2) (next_timestamp sv b))"

definition RECEIPT_TYPE_READ :: int where
  "RECEIPT_TYPE_READ = 1"

definition handle_mark_read :: "'w services \<Rightarrow> u64 \<Rightarrow> string \<Rightarrow> u64 \<Rightarrow> 'w backend \<Rightarrow> 'w backend option" where
  "handle_mark_read sv request_id recipient timestamp b =
     send_at_new_timestamp sv request_id recipient
       (\<lambda>_. Body_Receipt \<lparr>rm_type = Some RECEIPT_TYPE_READ, rm_timestamp = [timestamp]\<rparr>) b"

definition handle_set_typing :: "'w services \<Rightarrow> u64 \<Rightarrow> string \<Rightarrow> bool \<Rightarrow> 'w backend \<Rightarrow> 'w backend option" where
  "handle_set_typing sv request_id recipient typing b =
     send_at_new_timestamp sv request_id recipient
       (\<lambda>t. Body_Typing \<lparr>ty_group_id = None, ty_action = Some (if typing then Typing_Started else Typing_Stopped),
                         ty_timestamp = Some t\<rparr>) b"

definition handle_send_message :: "'w services \<Rightarrow> u64 \<Rightarrow> string \<Rightarrow> string \<Rightarrow> 'w backend \<Rightarrow> 'w backend option" where
  "handle_send_message sv request_id recipient message b =
     map_option (\<lambda>(result, b1).
       case result of
         Inr _ \<Rightarrow> b1
       | Inl error \<Rightarrow>
           if should_retry error then emit (transient_request_error request_id (ox_message error)) b1
           else emit (request_error request_id (ox_message error)) b1)
       (if parse_recipient (sv_ext sv) recipient \<noteq> None then
          enqueue_and_send sv \<lparr>no_kind = Kind_Direct, no_recipient = recipient, no_body = message\<rparr> b
        else Some (Inl (ox_permanent NOT_CANONICAL), b))"

definition handle_send_group_message ::
  "'w services \<Rightarrow> bool \<Rightarrow> u64 \<Rightarrow> string \<Rightarrow> string \<Rightarrow> 'w backend \<Rightarrow> 'w backend option" where
  "handle_send_group_message sv authoritative request_id gk message b =
     map_option (\<lambda>(result, b1).
       case result of
         Inr _ \<Rightarrow> b1
       | Inl error \<Rightarrow>
           if should_retry error then emit (transient_request_error request_id (ox_message error)) b1
           else emit (group_request_error request_id gk (ox_message error)) b1)
       (if \<not> authoritative then Some (Inl (ox_retry GROUPS_NOT_AUTHORITATIVE), b)
        else
          case resolve_active_group sv gk b of
            (Inr (Some _), b1) \<Rightarrow>
              enqueue_and_send sv \<lparr>no_kind = Kind_Group, no_recipient = gk, no_body = message\<rparr> b1
          | (Inr None, b1) \<Rightarrow> Some (Inl (ox_permanent GROUP_UNAVAILABLE), b1)
          | (Inl error, b1) \<Rightarrow> Some (Inl (classify error), b1))"

definition handle_command :: "'w services \<Rightarrow> bool \<Rightarrow> command \<Rightarrow> 'w backend \<Rightarrow> 'w backend option" where
  "handle_command sv authoritative command b =
     (case command of
        Accept_Identity request_id recipient \<Rightarrow> Some (handle_accept_identity sv authoritative request_id recipient b)
      | Dismiss_Identity request_id recipient \<Rightarrow> Some (handle_dismiss_identity sv request_id recipient b)
      | Reset_Session request_id recipient \<Rightarrow> Some (handle_reset_session sv request_id recipient b)
      | Mark_Read request_id recipient timestamp \<Rightarrow> handle_mark_read sv request_id recipient timestamp b
      | Leave_Group request_id gk \<Rightarrow> Some (handle_leave_group sv authoritative request_id gk b)
      | Send_Message request_id recipient message \<Rightarrow> handle_send_message sv request_id recipient message b
      | Send_Group_Message request_id gk message \<Rightarrow> handle_send_group_message sv authoritative request_id gk message b
      | Set_Typing request_id recipient typing \<Rightarrow> handle_set_typing sv request_id recipient typing b
      | Send_Attachment _ _ _ _ _ _ _ \<Rightarrow> None)"

subsection \<open>Attachments\<close>

record outgoing_attachment =
  oa_recipient :: string
  oa_filename :: string
  oa_content_type :: string
  oa_data :: attachment_payload
  oa_group :: bool

definition read_payload :: "'w services \<Rightarrow> attachment_payload \<Rightarrow> 'w backend \<Rightarrow> bytes rresult \<times> 'w backend" where
  "read_payload sv payload b =
     (case payload of
        Payload_Data bytes \<Rightarrow> (Inr bytes, b)
      | Payload_Path path \<Rightarrow>
          (case perform (sv_read_file sv path) b of
             (r, b1) \<Rightarrow> (map_err (\<lambda>error. ''Could not read attachment file: '' @ error) r, b1)))"

definition attachment_target ::
  "'w services \<Rightarrow> outgoing_attachment \<Rightarrow> 'w backend \<Rightarrow> group_key option rresult \<times> 'w backend" where
  "attachment_target sv a b =
     (if \<not> oa_group a then (Inr None, b)
      else
        case resolve_active_group sv (oa_recipient a) b of
          (Inl error, b1) \<Rightarrow> (Inl error, b1)
        | (Inr None, b1) \<Rightarrow> (Inl GROUP_UNAVAILABLE, b1)
        | (Inr (Some (key, _)), b1) \<Rightarrow> (Inr (Some key), b1))"

definition attachment_message :: "attachment_pointer \<Rightarrow> u64 \<Rightarrow> data_message" where
  "attachment_message pointer timestamp =
     data_message_default\<lparr>dm_attachments := [pointer], dm_timestamp := Some timestamp\<rparr>"

definition group_attachment_message :: "attachment_pointer \<Rightarrow> u64 \<Rightarrow> group_key \<Rightarrow> group \<Rightarrow> data_message" where
  "group_attachment_message pointer timestamp key g =
     data_message_default\<lparr>dm_attachments := [pointer], dm_timestamp := Some timestamp,
       dm_group_v2 := Some \<lparr>gc_master_key = Some key, gc_revision = Some (gr_revision g)\<rparr>\<rparr>"

text \<open>
  Sending after the upload, during which the groups being left may have become \<open>mid\<close>. A group is
  looked up again under the operation lock.
\<close>

definition send_uploaded ::
  "'w services \<Rightarrow> departed_groups \<Rightarrow> outgoing_attachment \<Rightarrow> group_key option \<Rightarrow> attachment_pointer \<Rightarrow> u64 \<Rightarrow>
     'w backend \<Rightarrow> sent_message rresult \<times> 'w backend" where
  "send_uploaded sv mid a target pointer timestamp b0 =
     (let b = b0\<lparr>bk_departed := mid\<rparr>
      in case target of
           Some key \<Rightarrow>
             (case active_group_by_key sv key b of
                (Inl error, b1) \<Rightarrow> (Inl error, b1)
              | (Inr None, b1) \<Rightarrow> (Inl ''Signal group became unavailable before the attachment could be sent'', b1)
              | (Inr (Some g), b1) \<Rightarrow>
                  (case perform (sp_send_message_to_group (sv_manager sv) key
                          (Body_Data (group_attachment_message pointer timestamp key g)) timestamp) b1 of
                     (Inl error, b2) \<Rightarrow> (Inl error, b2)
                   | (Inr _, b2) \<Rightarrow> (Inr \<lparr>sm_thread = Thread_Group key, sm_timestamp = timestamp\<rparr>, b2)))
         | None \<Rightarrow>
             (case parse_recipient (sv_ext sv) (oa_recipient a) of
                None \<Rightarrow> (Inl NOT_CANONICAL, b)
              | Some sid \<Rightarrow>
                  (case perform (sp_send_message (sv_manager sv) sid
                          (Body_Data (attachment_message pointer timestamp)) timestamp) b of
                     (Inl error, b1) \<Rightarrow> (Inl error, b1)
                   | (Inr _, b1) \<Rightarrow> (Inr \<lparr>sm_thread = Thread_Contact sid, sm_timestamp = timestamp\<rparr>, b1))))"

definition upload_and_send_attachment ::
  "'w services \<Rightarrow> departed_groups \<Rightarrow> outgoing_attachment \<Rightarrow> 'w backend \<Rightarrow>
     (sent_message rresult \<times> 'w backend) option" where
  "upload_and_send_attachment sv mid a b =
     (case read_payload sv (oa_data a) b of
        (Inl error, b1) \<Rightarrow> Some (Inl error, b1)
      | (Inr data, b1) \<Rightarrow>
          if data = [] \<or> MAX_ATTACHMENT_BYTES < length data then
            Some (Inl ''Attachment size is outside the supported range'', b1)
          else
            case attachment_target sv a b1 of
              (Inl error, b2) \<Rightarrow> Some (Inl error, b2)
            | (Inr target, b2) \<Rightarrow>
                (case perform (sp_upload_attachment (sv_manager sv)
                        \<lparr>spec_content_type = oa_content_type a, spec_length = length data,
                         spec_file_name = Some (oa_filename a)\<rparr> data) b2 of
                   (Inl error, b3) \<Rightarrow> Some (Inl error, b3)
                 | (Inr pointer, b3) \<Rightarrow>
                     map_option (\<lambda>(timestamp, b4). send_uploaded sv mid a target pointer timestamp b4)
                       (next_timestamp sv b3)))"

datatype attachment_task_result = Task_Finished "sent_message rresult" | Task_Cancelled

record attachment_completion =
  ac_request_id :: u64
  ac_result :: attachment_task_result
  ac_permit :: attachment_permit

text \<open>\<open>None\<close> is a task that panicked or was aborted; the running tasks are the controls by request.\<close>

definition finish_attachment_completion ::
  "attachment_completion option \<Rightarrow> (u64 \<times> control_ref) list \<Rightarrow> 'w backend \<Rightarrow>
     sent_message option \<times> (u64 \<times> control_ref) list \<times> 'w backend" where
  "finish_attachment_completion completed attachment_aborts b =
     (case completed of
        None \<Rightarrow> (None, attachment_aborts, b)
      | Some completion \<Rightarrow>
          let request_id = ac_request_id completion;
              rest = AList.delete request_id attachment_aborts
          in case ac_result completion of
               Task_Finished (Inr sent) \<Rightarrow>
                 (Some sent, rest,
                  emit (event_default\<lparr>ev_kind := EVENT_ATTACHMENT_SENT, ev_request_id := request_id\<rparr>) b)
             | Task_Finished (Inl error) \<Rightarrow> (None, rest, emit (request_error request_id error) b)
             | Task_Cancelled \<Rightarrow> (None, rest, b))"

definition load_unprojected_messages ::
  "'w services \<Rightarrow> bool \<Rightarrow> message_replay_queue \<Rightarrow> 'w backend \<Rightarrow> message_replay_queue \<times> 'w backend" where
  "load_unprojected_messages sv authoritative replay b =
     (case perform (so_unprojected_messages (sv_repo sv)) b of
        (Inr messages, b1) \<Rightarrow> (replay_replace messages authoritative replay, b1)
      | (Inl error, b1) \<Rightarrow>
          (replay,
           if sqlite_store_error_is_transient error then b1
           else emit (event_error (''Could not read pending Signal messages: '' @ sse_display error) False) b1))"

section \<open>Every command is answered\<close>

text \<open>Handlers that emit only events without a request id.\<close>

definition quiet :: "'w backend \<Rightarrow> 'w backend \<Rightarrow> bool" where
  "quiet b c \<longleftrightarrow> (\<exists>es. bk_events c = bk_events b @ es \<and> list_all (\<lambda>e. ev_request_id e = 0) es)"

lemma quiet_same [intro]: "bk_events c = bk_events b \<Longrightarrow> quiet b c"
  by (auto simp: quiet_def)

lemma quiet_trans [trans]: "quiet a b \<Longrightarrow> quiet b c \<Longrightarrow> quiet a c"
proof -
  assume "quiet a b" "quiet b c"
  then obtain es fs where "bk_events b = bk_events a @ es" "list_all (\<lambda>e. ev_request_id e = 0) es"
      "bk_events c = bk_events b @ fs" "list_all (\<lambda>e. ev_request_id e = 0) fs" unfolding quiet_def by blast
  then show ?thesis unfolding quiet_def by (intro exI [of _ "es @ fs"]) simp
qed

lemma quiet_emit: "ev_request_id e = 0 \<Longrightarrow> quiet b c \<Longrightarrow> quiet b (emit e c)"
  by (rule quiet_trans, assumption) (auto simp: quiet_def)

text \<open>Calls that emit nothing and leave the groups being left alone.\<close>

definition same_reports :: "'w backend \<Rightarrow> 'w backend \<Rightarrow> bool" where
  "same_reports b c \<longleftrightarrow> bk_events c = bk_events b \<and> bk_departed c = bk_departed b"

definition calm :: "'w backend \<Rightarrow> 'w backend \<Rightarrow> bool" where
  "calm b c \<longleftrightarrow> quiet b c \<and> bk_departed c = bk_departed b"

lemma same_reports_trans [trans]: "same_reports a b \<Longrightarrow> same_reports b c \<Longrightarrow> same_reports a c"
  by (simp add: same_reports_def)

lemma same_reports_intro [intro]:
  "same_reports b b"
  "same_reports b c \<Longrightarrow> same_reports b (c\<lparr>bk_cache := m\<rparr>)" "same_reports b c \<Longrightarrow> same_reports b (c\<lparr>bk_latest := l\<rparr>)"
  by (simp_all add: same_reports_def)

lemma perform_same: "perform f b = (r, b1) \<Longrightarrow> same_reports b b1"
  by (auto simp: perform_def same_reports_def split: prod.splits)

lemma calm_same: "same_reports b c \<Longrightarrow> calm b c"
  by (auto simp: same_reports_def calm_def)

lemma calm_trans [trans]: "calm a b \<Longrightarrow> calm b c \<Longrightarrow> calm a c"
  by (auto simp: calm_def intro: quiet_trans)

lemma calm_emit: "ev_request_id e = 0 \<Longrightarrow> calm b c \<Longrightarrow> calm b (emit e c)"
  by (auto simp: calm_def intro: quiet_emit)

lemma calm_refl [intro, simp]: "calm b b"
  by (auto simp: calm_def)

lemma calm_quiet: "calm b c \<Longrightarrow> quiet b c"
  by (simp add: calm_def)

lemma scan_events: "scan_active_groups sv i b = (r, b1) \<Longrightarrow> same_reports b b1"
  by (auto simp: scan_active_groups_def split: prod.splits sum.splits option.splits dest!: perform_same intro: same_reports_trans)

lemma resolve_in_store_events: "resolve_active_group_in_store sv i b = (r, b1) \<Longrightarrow> same_reports b b1"
proof (cases "group_key_for_identifier i (bk_cache b)")
  case None
  then show "resolve_active_group_in_store sv i b = (r, b1) \<Longrightarrow> ?thesis"
    by (simp add: resolve_active_group_in_store_def scan_events)
next
  case (Some key)
  obtain a b2 where p: "perform (so_active_group (sv_repo sv) key (local_aci sv)) b = (a, b2)"
    by (cases "perform (so_active_group (sv_repo sv) key (local_aci sv)) b")
  assume "resolve_active_group_in_store sv i b = (r, b1)"
  then have "b1 = b2 \<or> scan_active_groups sv i b2 = (r, b1)"
    using Some p by (auto simp: resolve_active_group_in_store_def split: sum.splits option.splits)
  then show ?thesis using perform_same [OF p] scan_events same_reports_trans by metis
qed

lemma resolve_events:
  "resolve_active_group sv i b = (r, b1) \<Longrightarrow> same_reports b b1"
  "resolve_active_group_for_leave sv i b = (r, b1) \<Longrightarrow> same_reports b b1"
  by (auto simp: resolve_active_group_def resolve_active_group_for_leave_def split: if_splits
      dest: resolve_in_store_events)

lemma attempt_events: "attempt_outbox_message sv m b = (r, b1) \<Longrightarrow> same_reports b b1"
  by (cases "om_kind m")
     (auto simp: attempt_outbox_message_def split: option.splits prod.splits sum.splits
       dest!: perform_same resolve_events(1) intro: same_reports_trans)

lemma finish_events: "finish_outbox_attempt sv m res b = (r, b1) \<Longrightarrow> same_reports b b1"
  by (auto simp: finish_outbox_attempt_def Let_def split: sum.splits prod.splits if_splits dest!: perform_same intro: same_reports_trans)

lemma mark_sent_loop_events: "mark_sent_loop sv sent left b = (r, b1) \<Longrightarrow> same_reports b b1"
proof (induction left arbitrary: b)
  case Nil
  then show ?case
    by (subst (asm) mark_sent_loop.simps) (auto split: prod.splits sum.splits if_splits dest!: perform_same intro: same_reports_trans)
next
  case (Cons d left)
  obtain r0 b0 where p: "perform (so_mark_sent_message_projected (sv_repo sv) (sm_thread sent) (sm_timestamp sent)) b = (r0, b0)"
    by (cases "perform (so_mark_sent_message_projected (sv_repo sv) (sm_thread sent) (sm_timestamp sent)) b")
  from Cons.prems p have "b1 = b0 \<or> mark_sent_loop sv sent left b0 = (r, b1)"
    by (subst (asm) mark_sent_loop.simps) (auto split: sum.splits if_splits)
  then show ?case using Cons.IH perform_same [OF p] same_reports_trans by metis
qed

lemma mark_sent_calm: "calm b (mark_sent_message_projected_or_report sv sent b)"
  unfolding mark_sent_message_projected_or_report_def mark_sent_message_projected_def
  by (cases "mark_sent_loop sv sent MARK_SENT_PROJECTED_RETRY_DELAYS_MS b")
     (auto split: sum.split intro!: calm_emit dest: mark_sent_loop_events [THEN calm_same])

lemma retry_message_calm: "calm b (retry_outbox_message sv auth m b)"
proof (cases "outbox_message_is_attemptable (om_kind m) auth")
  case True
  obtain result b1 where a: "attempt_outbox_message sv m b = (result, b1)" by (cases "attempt_outbox_message sv m b")
  define b2 where "b2 = (case result of Inr sent \<Rightarrow> mark_sent_message_projected_or_report sv sent b1 | Inl _ \<Rightarrow> b1)"
  obtain r b3 where f: "finish_outbox_attempt sv m result b2 = (r, b3)" by (cases "finish_outbox_attempt sv m result b2")
  have "calm b b1" using attempt_events [OF a] by (rule calm_same)
  also have "calm b1 b2" using mark_sent_calm by (auto simp: b2_def split: sum.split)
  also have "calm b2 b3" using finish_events [OF f] by (rule calm_same)
  finally have q: "calm b b3" .
  show ?thesis
    using q by (auto simp: retry_outbox_message_def True a b2_def [symmetric] f Let_def split: sum.split intro!: calm_emit)
qed (auto simp: retry_outbox_message_def)

lemma retry_outbox_calm: "calm b (retry_outbox sv auth b)"
proof -
  have fold: "calm b (fold (retry_outbox_message sv auth) ms b)" for ms and b :: "'a backend"
    by (induction ms arbitrary: b) (auto intro: calm_trans retry_message_calm)
  obtain now b1 where c: "perform (sv_wall_clock_ms sv) b = (now, b1)" by (cases "perform (sv_wall_clock_ms sv) b")
  obtain r b2 where d: "perform (so_due_outbox_messages (sv_repo sv) now) b1 = (r, b2)"
    by (cases "perform (so_due_outbox_messages (sv_repo sv) now) b1")
  have "calm b b2" using same_reports_trans [OF perform_same [OF c] perform_same [OF d]] by (rule calm_same)
  then show ?thesis
    using calm_trans [OF _ fold, of b b2] by (auto simp: retry_outbox_def c d split: sum.split intro: calm_emit)
qed

lemma next_timestamp_events: "next_timestamp sv b = Some (t, b1) \<Longrightarrow> same_reports b b1"
  by (auto simp: next_timestamp_def split: prod.splits dest!: perform_same intro: same_reports_trans)

lemma enqueue_and_send_calm:
  assumes "enqueue_and_send sv request b = Some (r, b9)"
  shows "calm b b9"
proof -
  obtain t b1 where t: "next_timestamp sv b = Some (t, b1)"
    using assms by (auto simp: enqueue_and_send_def split: option.splits)
  obtain e b2 where e: "perform (so_enqueue_outbox_message (sv_repo sv) (no_kind request) (no_recipient request)
      (no_body request) t) b1 = (e, b2)"
    by (cases "perform (so_enqueue_outbox_message (sv_repo sv) (no_kind request) (no_recipient request)
      (no_body request) t) b1")
  have q2: "calm b b2" using same_reports_trans [OF next_timestamp_events [OF t] perform_same [OF e]] by (rule calm_same)
  show ?thesis
  proof (cases e)
    case (Inl x)
    then show ?thesis using assms q2 by (auto simp: enqueue_and_send_def t e)
  next
    case (Inr i)
    define m where "m = new_entry request i t 0"
    obtain result b3 where a: "attempt_outbox_message sv m b2 = (result, b3)" by (cases "attempt_outbox_message sv m b2")
    define b4 where "b4 = (case result of Inr sent \<Rightarrow> mark_sent_message_projected_or_report sv sent b3 | Inl _ \<Rightarrow> b3)"
    obtain f b5 where f: "finish_outbox_attempt sv m result b4 = (f, b5)" by (cases "finish_outbox_attempt sv m result b4")
    note q2
    also have "calm b2 b3" using attempt_events [OF a] by (rule calm_same)
    also have "calm b3 b4" using mark_sent_calm by (auto simp: b4_def split: sum.split)
    also have "calm b4 b5" using finish_events [OF f] by (rule calm_same)
    finally have "calm b b5" .
    moreover have "b9 = b5"
      using assms by (auto simp: enqueue_and_send_def t e Inr new_entry_def [symmetric] m_def [symmetric] a
          b4_def [symmetric] f Let_def split: sum.splits)
    ultimately show ?thesis by simp
  qed
qed

definition answered :: "u64 \<Rightarrow> 'w backend \<Rightarrow> 'w backend \<Rightarrow> nat \<Rightarrow> bool" where
  "answered i b c n \<longleftrightarrow> (\<exists>es. bk_events c = bk_events b @ es \<and> length (events_for i es) = n)"

lemma events_for_Cons: "events_for i (e # es) = (if ev_request_id e = i then e # events_for i es else events_for i es)"
  by (simp add: events_for_def)

lemma quiet_unanswered: "i \<noteq> 0 \<Longrightarrow> quiet b c \<Longrightarrow> answered i b c 0"
  unfolding quiet_def answered_def by (metis events_for_unrelated list.size(3))

lemma answered_emit:
  assumes "ev_request_id e = i" "i \<noteq> 0" "quiet b b1" "quiet (emit e b1) c"
  shows "answered i b c 1"
proof -
  obtain es fs where q: "bk_events b1 = bk_events b @ es" "list_all (\<lambda>e. ev_request_id e = 0) es"
      "bk_events c = (bk_events b1 @ [e]) @ fs" "list_all (\<lambda>e. ev_request_id e = 0) fs"
    using assms(3,4) unfolding quiet_def by auto
  show ?thesis
    unfolding answered_def using q assms(1) events_for_unrelated [OF q(2) assms(2)] events_for_unrelated [OF q(4) assms(2)]
    by (intro exI [of _ "es @ [e] @ fs"]) (simp add: events_for_Cons)
qed

lemma answered_emit_last: "ev_request_id e = i \<Longrightarrow> i \<noteq> 0 \<Longrightarrow> quiet b b1 \<Longrightarrow> answered i b (emit e b1) 1"
  by (rule answered_emit) auto

lemma report_failure_quiet: "quiet b (report_failure what r b)"
  by (auto simp: report_failure_def split: sum.split intro: quiet_emit)

lemma emit_leave_accepted:
  "bk_events (emit_leave_completion i gk (Leave_Accepted peers removed) b) =
     bk_events b @ event_default\<lparr>ev_kind := EVENT_GROUP_LEFT, ev_request_id := i, ev_chat_id := Some gk\<rparr> #
       map (\<lambda>w. event_error w False) (group_leave_warning_messages peers removed)"
  by (simp add: emit_leave_completion_def group_leave_completion_events_def)

lemma accepted_leave_answered:
  assumes i: "i \<noteq> 0"
  shows "answered i b (accepted_leave sv auth i gk outcome b) 1"
proof -
  define b1 where "b1 = emit_leave_completion i gk
      (Leave_Accepted (lo_peer_notification_sent outcome) (lo_local_group_removed outcome)) b"
  obtain r b3 where x: "perform (so_expedite_outbox_messages (sv_repo sv) gk)
      (b1\<lparr>bk_cache := remove_group_index gk (bk_cache b1)\<rparr>) = (r, b3)"
    by (cases "perform (so_expedite_outbox_messages (sv_repo sv) gk) (b1\<lparr>bk_cache := remove_group_index gk (bk_cache b1)\<rparr>)")
  let ?left = "event_default\<lparr>ev_kind := EVENT_GROUP_LEFT, ev_request_id := i, ev_chat_id := Some gk\<rparr>"
  let ?warn = "map (\<lambda>w. event_error w False)
      (group_leave_warning_messages (lo_peer_notification_sent outcome) (lo_local_group_removed outcome))"
  have "list_all (\<lambda>e. ev_request_id e = 0) ?warn" by (simp add: list_all_iff)
  then have "quiet (emit ?left b) b1"
    unfolding quiet_def by (intro exI [of _ ?warn]) (simp add: b1_def emit_leave_accepted)
  also have "quiet b1 b3" using perform_events [OF x] by auto
  also have "quiet b3 (report_failure ''Could not schedule stale group messages for cleanup: '' r b3)"
    by (rule report_failure_quiet)
  also have "quiet \<dots> (accepted_leave sv auth i gk outcome b)"
    using calm_quiet [OF retry_outbox_calm] by (simp add: accepted_leave_def b1_def [symmetric] x Let_def)
  finally show ?thesis by (intro answered_emit [OF _ i]) auto
qed

lemma answered_after: "quiet a b \<Longrightarrow> answered i b c n \<Longrightarrow> i \<noteq> 0 \<Longrightarrow> answered i a c n"
proof -
  assume "quiet a b" "answered i b c n" "i \<noteq> 0"
  then obtain es fs where "bk_events b = bk_events a @ es" "events_for i es = []"
      "bk_events c = bk_events b @ fs" "length (events_for i fs) = n"
    unfolding quiet_def answered_def using events_for_unrelated by blast
  then show ?thesis unfolding answered_def by (intro exI [of _ "es @ fs"]) simp
qed

lemma leave_answered:
  assumes i: "i \<noteq> 0"
  shows "answered i b (handle_leave_group sv auth i gk b) 1"
proof (cases auth)
  case False
  have "answered i b (refuse_leave i gk error b) 1" for error
    unfolding refuse_leave_def using i by (intro answered_emit_last) auto
  then show ?thesis using False by (simp add: handle_leave_group_def)
next
  case True
  obtain r b1 where r: "resolve_active_group_for_leave sv gk b = (r, b1)" by (cases "resolve_active_group_for_leave sv gk b")
  have refuse: "answered i b (refuse_leave i gk error b1) 1" for error
    unfolding refuse_leave_def using i resolve_events(2) [OF r, unfolded same_reports_def] by (intro answered_emit_last) auto
  consider e where "r = Inl e" | "r = Inr None" | key g where "r = Inr (Some (key, g))"
    by (metis option.exhaust sum.exhaust prod.exhaust)
  then show ?thesis
  proof cases
    case (3 key g)
    obtain o2 b2 where l: "perform (sp_leave_group (sv_manager sv) key) b1 = (o2, b2)"
      by (cases "perform (sp_leave_group (sv_manager sv) key) b1")
    have q2: "quiet b (b2\<lparr>bk_departed := dg\<rparr>)" "quiet b b2" for dg
      using resolve_events(2) [OF r, unfolded same_reports_def] perform_events [OF l] by auto
    show ?thesis
    proof (cases o2)
      case (Inl e)
      then show ?thesis
        using True r 3 l answered_emit_last [OF _ i q2(1)]
        by (simp add: handle_leave_group_def emit_leave_completion_def group_leave_completion_events_def)
    next
      case (Inr outcome)
      then show ?thesis
        using True r 3 l answered_after [OF q2(2) accepted_leave_answered [OF i] i] by (simp add: handle_leave_group_def)
    qed
  qed (use True r refuse in \<open>auto simp: handle_leave_group_def\<close>)
qed

text \<open>The request a command carries, and the commands that report their outcome either way.\<close>

primrec command_request_id :: "command \<Rightarrow> u64" where
  "command_request_id (Send_Message i _ _) = i"
| "command_request_id (Send_Group_Message i _ _) = i"
| "command_request_id (Leave_Group i _) = i"
| "command_request_id (Send_Attachment i _ _ _ _ _ _) = i"
| "command_request_id (Set_Typing i _ _) = i"
| "command_request_id (Accept_Identity i _) = i"
| "command_request_id (Dismiss_Identity i _) = i"
| "command_request_id (Reset_Session i _) = i"
| "command_request_id (Mark_Read i _ _) = i"

fun reports_outcome :: "command \<Rightarrow> bool" where
  "reports_outcome (Leave_Group _ _) = True"
| "reports_outcome (Accept_Identity _ _) = True"
| "reports_outcome (Dismiss_Identity _ _) = True"
| "reports_outcome (Reset_Session _ _) = True"
| "reports_outcome _ = False"

lemma accept_identity_answered:
  assumes i: "i \<noteq> 0"
  shows "answered i b (handle_accept_identity sv auth i recipient b) 1"
proof -
  obtain r b1 where a: "perform (so_accept_identity_change (sv_repo sv) recipient) b = (r, b1)"
    by (cases "perform (so_accept_identity_change (sv_repo sv) recipient) b")
  have q1: "quiet b b1" using perform_events [OF a] by auto
  obtain x b2 where e: "perform (so_expedite_outbox_messages (sv_repo sv) recipient) b1 = (x, b2)"
    by (cases "perform (so_expedite_outbox_messages (sv_repo sv) recipient) b1")
  have q2: "quiet b (report_failure w x b2)" for w
    using quiet_trans [OF q1 quiet_trans [OF quiet_same report_failure_quiet]] perform_events [OF e] by auto
  show ?thesis
    using answered_emit_last [OF _ i q1] answered_emit [OF _ i q2 calm_quiet [OF retry_outbox_calm]]
    by (auto simp: handle_accept_identity_def a e split: sum.split bool.split)
qed


lemma dismiss_identity_answered:
  assumes i: "i \<noteq> 0"
  shows "answered i b (handle_dismiss_identity sv i recipient b) 1"
proof -
  obtain r b1 where a: "perform (so_dismiss_identity_change (sv_repo sv) recipient) b = (r, b1)"
    by (cases "perform (so_dismiss_identity_change (sv_repo sv) recipient) b")
  have "quiet b b1" using perform_events [OF a] by auto
  from answered_emit_last [OF _ i this] show ?thesis
    by (auto simp: handle_dismiss_identity_def a split: sum.split)
qed

lemma reset_session_answered:
  assumes i: "i \<noteq> 0"
  shows "answered i b (handle_reset_session sv i recipient b) 1"
proof -
  let ?r = "case parse_recipient (sv_ext sv) recipient of
      Some sid \<Rightarrow> perform (sp_clear_sessions (sv_manager sv) sid) b | None \<Rightarrow> (Inl NOT_CANONICAL, b)"
  obtain r b1 where r: "?r = (r, b1)" by (cases ?r)
  then have "bk_events b1 = bk_events b" by (auto split: option.splits dest: perform_events)
  then have "quiet b b1" by auto
  from answered_emit_last [OF _ i this] show ?thesis
    by (auto simp: handle_reset_session_def r split: sum.split)
qed

text \<open>A handler that reports, for its request, at most one event.\<close>

definition answered_once :: "u64 \<Rightarrow> 'w backend \<Rightarrow> 'w backend \<Rightarrow> bool" where
  "answered_once i b c \<longleftrightarrow> answered i b c 0 \<or> answered i b c 1"

lemma answered_once_emit:
  assumes "i \<noteq> 0" "quiet b c"
  shows "answered_once i b c" "ev_request_id e = i \<Longrightarrow> answered_once i b (emit e c)"
  using quiet_unanswered [OF assms] answered_emit_last [OF _ assms] by (auto simp: answered_once_def)

lemma send_at_new_timestamp_answered:
  assumes i: "i \<noteq> 0" and run: "send_at_new_timestamp sv i recipient message b = Some c"
  shows "answered_once i b c"
proof (cases "parse_recipient (sv_ext sv) recipient")
  case None
  then show ?thesis
    using run answered_once_emit [OF i quiet_same [OF refl, of b]] by (auto simp: send_at_new_timestamp_def)
next
  case (Some sid)
  then obtain t b1 where t: "next_timestamp sv b = Some (t, b1)" using run by (auto simp: send_at_new_timestamp_def)
  obtain r b2 where p: "perform (sp_send_message (sv_manager sv) sid (message t) t) b1 = (r, b2)"
    by (cases "perform (sp_send_message (sv_manager sv) sid (message t) t) b1")
  have "quiet b b2"
    using same_reports_trans [OF next_timestamp_events [OF t] perform_same [OF p]] by (intro calm_quiet calm_same)
  from answered_once_emit [OF i this] show ?thesis
    using run by (auto simp: send_at_new_timestamp_def Some t p split: sum.splits)
qed

lemma send_message_answered:
  assumes i: "i \<noteq> 0" and run: "handle_send_message sv i recipient message b = Some c"
  shows "answered_once i b c"
proof -
  let ?request = "\<lparr>no_kind = Kind_Direct, no_recipient = recipient, no_body = message\<rparr>"
  let ?r = "if parse_recipient (sv_ext sv) recipient \<noteq> None then enqueue_and_send sv ?request b
      else Some (Inl (ox_permanent NOT_CANONICAL), b)"
  obtain r b1 where r: "?r = Some (r, b1)" using run unfolding handle_send_message_def by (cases ?r) auto
  then have "quiet b b1" using enqueue_and_send_calm [of sv ?request b r b1] by (auto simp: calm_quiet split: if_splits)
  from answered_once_emit [OF i this] show ?thesis
    using run unfolding handle_send_message_def r by (auto split: sum.splits if_splits)
qed

lemma send_group_message_answered:
  assumes i: "i \<noteq> 0" and run: "handle_send_group_message sv auth i gk message b = Some c"
  shows "answered_once i b c"
proof -
  let ?request = "\<lparr>no_kind = Kind_Group, no_recipient = gk, no_body = message\<rparr>"
  let ?r = "if \<not> auth then Some (Inl (ox_retry GROUPS_NOT_AUTHORITATIVE), b)
      else case resolve_active_group sv gk b of
          (Inr (Some _), b1) \<Rightarrow> enqueue_and_send sv ?request b1
        | (Inr None, b1) \<Rightarrow> Some (Inl (ox_permanent GROUP_UNAVAILABLE), b1)
        | (Inl error, b1) \<Rightarrow> Some (Inl (classify error), b1)"
  obtain r b2 where r: "?r = Some (r, b2)" using run unfolding handle_send_group_message_def by (cases ?r) auto
  have "quiet b b2"
  proof (cases auth)
    case True
    obtain a b1 where a: "resolve_active_group sv gk b = (a, b1)" by (cases "resolve_active_group sv gk b")
    have "calm b b1" using resolve_events(1) [OF a] by (rule calm_same)
    moreover have "b2 = b1 \<or> enqueue_and_send sv ?request b1 = Some (r, b2)"
      using r True a by (auto split: sum.splits option.splits)
    ultimately show ?thesis using enqueue_and_send_calm calm_trans calm_quiet by metis
  qed (use r in auto)
  from answered_once_emit [OF i this] show ?thesis
    using run unfolding handle_send_group_message_def r by (auto split: sum.splits if_splits)
qed

lemma handle_command_answered:
  assumes i: "command_request_id c \<noteq> 0" and run: "handle_command sv auth c b = Some b1"
  shows "if reports_outcome c then answered (command_request_id c) b b1 1 else answered_once (command_request_id c) b b1"
proof (cases c)
  case (Leave_Group r gk)
  then show ?thesis using assms leave_answered by (auto simp: handle_command_def)
next
  case (Accept_Identity r p)
  then show ?thesis using assms accept_identity_answered by (auto simp: handle_command_def)
next
  case (Dismiss_Identity r p)
  then show ?thesis using assms dismiss_identity_answered by (auto simp: handle_command_def)
next
  case (Reset_Session r p)
  then show ?thesis using assms reset_session_answered by (auto simp: handle_command_def)
next
  case (Send_Message r p m)
  then show ?thesis using assms send_message_answered by (auto simp: handle_command_def)
next
  case (Send_Group_Message r p m)
  then show ?thesis using assms send_group_message_answered by (auto simp: handle_command_def)
next
  case (Set_Typing r p t)
  then show ?thesis using assms send_at_new_timestamp_answered by (auto simp: handle_command_def handle_set_typing_def)
next
  case (Mark_Read r p t)
  then show ?thesis using assms send_at_new_timestamp_answered by (auto simp: handle_command_def handle_mark_read_def)
qed (use assms in \<open>simp add: handle_command_def\<close>)

subsection \<open>How a leave ends\<close>

lemma fold_emit_departed [simp]: "bk_departed (fold emit es b) = bk_departed b"
  by (induction es arbitrary: b) (simp_all add: emit_def)

lemma accepted_leave_state:
  "\<exists>new. bk_events (accepted_leave sv auth i gk outcome b) = bk_events b @ new \<and>
     list_ex (\<lambda>e. ev_kind e = EVENT_GROUP_LEFT) new \<and>
     bk_departed (accepted_leave sv auth i gk outcome b) = mark_departed gk (bk_departed b)"
proof -
  define b1 where "b1 = emit_leave_completion i gk
      (Leave_Accepted (lo_peer_notification_sent outcome) (lo_local_group_removed outcome)) b"
  let ?b2 = "b1\<lparr>bk_cache := remove_group_index gk (bk_cache b1)\<rparr>"
  obtain r b3 where x: "perform (so_expedite_outbox_messages (sv_repo sv) gk) ?b2 = (r, b3)"
    by (cases "perform (so_expedite_outbox_messages (sv_repo sv) gk) ?b2")
  have d1: "bk_departed b1 = mark_departed gk (bk_departed b)"
    by (simp add: b1_def emit_leave_completion_def group_leave_completion_events_def)
  have "calm b1 b3" using perform_same [OF x] by (intro calm_same) (auto simp: same_reports_def)
  also have "calm b3 (report_failure ''Could not schedule stale group messages for cleanup: '' r b3)"
    by (auto simp: report_failure_def split: sum.split intro: calm_emit)
  also have "calm \<dots> (accepted_leave sv auth i gk outcome b)"
    using retry_outbox_calm by (simp add: accepted_leave_def b1_def [symmetric] x Let_def)
  finally obtain es where es: "bk_events (accepted_leave sv auth i gk outcome b) = bk_events b1 @ es"
      "bk_departed (accepted_leave sv auth i gk outcome b) = bk_departed b1"
    unfolding calm_def quiet_def by blast
  then show ?thesis using d1 unfolding b1_def emit_leave_accepted by simp
qed

lemma refuse_leave_state:
  assumes "same_reports b b1"
  shows "bk_events (refuse_leave i gk error b1) = bk_events b @ [group_request_error i gk error]"
    "bk_departed (refuse_leave i gk error b1) = cancel_leave gk (bk_departed b)"
  using assms by (simp_all add: refuse_leave_def same_reports_def emit_def)

lemma failed_leave: "emit_leave_completion i gk (Leave_Failed error) b = refuse_leave i gk error b"
  by (simp add: emit_leave_completion_def group_leave_completion_events_def refuse_leave_def)

lemma leave_cases:
  obtains error b1 where "same_reports b b1" "handle_leave_group sv auth i gk b = refuse_leave i gk error b1"
  | outcome b2 where "same_reports b b2" "auth" "\<not> is_departed (bk_departed b) gk"
      "handle_leave_group sv auth i gk b = accepted_leave sv auth i gk outcome b2"
proof (cases auth)
  case False
  then show thesis using that(1) by (auto simp: handle_leave_group_def)
next
  case True
  obtain r b1 where r: "resolve_active_group_for_leave sv gk b = (r, b1)" by (cases "resolve_active_group_for_leave sv gk b")
  note same = resolve_events(2) [OF r]
  consider e where "r = Inl e" | "r = Inr None" | key g where "r = Inr (Some (key, g))"
    by (metis option.exhaust sum.exhaust prod.exhaust)
  then show thesis
  proof cases
    case (3 key g)
    obtain o2 b2 where l: "perform (sp_leave_group (sv_manager sv) key) b1 = (o2, b2)"
      by (cases "perform (sp_leave_group (sv_manager sv) key) b1")
    have "\<not> is_departed (bk_departed b) gk"
      using r 3 by (auto simp: resolve_active_group_for_leave_def split: if_splits)
    then show thesis
      using that same_reports_trans [OF same perform_same [OF l]] True r 3 l
      by (cases o2) (auto simp: handle_leave_group_def failed_leave)
  qed (use True r same that(1) in \<open>auto simp: handle_leave_group_def\<close>)
qed

subsection \<open>What an attachment task sends\<close>

lemma logged_attachment_simps [simp]:
  "sv_wall_clock_ms (logged sv) = lift_io (sv_wall_clock_ms sv)"
  "sv_read_file (logged sv) p = lift_io (sv_read_file sv p)"
  "sp_upload_attachment (sv_manager (logged sv)) sp d = lift_io (sp_upload_attachment (sv_manager sv) sp d)"
  by (simp_all add: logged_def logged_manager_def)

definition supported_payload :: "attachment_payload \<Rightarrow> bool" where
  "supported_payload payload =
     (case payload of Payload_Data d \<Rightarrow> d \<noteq> [] \<and> length d \<le> MAX_ATTACHMENT_BYTES | Payload_Path _ \<Rightarrow> True)"

definition legitimate_attachment :: "'w services \<Rightarrow> departed_groups \<Rightarrow> outgoing_attachment \<Rightarrow> send \<Rightarrow> bool" where
  "legitimate_attachment sv mid a s =
     (case s of
        Send_Direct recipient body t \<Rightarrow>
          \<not> oa_group a \<and> parse_recipient (sv_ext sv) (oa_recipient a) = Some recipient \<and>
          (\<exists>pointer. body = Body_Data (attachment_message pointer t))
      | Send_Group key body t \<Rightarrow>
          oa_group a \<and> \<not> departed_contains mid (group_identifier (sv_ext sv) key) \<and>
          (\<exists>pointer g. group_contains_local_aci g (local_aci sv) \<and>
             body = Body_Data (group_attachment_message pointer t key g)))"

lemma read_payload_logged:
  assumes "read_payload (logged sv) payload b = (r, b1)"
  shows "sends b1 = sends b" "r = Inr d \<Longrightarrow> d \<noteq> [] \<Longrightarrow> length d \<le> MAX_ATTACHMENT_BYTES \<Longrightarrow> supported_payload payload"
  using assms
  by (auto simp: read_payload_def supported_payload_def split: attachment_payload.splits prod.splits dest: perform_lift)

lemma attachment_target_logged:
  assumes "sv_repo sv = storage_repository st" "attachment_target (logged sv) a b = (r, b1)"
  shows "sends b1 = sends b" "r = Inr target \<Longrightarrow> oa_group a \<longleftrightarrow> target \<noteq> None"
proof -
  obtain g b2 where g: "resolve_active_group (logged sv) (oa_recipient a) b = (g, b2)"
    by (cases "resolve_active_group (logged sv) (oa_recipient a) b")
  have "sends b2 = sends b" using resolve_active_group_logged [OF assms(1) g] by simp
  then show "sends b1 = sends b" "r = Inr target \<Longrightarrow> oa_group a \<longleftrightarrow> target \<noteq> None"
    using assms(2) g by (auto simp: attachment_target_def split: sum.splits option.splits if_splits)
qed

lemma next_timestamp_logged: "next_timestamp (logged sv) b = Some (t, b1) \<Longrightarrow> sends b1 = sends b"
  by (auto simp: next_timestamp_def split: prod.splits dest!: perform_lift)

lemma active_group_by_key_logged:
  assumes "sv_repo sv = storage_repository st" "active_group_by_key (logged sv) key b = (r, b1)"
  shows "sends b1 = sends b"
    "r = Inr (Some g) \<Longrightarrow> \<not> departed_contains (bk_departed b) (group_identifier (sv_ext sv) key) \<and>
       group_contains_local_aci g (local_aci sv)"
proof -
  obtain x b2 where x: "perform (lift_io (so_active_group (sv_repo sv) key (local_aci sv))) b = (x, b2)"
    by (cases "perform (lift_io (so_active_group (sv_repo sv) key (local_aci sv))) b")
  show "sends b1 = sends b"
    using assms(2) x perform_lift [OF x] by (auto simp: active_group_by_key_def split: if_splits)
  show "r = Inr (Some g) \<Longrightarrow> \<not> departed_contains (bk_departed b) (group_identifier (sv_ext sv) key) \<and>
       group_contains_local_aci g (local_aci sv)"
    using assms(2) x active_group_logged [OF assms(1), of key "local_aci sv" b g b2]
    by (cases x) (auto simp: active_group_by_key_def split: if_splits)
qed

lemma send_uploaded_logged:
  assumes repo: "sv_repo sv = storage_repository st" and target: "oa_group a \<longleftrightarrow> target \<noteq> None"
    and run: "send_uploaded (logged sv) mid a target pointer t b = (r, b1)"
  shows "\<exists>new. sends b1 = sends b @ new \<and> length new \<le> 1 \<and> list_all (legitimate_attachment sv mid a) new \<and>
    (case r of Inr _ \<Rightarrow> new \<noteq> [] | Inl _ \<Rightarrow> True)"
proof (cases target)
  case None
  then show ?thesis
    using target run
    by (auto simp: send_uploaded_def legitimate_attachment_def Let_def
        split: option.splits prod.splits sum.splits dest!: perform_logged)
next
  case (Some key)
  obtain x b2 where x: "active_group_by_key (logged sv) key (b\<lparr>bk_departed := mid\<rparr>) = (x, b2)"
    by (cases "active_group_by_key (logged sv) key (b\<lparr>bk_departed := mid\<rparr>)")
  note active = active_group_by_key_logged [OF repo x]
  consider e where "x = Inl e" | "x = Inr None" | g where "x = Inr (Some g)" by (metis option.exhaust sum.exhaust)
  then show ?thesis
  proof cases
    case (3 g)
    let ?sent = "Send_Group key (Body_Data (group_attachment_message pointer t key g)) t"
    have "legitimate_attachment sv mid a ?sent"
      using target Some active(2) [OF 3] unfolding legitimate_attachment_def send.case by auto
    then show ?thesis
      using run Some x 3 active(1)
      by (auto simp: send_uploaded_def Let_def split: prod.splits sum.splits dest!: perform_logged)
  qed (use run Some x active(1) in \<open>auto simp: send_uploaded_def Let_def\<close>)
qed

lemma attachment_sends:
  assumes repo: "sv_repo sv = storage_repository st"
    and run: "upload_and_send_attachment (logged sv) mid a b = Some (res, b9)"
  shows "\<exists>new. sends b9 = sends b @ new \<and> length new \<le> 1 \<and> list_all (legitimate_attachment sv mid a) new \<and>
    (case res of Inr _ \<Rightarrow> new \<noteq> [] | Inl _ \<Rightarrow> True) \<and> (new = [] \<or> supported_payload (oa_data a))"
proof -
  obtain d b1 where d: "read_payload (logged sv) (oa_data a) b = (d, b1)" by (cases "read_payload (logged sv) (oa_data a) b")
  have same: ?thesis if "sends b9 = sends b" "res = Inl e" for e using that by (intro exI [of _ "[]"]) simp
  show ?thesis
  proof (cases d)
    case (Inl e)
    then show ?thesis
      using run d read_payload_logged(1) [OF d] same by (auto simp: upload_and_send_attachment_def)
  next
    case (Inr bytes)
    show ?thesis
    proof (cases "bytes = [] \<or> MAX_ATTACHMENT_BYTES < length bytes")
      case True
      then show ?thesis
        using run d Inr read_payload_logged(1) [OF d] same by (auto simp: upload_and_send_attachment_def)
    next
      case False
      then have ok: "supported_payload (oa_data a)" using read_payload_logged(2) [OF d Inr] by simp
      obtain g b2 where g: "attachment_target (logged sv) a b1 = (g, b2)" by (cases "attachment_target (logged sv) a b1")
      note s2 = attachment_target_logged(1) [OF repo g, unfolded read_payload_logged(1) [OF d]]
      let ?spec = "\<lparr>spec_content_type = oa_content_type a, spec_length = length bytes, spec_file_name = Some (oa_filename a)\<rparr>"
      obtain u b3 where u: "perform (lift_io (sp_upload_attachment (sv_manager sv) ?spec bytes)) b2 = (u, b3)"
        by (cases "perform (lift_io (sp_upload_attachment (sv_manager sv) ?spec bytes)) b2")
      have s3: "sends b3 = sends b" using perform_lift [OF u] s2 by simp
      consider e where "g = Inl e" | e target where "g = Inr target" "u = Inl e"
        | target pointer where "g = Inr target" "u = Inr pointer" by (metis sum.exhaust)
      then show ?thesis
      proof cases
        case (3 target pointer)
        then obtain t b4 where t: "next_timestamp (logged sv) b3 = Some (t, b4)"
            and s: "send_uploaded (logged sv) mid a target pointer t b4 = (res, b9)"
          using run False by (auto simp: upload_and_send_attachment_def d Inr g u)
        show ?thesis
          using send_uploaded_logged [OF repo attachment_target_logged(2) [OF repo g 3(1)] s]
            next_timestamp_logged [OF t] s3 ok by auto
      qed (use run False d Inr g u s2 s3 same in \<open>auto simp: upload_and_send_attachment_def\<close>)
    qed
  qed
qed

section \<open>Properties\<close>

text \<open>
  C24. A command with a request id is answered at most once: the events its handling adds contain at most one with that id, and exactly one when the
  command leaves a group, accepts or dismisses an identity change, or resets a session.
\<close>

theorem command_answered:
  assumes "command_request_id c \<noteq> 0" "handle_command sv auth c b = Some b1"
  shows "\<exists>es. bk_events b1 = bk_events b @ es \<and>
    (if reports_outcome c then length (events_for (command_request_id c) es) = 1
     else length (events_for (command_request_id c) es) \<le> 1)"
  using handle_command_answered [OF assms]
  by (auto simp: answered_def answered_once_def split: if_splits)

theorem command_answered_witness:
  "\<exists>es. bk_events (handle_leave_group sample_services False 5 ''g'' sample_backend) = bk_events sample_backend @ es \<and>
     length (events_for 5 es) = 1"
  using command_answered [of "Leave_Group 5 ''g''" sample_services False sample_backend
      "handle_leave_group sample_services False 5 ''g'' sample_backend"]
  by (simp add: handle_command_def)

text \<open>
  C25. Leaving a group always settles: afterwards the group is departed exactly when the leave was announced to the plugin, and otherwise the
  leave is cancelled and one error for the group is reported. A group already left, or a group while the
  groups are not synchronized, is refused.
\<close>

theorem leave_settles:
  "\<exists>new. bk_events (handle_leave_group sv auth i gk b) = bk_events b @ new \<and>
     (if list_ex (\<lambda>e. ev_kind e = EVENT_GROUP_LEFT) new
      then auth \<and> \<not> is_departed (bk_departed b) gk \<and>
        bk_departed (handle_leave_group sv auth i gk b) = mark_departed gk (bk_departed b)
      else (\<exists>error. new = [group_request_error i gk error]) \<and>
        bk_departed (handle_leave_group sv auth i gk b) = cancel_leave gk (bk_departed b))"
proof (rule leave_cases [of b sv auth i gk])
  fix error b1
  assume r: "same_reports b b1" "handle_leave_group sv auth i gk b = refuse_leave i gk error b1"
  have "ev_kind (group_request_error i gk error) \<noteq> EVENT_GROUP_LEFT" by (simp add: event_kind_defs)
  then show ?thesis unfolding r(2) refuse_leave_state [OF r(1)] by auto
next
  fix outcome b2
  assume "same_reports b b2" "auth" "\<not> is_departed (bk_departed b) gk"
    and h: "handle_leave_group sv auth i gk b = accepted_leave sv auth i gk outcome b2"
  then show ?thesis
    using accepted_leave_state [of sv auth i gk outcome b2] unfolding h same_reports_def by auto
qed


end
