(* ===== verification/Snapshots.thy ===== *)
theory Snapshots
  imports Commands Media_Files
begin

section \<open>Snapshots for the plugin (backend/coordinator.rs)\<close>

text \<open>
  What the backend tells the plugin about contacts, groups, the account, changed identities and avatars, and the picture of
  the linking code. A snapshot reads the store and the avatar cache and emits its records between a begin and an
  end event. The result is that the plugin can read the groups of the store back from the events of a snapshot.
\<close>

text \<open>
  The store a snapshot reads, the image library, and the outcomes of the file operations on an avatar. The state beside the
  backend is the avatar cache.
\<close>

record ('w, 'img) snapshot_services =
  sn_services :: "'w services"
  sn_store :: "'w sqlite_store"
  sn_images :: "'img image_library"
  sn_files :: "bytes \<Rightarrow> file_outcomes"

type_synonym 'w snapshot_state = "avatar_cache \<times> 'w backend"

abbreviation sn_ext :: "('w, 'img) snapshot_services \<Rightarrow> externals" where
  "sn_ext sn \<equiv> sv_ext (sn_services sn)"

definition emit_avatar ::
  "('w, 'img) snapshot_services \<Rightarrow> string option \<Rightarrow> string option \<Rightarrow> bytes \<Rightarrow> 'w snapshot_state \<Rightarrow> 'w snapshot_state" where
  "emit_avatar sn peer chat avatar s =
     (case prepare_avatar (sn_ext sn) (sn_images sn) (sn_files sn avatar) avatar (fst s) of
        ((avatar_data, checksum), c) \<Rightarrow>
          (c, emit (event_default\<lparr>ev_kind := EVENT_AVATAR, ev_peer_id := peer, ev_chat_id := chat,
                ev_title := Some checksum, ev_data := avatar_data\<rparr>) (snd s)))"

text \<open>A failed read of an optional value is logged and counts as absent.\<close>

definition read_optional :: "('w, sqlite_store_error + 'a option) io \<Rightarrow> 'w backend \<Rightarrow> 'a option \<times> 'w backend" where
  "read_optional f b =
     (case perform f b of (Inr v, b1) \<Rightarrow> (v, b1) | (Inl _, b1) \<Rightarrow> (None, b1))"

subsection \<open>Contacts\<close>

definition contact_peer :: "externals \<Rightarrow> contact \<Rightarrow> string" where
  "contact_peer x contact = x_service_id_string x (Aci (co_uuid contact))"

definition contact_key_of :: "'w sqlite_store \<Rightarrow> contact \<Rightarrow> 'w backend \<Rightarrow> bytes option \<times> 'w backend" where
  "contact_key_of st contact b =
     (if length (co_profile_key contact) = 32 then (Some (co_profile_key contact), b)
      else read_optional (sq_profile_key st (Aci (co_uuid contact))) b)"

definition contact_cached_avatar :: "'w sqlite_store \<Rightarrow> contact \<Rightarrow> 'w backend \<Rightarrow> bytes option \<times> 'w backend" where
  "contact_cached_avatar st contact b =
     (case contact_key_of st contact b of
        (None, b1) \<Rightarrow> (None, b1)
      | (Some key, b1) \<Rightarrow> read_optional (sq_profile_avatar st (co_uuid contact) key) b1)"

definition contact_event :: "externals \<Rightarrow> metadata_cache \<Rightarrow> contact \<Rightarrow> event" where
  "contact_event x m contact =
     event_default\<lparr>ev_kind := EVENT_CONTACT, ev_peer_id := Some (contact_peer x contact),
       ev_title := (if co_name contact \<noteq> [] then Some (co_name contact) else get_contact_name (contact_peer x contact) m),
       ev_text := co_phone_number contact\<rparr>"

definition emit_contact :: "('w, 'img) snapshot_services \<Rightarrow> contact \<Rightarrow> 'w snapshot_state \<Rightarrow> 'w snapshot_state" where
  "emit_contact sn contact s =
     (let peer = contact_peer (sn_ext sn) contact;
          b1 = (if co_name contact \<noteq> []
                then (snd s)\<lparr>bk_cache := put_contact_name peer (co_name contact) (bk_cache (snd s))\<rparr> else snd s);
          b2 = emit (contact_event (sn_ext sn) (bk_cache b1) contact) b1
      in case contact_cached_avatar (sn_store sn) contact b2 of
           (None, b3) \<Rightarrow> (fst s, b3)
         | (Some avatar, b3) \<Rightarrow> emit_avatar sn (Some peer) None avatar (fst s, b3))"

definition emit_contact_snapshot :: "('w, 'img) snapshot_services \<Rightarrow> 'w snapshot_state \<Rightarrow> 'w snapshot_state" where
  "emit_contact_snapshot sn s =
     (case perform (repo_contacts (sn_store sn)) (snd s) of
        (Inr contacts, b1) \<Rightarrow>
          (case fold (emit_contact sn) contacts
                  (fst s, emit (event_default\<lparr>ev_kind := EVENT_CONTACT_SYNC_BEGIN\<rparr>) b1) of
             (c, b2) \<Rightarrow> (c, emit (event_default\<lparr>ev_kind := EVENT_CONTACT_SYNC_END\<rparr>) b2))
      | (Inl error, b1) \<Rightarrow>
          (fst s,
           if storage_error_is_transient error then b1
           else emit (event_error (''Could not read synchronized Signal contacts: '' @ storage_error_display error) False) b1))"

subsection \<open>Groups\<close>

definition group_event :: "string \<Rightarrow> group \<Rightarrow> event" where
  "group_event chat_id g =
     event_default\<lparr>ev_kind := EVENT_GROUP, ev_chat_id := Some chat_id, ev_title := Some (gr_title g)\<rparr>"

definition group_member_event :: "externals \<Rightarrow> string \<Rightarrow> group_member \<Rightarrow> event" where
  "group_member_event x chat_id member =
     event_default\<lparr>ev_kind := EVENT_GROUP_MEMBER, ev_chat_id := Some chat_id,
       ev_peer_id := Some (x_service_id_string x (Aci (gm_aci member))),
       ev_value := (if gm_administrator member then 1 else 0)\<rparr>"

text \<open>
  One group of the snapshot. The task runs beside the commands, so the groups being left are given for the time each group is reached.
\<close>

definition shown_group :: "('w, 'img) snapshot_services \<Rightarrow> (group_key \<Rightarrow> departed_groups) \<Rightarrow> group_key \<times> group \<Rightarrow> bool" where
  "shown_group sn mid kg =
     (case kg of (key, g) \<Rightarrow>
        \<not> departed_contains (mid key) (group_identifier (sn_ext sn) key) \<and>
        group_contains_local_aci g (local_aci (sn_services sn)))"

definition emit_group ::
  "('w, 'img) snapshot_services \<Rightarrow> (group_key \<Rightarrow> departed_groups) \<Rightarrow> group_key \<times> group \<Rightarrow> 'w snapshot_state \<Rightarrow>
     'w snapshot_state" where
  "emit_group sn mid kg s =
     (case kg of (key, g) \<Rightarrow>
        let chat_id = group_identifier (sn_ext sn) key;
            b = (snd s)\<lparr>bk_departed := mid key\<rparr>
        in if \<not> shown_group sn mid kg then (fst s, b)
           else
             let b1 = emit (group_event chat_id g) (b\<lparr>bk_cache := index_group chat_id key (bk_cache b)\<rparr>)
             in case read_optional (sq_group_avatar (sn_store sn) key) b1 of
                  (avatar, b2) \<Rightarrow>
                    (case (case avatar of
                             Some a \<Rightarrow> emit_avatar sn None (Some chat_id) a (fst s, b2)
                           | None \<Rightarrow> (fst s, b2)) of
                       (c, b3) \<Rightarrow>
                         (c, fold (\<lambda>member. emit (group_member_event (sn_ext sn) chat_id member)) (gr_members g) b3)))"

definition emit_group_snapshot ::
  "('w, 'img) snapshot_services \<Rightarrow> (group_key \<Rightarrow> departed_groups) \<Rightarrow> bool \<Rightarrow> 'w snapshot_state \<Rightarrow>
     unit rresult \<times> 'w snapshot_state" where
  "emit_group_snapshot sn mid authoritative s =
     (case perform (repo_groups (sn_store sn)) (snd s) of
        (Inl error, b1) \<Rightarrow> (Inl (storage_error_display error), (fst s, b1))
      | (Inr groups, b1) \<Rightarrow>
          (case fold (emit_group sn mid) groups (fst s, emit (event_default\<lparr>ev_kind := EVENT_GROUP_SYNC_BEGIN\<rparr>) b1) of
             (c, b2) \<Rightarrow>
               (Inr (), (c, emit (event_default\<lparr>ev_kind := EVENT_GROUP_SYNC_END,
                  ev_value := (if authoritative then 1 else 0)\<rparr>) b2))))"

text \<open>The network request of the library comes first; its failure emits nothing.\<close>

definition synchronize_and_emit_group_snapshot ::
  "('w, 'img) snapshot_services \<Rightarrow> ('w, unit rresult) io \<Rightarrow> (group_key \<Rightarrow> departed_groups) \<Rightarrow> 'w snapshot_state \<Rightarrow>
     unit rresult \<times> 'w snapshot_state" where
  "synchronize_and_emit_group_snapshot sn synchronize_storage_groups mid s =
     (case perform synchronize_storage_groups (snd s) of
        (Inl error, b1) \<Rightarrow> (Inl (''Could not synchronize Signal groups: '' @ error), (fst s, b1))
      | (Inr _, b1) \<Rightarrow> emit_group_snapshot sn mid True (fst s, b1))"

subsection \<open>Account and identities\<close>

definition account_identity_event :: "externals \<Rightarrow> aci \<Rightarrow> string option \<Rightarrow> event" where
  "account_identity_event x aci profile_name =
     event_default\<lparr>ev_kind := EVENT_ACCOUNT, ev_peer_id := Some (x_service_id_string x (Aci aci)),
       ev_title := non_empty profile_name\<rparr>"

definition emit_account_identity :: "'w services \<Rightarrow> ('w, string option rresult) io \<Rightarrow> 'w backend \<Rightarrow> 'w backend" where
  "emit_account_identity sv retrieve_profile b =
     (case perform retrieve_profile b of
        (r, b1) \<Rightarrow>
          emit (account_identity_event (sv_ext sv) (local_aci sv) (case r of Inr name \<Rightarrow> name | Inl _ \<Rightarrow> None)) b1)"

definition identity_change_event :: "identity_change_notice \<Rightarrow> event" where
  "identity_change_event change =
     event_default\<lparr>ev_kind := EVENT_IDENTITY_CHANGE, ev_peer_id := Some (in_address change),
       ev_value := (if in_verified change then 1 else 0)\<rparr>"

definition emit_identity_changes :: "'w sqlite_store \<Rightarrow> 'w backend \<Rightarrow> 'w backend" where
  "emit_identity_changes st b =
     (case perform (sq_identity_change_notices st) b of
        (Inr changes, b1) \<Rightarrow> fold (\<lambda>change. emit (identity_change_event change)) changes b1
      | (Inl error, b1) \<Rightarrow>
          if sqlite_store_error_is_transient error then b1
          else emit (event_error (''Could not read Signal identity changes: '' @ sse_display error) False) b1)"

definition handle_attachment_completion ::
  "'w services \<Rightarrow> 'w sqlite_store \<Rightarrow> attachment_completion option \<Rightarrow> (u64 \<times> control_ref) list \<Rightarrow> 'w backend \<Rightarrow>
     (u64 \<times> control_ref) list \<times> 'w backend" where
  "handle_attachment_completion sv st completed attachment_aborts b =
     (case finish_attachment_completion completed attachment_aborts b of
        (sent, aborts, b1) \<Rightarrow>
          (aborts, emit_identity_changes st
             (case sent of Some m \<Rightarrow> mark_sent_message_projected_or_report sv m b1 | None \<Rightarrow> b1)))"

subsection \<open>Fetching avatars that are missing\<close>

text \<open>
  The library's downloads; \<open>None\<close> is a download that the shutdown of the account overtook, which ends the task.
\<close>

record 'w avatar_source =
  as_profile_avatar :: "aci \<Rightarrow> bytes \<Rightarrow> ('w, bytes option rresult option) io"
  as_group_avatar :: "group_context \<Rightarrow> ('w, bytes option rresult option) io"

datatype 's task_flow = Task_Continue 's | Task_Stop 's

definition fetch_avatar ::
  "('w, 'img) snapshot_services \<Rightarrow> string option \<Rightarrow> string option \<Rightarrow> ('w, bytes option rresult option) io \<Rightarrow>
     'w snapshot_state \<Rightarrow> 'w snapshot_state task_flow" where
  "fetch_avatar sn peer chat fetch s =
     (case perform fetch (snd s) of
        (None, b1) \<Rightarrow> Task_Stop (fst s, b1)
      | (Some (Inr (Some avatar)), b1) \<Rightarrow> Task_Continue (emit_avatar sn peer chat avatar (fst s, b1))
      | (Some _, b1) \<Rightarrow> Task_Continue (fst s, b1))"

definition fetch_contact_avatar ::
  "('w, 'img) snapshot_services \<Rightarrow> 'w avatar_source \<Rightarrow> contact \<Rightarrow> 'w snapshot_state \<Rightarrow> 'w snapshot_state task_flow" where
  "fetch_contact_avatar sn src contact s =
     (case contact_key_of (sn_store sn) contact (snd s) of
        (None, b1) \<Rightarrow> Task_Continue (fst s, b1)
      | (Some key, b1) \<Rightarrow>
          (case read_optional (sq_profile_avatar (sn_store sn) (co_uuid contact) key) b1 of
             (Some _, b2) \<Rightarrow> Task_Continue (fst s, b2)
           | (None, b2) \<Rightarrow>
               fetch_avatar sn (Some (contact_peer (sn_ext sn) contact)) None
                 (as_profile_avatar src (co_uuid contact) key) (fst s, b2)))"

definition fetch_group_avatar ::
  "('w, 'img) snapshot_services \<Rightarrow> 'w avatar_source \<Rightarrow> group_key \<times> group \<Rightarrow> 'w snapshot_state \<Rightarrow>
     'w snapshot_state task_flow" where
  "fetch_group_avatar sn src kg s =
     (case kg of (key, g) \<Rightarrow>
        if \<not> group_contains_local_aci g (local_aci (sn_services sn)) \<or> gr_avatar g = [] then Task_Continue s
        else
          let b = (snd s)\<lparr>bk_cache := index_group (group_identifier (sn_ext sn) key) key (bk_cache (snd s))\<rparr>
          in case read_optional (sq_group_avatar (sn_store sn) key) b of
               (Some _, b1) \<Rightarrow> Task_Continue (fst s, b1)
             | (None, b1) \<Rightarrow>
                 fetch_avatar sn None (Some (group_identifier (sn_ext sn) key))
                   (as_group_avatar src \<lparr>gc_master_key = Some key, gc_revision = Some (gr_revision g)\<rparr>) (fst s, b1))"

fun task_loop :: "('a \<Rightarrow> 's \<Rightarrow> 's task_flow) \<Rightarrow> 'a list \<Rightarrow> 's \<Rightarrow> 's task_flow" where
  "task_loop f [] s = Task_Continue s"
| "task_loop f (x # xs) s = (case f x s of Task_Continue s1 \<Rightarrow> task_loop f xs s1 | Task_Stop s1 \<Rightarrow> Task_Stop s1)"

text \<open>A list that cannot be read is skipped.\<close>

definition loop_over ::
  "('w, storage_error + 'a list) io \<Rightarrow> ('a \<Rightarrow> 'w snapshot_state \<Rightarrow> 'w snapshot_state task_flow) \<Rightarrow>
     'w snapshot_state \<Rightarrow> 'w snapshot_state task_flow" where
  "loop_over xs f s =
     (case perform xs (snd s) of
        (Inr ys, b1) \<Rightarrow> task_loop f ys (fst s, b1)
      | (Inl _, b1) \<Rightarrow> Task_Continue (fst s, b1))"

definition fetch_missing_avatars ::
  "('w, 'img) snapshot_services \<Rightarrow> 'w avatar_source \<Rightarrow> 'w snapshot_state \<Rightarrow> 'w snapshot_state" where
  "fetch_missing_avatars sn src s =
     (case loop_over (repo_contacts (sn_store sn)) (fetch_contact_avatar sn src) s of
        Task_Stop s1 \<Rightarrow> s1
      | Task_Continue s1 \<Rightarrow>
          (case loop_over (repo_groups (sn_store sn)) (fetch_group_avatar sn src) s1 of
             Task_Stop s2 \<Rightarrow> s2
           | Task_Continue s2 \<Rightarrow> s2))"

subsection \<open>Asking for the contacts\<close>

text \<open>
  The turns of the request loop as the library and the shutdown decide them: a request that succeeds, one that fails with the wait after it
  completing or being cut short by the shutdown, and a request overtaken by the shutdown. The loop returns the seconds it waited and whether it has
  ended; the list of turns ending first is a loop still running.
\<close>

datatype contact_request_turn = Request_Done | Request_Failed string bool | Request_Shutdown

definition request_contacts_failure :: "string \<Rightarrow> string" where
  "request_contacts_failure error =
     ''Could not request Signal contact synchronization: '' @ error @ ''; retrying automatically''"

fun request_contacts_with_retries ::
  "contact_request_turn list \<Rightarrow> recovery_backoff \<Rightarrow> 'w backend \<Rightarrow> nat list \<times> bool \<times> 'w backend" where
  "request_contacts_with_retries [] backoff b = ([], False, b)"
| "request_contacts_with_retries (turn # turns) backoff b =
     (case turn of
        Request_Done \<Rightarrow> ([], True, b)
      | Request_Shutdown \<Rightarrow> ([], True, b)
      | Request_Failed error shutdown \<Rightarrow>
          (case next_delay backoff of
             (delay, backoff1) \<Rightarrow>
               let b1 = emit (transient_error (request_contacts_failure error)) b
               in if delay \<noteq> 0 \<and> shutdown then ([delay], True, b1)
                  else case request_contacts_with_retries turns backoff1 b1 of
                         (waited, ended, b2) \<Rightarrow> (delay # waited, ended, b2)))"

subsection \<open>The picture of the linking code\<close>

text \<open>
  The QR encoder gives the number of modules on a side and which are dark; the PNG encoder gets the
  width of the picture and its grey values.
\<close>

record qr_code =
  qr_width :: usize
  qr_dark :: "usize \<Rightarrow> usize \<Rightarrow> bool"

definition BORDER_MODULES :: usize where
  "BORDER_MODULES = 4"

definition SCALE :: usize where
  "SCALE = 6"

definition pixels_wide :: "usize \<Rightarrow> usize" where
  "pixels_wide modules = (modules + BORDER_MODULES * 2) * SCALE"

text \<open>Writing outside the buffer panics, which is \<open>None\<close>.\<close>

definition blacken :: "usize \<Rightarrow> bytes option \<Rightarrow> bytes option" where
  "blacken i pixels =
     (case pixels of None \<Rightarrow> None | Some ps \<Rightarrow> if i < length ps then Some (ps[i := 0]) else None)"

definition draw_module :: "qr_code \<Rightarrow> usize \<Rightarrow> usize \<Rightarrow> bytes option \<Rightarrow> bytes option" where
  "draw_module code y x pixels =
     (if \<not> qr_dark code x y then pixels
      else
        let wide = pixels_wide (qr_width code);
            start_x = (x + BORDER_MODULES) * SCALE;
            start_y = (y + BORDER_MODULES) * SCALE
        in fold (\<lambda>pixel_y. fold (\<lambda>pixel_x. blacken (pixel_y * wide + pixel_x)) [start_x ..< start_x + SCALE])
             [start_y ..< start_y + SCALE] pixels)"

definition draw_modules :: "qr_code \<Rightarrow> bytes option" where
  "draw_modules code =
     (let wide = pixels_wide (qr_width code)
      in fold (\<lambda>y. fold (draw_module code y) [0 ..< qr_width code]) [0 ..< qr_width code]
           (Some (replicate (wide * wide) 255)))"

definition qr_png ::
  "(bytes \<Rightarrow> qr_code rresult) \<Rightarrow> (u32 \<Rightarrow> bytes \<Rightarrow> bytes rresult) \<Rightarrow> bytes \<Rightarrow> bytes rresult option" where
  "qr_png encode_qr encode_png v =
     (case encode_qr v of
        Inl error \<Rightarrow> Some (Inl error)
      | Inr code \<Rightarrow>
          (case draw_modules code of
             None \<Rightarrow> None
           | Some pixels \<Rightarrow> Some (encode_png (word_of_nat (pixels_wide (qr_width code))) pixels)))"

section \<open>Lemmas\<close>

subsection \<open>The pixels of the linking code\<close>

lemma blacken_Some: "blacken i (Some ps) = (if i < length ps then Some (ps[i := 0]) else None)"
  by (simp add: blacken_def)

lemma fold_blacken:
  "list_all (\<lambda>i. i < length ps) is \<Longrightarrow>
     fold blacken is (Some ps) = Some (map (\<lambda>i. if i \<in> set is then 0 else ps ! i) [0 ..< length ps])"
proof (induction "is" arbitrary: ps)
  case Nil
  then show ?case by (simp add: map_nth)
next
  case (Cons j js)
  then show ?case by (auto simp: blacken_Some nth_list_update)
qed

lemma fold_concat_map: "fold (\<lambda>y. fold h (f y)) ys = fold h (concat (map f ys))"
  by (induction ys) (simp_all add: fun_eq_iff)

definition module_pixels :: "qr_code \<Rightarrow> usize \<Rightarrow> usize \<Rightarrow> usize list" where
  "module_pixels code y x =
     (if \<not> qr_dark code x y then []
      else concat (map (\<lambda>py. map (\<lambda>px. py * pixels_wide (qr_width code) + px) [(x + 4) * 6 ..< (x + 4) * 6 + 6])
             [(y + 4) * 6 ..< (y + 4) * 6 + 6]))"

lemma draw_module_fold: "draw_module code y x = fold blacken (module_pixels code y x)"
proof (cases "qr_dark code x y")
  case True
  then show ?thesis
    by (intro ext) (simp add: draw_module_def module_pixels_def Let_def BORDER_MODULES_def SCALE_def
        fold_concat_map [symmetric] fold_map comp_def)
qed (simp add: fun_eq_iff draw_module_def module_pixels_def)

definition dark_pixel :: "qr_code \<Rightarrow> usize \<Rightarrow> usize \<Rightarrow> bool" where
  "dark_pixel code px py =
     (BORDER_MODULES * SCALE \<le> px \<and> px < (BORDER_MODULES + qr_width code) * SCALE \<and>
      BORDER_MODULES * SCALE \<le> py \<and> py < (BORDER_MODULES + qr_width code) * SCALE \<and>
      qr_dark code (px div SCALE - BORDER_MODULES) (py div SCALE - BORDER_MODULES))"

lemma scaled_range: "(p::nat) \<in> {(x + 4) * 6 ..< (x + 4) * 6 + 6} \<longleftrightarrow> 24 \<le> p \<and> x = p div 6 - 4"
proof -
  have "24 \<le> p \<Longrightarrow> 4 \<le> p div 6" using div_le_mono [of 24 p 6] by simp
  then show ?thesis by auto
qed

lemma module_pixels_iff:
  assumes "px < pixels_wide (qr_width code)" "x < qr_width code"
  shows "py * pixels_wide (qr_width code) + px \<in> set (module_pixels code y x) \<longleftrightarrow>
    qr_dark code x y \<and> 24 \<le> px \<and> x = px div 6 - 4 \<and> 24 \<le> py \<and> y = py div 6 - 4"
proof -
  let ?w = "pixels_wide (qr_width code)"
  have small: "(x + 4) * 6 + 6 \<le> ?w" using assms(2) by (simp add: pixels_wide_def BORDER_MODULES_def SCALE_def)
  have uniq: "py2 = py \<and> px2 = px" if e: "py * ?w + px = py2 * ?w + px2" "px2 < ?w" for py2 px2
    using arg_cong [OF e(1), of "\<lambda>n. n div ?w"] arg_cong [OF e(1), of "\<lambda>n. n mod ?w"] e(2) assms(1) by simp
  have "n \<in> set (module_pixels code y x) \<longleftrightarrow> qr_dark code x y \<and>
      (\<exists>py2 \<in> {(y + 4) * 6 ..< (y + 4) * 6 + 6}. \<exists>px2 \<in> {(x + 4) * 6 ..< (x + 4) * 6 + 6}. n = py2 * ?w + px2)" for n
    by (auto simp: module_pixels_def simp del: image_add_atLeastLessThan)
  then have "py * ?w + px \<in> set (module_pixels code y x) \<longleftrightarrow>
      qr_dark code x y \<and> px \<in> {(x + 4) * 6 ..< (x + 4) * 6 + 6} \<and> py \<in> {(y + 4) * 6 ..< (y + 4) * 6 + 6}"
    using small uniq by fastforce
  then show ?thesis unfolding scaled_range by auto
qed

lemma draw_modules_pixels:
  "draw_modules code = Some (map (\<lambda>i. if dark_pixel code (i mod pixels_wide (qr_width code)) (i div pixels_wide (qr_width code))
     then 0 else 255) [0 ..< pixels_wide (qr_width code) * pixels_wide (qr_width code)])"
proof -
  let ?w = "pixels_wide (qr_width code)" and ?m = "[0 ..< qr_width code]"
  define js where "js = concat (map (\<lambda>y. concat (map (module_pixels code y) ?m)) ?m)"
  have run: "draw_modules code = fold blacken js (Some (replicate (?w * ?w) 255))"
    by (simp add: draw_modules_def Let_def draw_module_fold [abs_def] fold_concat_map js_def)
  have w: "?w = qr_width code * 6 + 48" by (simp add: pixels_wide_def BORDER_MODULES_def SCALE_def)
  have dark: "i \<in> set js \<longleftrightarrow> dark_pixel code (i mod ?w) (i div ?w)" for i
  proof -
    have "i \<in> set js \<longleftrightarrow> (\<exists>y < qr_width code. \<exists>x < qr_width code. i div ?w * ?w + i mod ?w \<in> set (module_pixels code y x))"
      by (simp add: js_def Bex_def)
    also have "\<dots> \<longleftrightarrow> (\<exists>y < qr_width code. \<exists>x < qr_width code. qr_dark code x y \<and>
        24 \<le> i mod ?w \<and> x = i mod ?w div 6 - 4 \<and> 24 \<le> i div ?w \<and> y = i div ?w div 6 - 4)"
      using module_pixels_iff [of "i mod ?w" code] w by (metis add_gr_0 mod_less_divisor zero_less_numeral)
    also have "\<dots> \<longleftrightarrow> dark_pixel code (i mod ?w) (i div ?w)"
      by (auto simp: dark_pixel_def BORDER_MODULES_def SCALE_def less_mult_imp_div_less div_less_iff_less_mult)
    finally show ?thesis .
  qed
  have "i < ?w * ?w" if "i \<in> set js" for i
  proof -
    have "i div ?w < ?w" using dark [of i] that w by (auto simp: dark_pixel_def BORDER_MODULES_def SCALE_def)
    then show ?thesis using w by (simp add: div_less_iff_less_mult)
  qed
  then have "list_all (\<lambda>i. i < length (replicate (?w * ?w) (255::u8))) js" by (simp add: list_all_iff)
  from fold_blacken [OF this] show ?thesis unfolding run by (simp add: dark)
qed

subsection \<open>Reading a group snapshot back\<close>

text \<open>
  What a reader of the events learns: a group record opens a group, and the member records up to the next group record
  belong to it.
\<close>

definition member_entry :: "event \<Rightarrow> string option \<times> bool" where
  "member_entry e = (ev_peer_id e, ev_value e = 1)"

fun read_groups :: "event list \<Rightarrow> (string option \<times> string option \<times> (string option \<times> bool) list) list" where
  "read_groups [] = []"
| "read_groups (e # es) =
     (if ev_kind e = EVENT_GROUP
      then (ev_chat_id e, ev_title e,
            map member_entry (filter (\<lambda>e. ev_kind e = EVENT_GROUP_MEMBER) (takeWhile (\<lambda>e. ev_kind e \<noteq> EVENT_GROUP) es))) #
           read_groups es
      else read_groups es)"

definition group_entry :: "externals \<Rightarrow> group_key \<times> group \<Rightarrow> string option \<times> string option \<times> (string option \<times> bool) list" where
  "group_entry x kg =
     (case kg of (key, g) \<Rightarrow>
        (Some (group_identifier x key), Some (gr_title g),
         map (\<lambda>m. (Some (x_service_id_string x (Aci (gm_aci m))), gm_administrator m)) (gr_members g)))"

definition group_record :: "event \<Rightarrow> bool" where
  "group_record e \<longleftrightarrow> ev_kind e = EVENT_GROUP \<or> ev_kind e = EVENT_AVATAR \<or> ev_kind e = EVENT_GROUP_MEMBER"

lemma snapshot_kinds [simp]:
  "ev_kind (group_event i g) = EVENT_GROUP" "ev_kind (group_member_event x i m) = EVENT_GROUP_MEMBER"
  "ev_chat_id (group_event i g) = Some i" "ev_title (group_event i g) = Some (gr_title g)"
  "member_entry (group_member_event x i m) = (Some (x_service_id_string x (Aci (gm_aci m))), gm_administrator m)"
  "EVENT_AVATAR \<noteq> EVENT_GROUP" "EVENT_GROUP_MEMBER \<noteq> EVENT_GROUP" "EVENT_AVATAR \<noteq> EVENT_GROUP_MEMBER"
  by (simp_all add: group_event_def group_member_event_def member_entry_def event_kind_defs)

lemma read_groups_skip: "list_all (\<lambda>e. ev_kind e \<noteq> EVENT_GROUP) es \<Longrightarrow> read_groups (es @ fs) = read_groups fs"
  by (induction es) auto

definition at_group :: "event list \<Rightarrow> bool" where
  "at_group es \<longleftrightarrow> (case es of [] \<Rightarrow> True | e # _ \<Rightarrow> ev_kind e = EVENT_GROUP)"

lemma takeWhile_group:
  assumes "list_all (\<lambda>e. ev_kind e \<noteq> EVENT_GROUP) es" "at_group fs"
  shows "takeWhile (\<lambda>e. ev_kind e \<noteq> EVENT_GROUP) (es @ fs) = es"
  using assms by (induction es) (auto simp: at_group_def split: list.splits)

lemma read_groups_entry:
  assumes "list_all (\<lambda>e. ev_kind e = EVENT_AVATAR) av" "at_group fs"
  shows "read_groups (group_event (group_identifier x key) g #
      av @ map (group_member_event x (group_identifier x key)) (gr_members g) @ fs) =
    group_entry x (key, g) # read_groups fs"
proof -
  let ?ms = "map (group_member_event x (group_identifier x key)) (gr_members g)"
  have plain: "list_all (\<lambda>e. ev_kind e \<noteq> EVENT_GROUP) (av @ ?ms)" using assms(1) by (auto simp: list_all_iff)
  have "filter (\<lambda>e. ev_kind e = EVENT_GROUP_MEMBER) av = []" using assms(1) by (auto simp: list_all_iff filter_empty_conv)
  moreover have "filter (\<lambda>e. ev_kind e = EVENT_GROUP_MEMBER) ?ms = ?ms" by (simp add: filter_id_conv)
  ultimately show ?thesis
    using takeWhile_group [OF plain assms(2)] read_groups_skip [OF plain, of fs] by (simp add: group_entry_def)
qed

lemma emit_avatar_events:
  "\<exists>e. ev_kind e = EVENT_AVATAR \<and> bk_events (snd (emit_avatar sn p c a s)) = bk_events (snd s) @ [e]"
  by (auto simp: emit_avatar_def split: prod.split)

lemma read_optional_events: "read_optional f b = (r, b1) \<Longrightarrow> bk_events b1 = bk_events b"
  by (auto simp: read_optional_def split: prod.splits sum.splits dest: perform_events)

lemma emit_group_events:
  assumes "shown_group sn mid (key, g)"
  shows "\<exists>av. list_all (\<lambda>e. ev_kind e = EVENT_AVATAR) av \<and>
    bk_events (snd (emit_group sn mid (key, g) s)) = bk_events (snd s) @
      group_event (group_identifier (sn_ext sn) key) g # av @
      map (group_member_event (sn_ext sn) (group_identifier (sn_ext sn) key)) (gr_members g)"
proof -
  let ?id = "group_identifier (sn_ext sn) key"
  let ?b = "(snd s)\<lparr>bk_departed := mid key\<rparr>"
  let ?b1 = "emit (group_event ?id g) (?b\<lparr>bk_cache := index_group ?id key (bk_cache ?b)\<rparr>)"
  obtain a b2 where a: "read_optional (sq_group_avatar (sn_store sn) key) ?b1 = (a, b2)"
    by (cases "read_optional (sq_group_avatar (sn_store sn) key) ?b1")
  define s3 where "s3 = (case a of Some v \<Rightarrow> emit_avatar sn None (Some ?id) v (fst s, b2) | None \<Rightarrow> (fst s, b2))"
  have "\<exists>av. list_all (\<lambda>e. ev_kind e = EVENT_AVATAR) av \<and> bk_events (snd s3) = bk_events b2 @ av"
  proof (cases a)
    case None
    then show ?thesis by (simp add: s3_def exI [of _ "[]"])
  next
    case (Some v)
    obtain e where "ev_kind e = EVENT_AVATAR" "bk_events (snd s3) = bk_events b2 @ [e]"
      using emit_avatar_events [of sn None "Some ?id" v "(fst s, b2)"] Some by (auto simp: s3_def)
    then show ?thesis by (intro exI [of _ "[e]"]) simp
  qed
  then obtain av where av: "list_all (\<lambda>e. ev_kind e = EVENT_AVATAR) av" "bk_events (snd s3) = bk_events b2 @ av" by blast
  have "emit_group sn mid (key, g) s =
      (fst s3, fold emit (map (group_member_event (sn_ext sn) ?id) (gr_members g)) (snd s3))"
    using assms a by (simp add: emit_group_def Let_def s3_def [symmetric] fold_map comp_def split: prod.split)
  then show ?thesis using av read_optional_events [OF a] by (intro exI [of _ av]) simp
qed

lemma emit_group_skips:
  "\<not> shown_group sn mid (key, g) \<Longrightarrow> bk_events (snd (emit_group sn mid (key, g) s)) = bk_events (snd s)"
  by (simp add: emit_group_def Let_def)

lemma emit_groups_events:
  "\<exists>body. bk_events (snd (fold (emit_group sn mid) groups s)) = bk_events (snd s) @ body \<and>
     read_groups body = map (group_entry (sn_ext sn)) (filter (shown_group sn mid) groups) \<and>
     list_all group_record body \<and> at_group body"
proof (induction groups arbitrary: s)
  case Nil
  then show ?case by (simp add: at_group_def)
next
  case (Cons kg groups)
  obtain key g where kg: "kg = (key, g)" by (cases kg)
  obtain rest where rest: "bk_events (snd (fold (emit_group sn mid) (kg # groups) s)) =
        bk_events (snd (emit_group sn mid kg s)) @ rest"
      "read_groups rest = map (group_entry (sn_ext sn)) (filter (shown_group sn mid) groups)"
      "list_all group_record rest" "at_group rest"
    using Cons.IH [of "emit_group sn mid kg s"] by auto
  show ?case
  proof (cases "shown_group sn mid kg")
    case False
    then show ?thesis using rest emit_group_skips [of sn mid key g s] unfolding kg by (intro exI [of _ rest]) simp
  next
    case True
    let ?id = "group_identifier (sn_ext sn) key"
    obtain av where av: "list_all (\<lambda>e. ev_kind e = EVENT_AVATAR) av"
        "bk_events (snd (emit_group sn mid kg s)) = bk_events (snd s) @ group_event ?id g # av @
          map (group_member_event (sn_ext sn) ?id) (gr_members g)"
      using emit_group_events [of sn mid key g s] True unfolding kg by blast
    let ?body = "group_event ?id g # av @ map (group_member_event (sn_ext sn) ?id) (gr_members g) @ rest"
    have "list_all group_record ?body" using av(1) rest(3) by (auto simp: list_all_iff group_record_def)
    then show ?thesis
      using rest av(2) True read_groups_entry [OF av(1) rest(4)] unfolding kg
      by (intro exI [of _ ?body]) (simp add: at_group_def)
  qed
qed

subsection \<open>The contact snapshot\<close>

definition shows_contact :: "externals \<Rightarrow> contact \<Rightarrow> event \<Rightarrow> bool" where
  "shows_contact x contact e \<longleftrightarrow>
     ev_kind e = EVENT_CONTACT \<and> ev_peer_id e = Some (contact_peer x contact) \<and> ev_text e = co_phone_number contact \<and>
     (co_name contact = [] \<or> ev_title e = Some (co_name contact))"

lemma contact_kinds [simp]:
  "EVENT_AVATAR \<noteq> EVENT_CONTACT" "shows_contact x contact (contact_event x m contact)"
  "ev_kind (contact_event x m contact) = EVENT_CONTACT"
  by (simp_all add: shows_contact_def contact_event_def event_kind_defs)

lemma contact_cached_avatar_events: "contact_cached_avatar st contact b = (r, b1) \<Longrightarrow> bk_events b1 = bk_events b"
  unfolding contact_cached_avatar_def contact_key_of_def
  by (auto split: prod.splits option.splits if_splits dest!: read_optional_events)

lemma emit_contact_events:
  "\<exists>m av. bk_events (snd (emit_contact sn contact s)) = bk_events (snd s) @ contact_event (sn_ext sn) m contact # av \<and>
     list_all (\<lambda>e. ev_kind e = EVENT_AVATAR) av"
proof -
  define b1 where "b1 = (if co_name contact \<noteq> []
      then (snd s)\<lparr>bk_cache := put_contact_name (contact_peer (sn_ext sn) contact) (co_name contact) (bk_cache (snd s))\<rparr>
      else snd s)"
  let ?b2 = "emit (contact_event (sn_ext sn) (bk_cache b1) contact) b1"
  obtain a b3 where a: "contact_cached_avatar (sn_store sn) contact ?b2 = (a, b3)"
    by (cases "contact_cached_avatar (sn_store sn) contact ?b2")
  have e3: "bk_events b3 = bk_events (snd s) @ [contact_event (sn_ext sn) (bk_cache b1) contact]"
    using contact_cached_avatar_events [OF a] by (simp add: b1_def)
  have run: "emit_contact sn contact s = (case a of None \<Rightarrow> (fst s, b3)
      | Some v \<Rightarrow> emit_avatar sn (Some (contact_peer (sn_ext sn) contact)) None v (fst s, b3))"
    using a unfolding emit_contact_def Let_def b1_def [symmetric] by (simp split: option.split)
  show ?thesis
  proof (cases a)
    case None
    then show ?thesis using run e3 by auto
  next
    case (Some v)
    then obtain e where "ev_kind e = EVENT_AVATAR" "bk_events (snd (emit_contact sn contact s)) = bk_events b3 @ [e]"
      using emit_avatar_events [of sn "Some (contact_peer (sn_ext sn) contact)" None v "(fst s, b3)"] run by auto
    then show ?thesis using e3 by (intro exI [of _ "bk_cache b1"] exI [of _ "[e]"]) simp
  qed
qed

lemma emit_contacts_events:
  "\<exists>body. bk_events (snd (fold (emit_contact sn) contacts s)) = bk_events (snd s) @ body \<and>
     list_all2 (shows_contact (sn_ext sn)) contacts (filter (\<lambda>e. ev_kind e = EVENT_CONTACT) body) \<and>
     list_all (\<lambda>e. ev_kind e = EVENT_CONTACT \<or> ev_kind e = EVENT_AVATAR) body"
proof (induction contacts arbitrary: s)
  case (Cons c contacts)
  obtain m av where one: "bk_events (snd (emit_contact sn c s)) = bk_events (snd s) @ contact_event (sn_ext sn) m c # av"
      "list_all (\<lambda>e. ev_kind e = EVENT_AVATAR) av" using emit_contact_events by blast
  obtain rest where rest: "bk_events (snd (fold (emit_contact sn) (c # contacts) s)) = bk_events (snd (emit_contact sn c s)) @ rest"
      "list_all2 (shows_contact (sn_ext sn)) contacts (filter (\<lambda>e. ev_kind e = EVENT_CONTACT) rest)"
      "list_all (\<lambda>e. ev_kind e = EVENT_CONTACT \<or> ev_kind e = EVENT_AVATAR) rest"
    using Cons.IH [of "emit_contact sn c s"] by auto
  have "filter (\<lambda>e. ev_kind e = EVENT_CONTACT) av = []" using one(2) by (auto simp: list_all_iff filter_empty_conv)
  then show ?case
    using one rest by (intro exI [of _ "contact_event (sn_ext sn) m c # av @ rest"]) (auto simp: list_all_iff)
qed simp

subsection \<open>Asking for the contacts\<close>

lemma request_contacts_waits:
  "request_contacts_with_retries turns backoff b = (waited, ended, b1) \<Longrightarrow>
     waited = delays (length waited) backoff \<and> length (bk_events b1) = length (bk_events b) + length waited \<and>
     length waited \<le> length turns"
proof (induction turns arbitrary: backoff b waited ended b1)
  case (Cons turn turns)
  show ?case
  proof (cases turn)
    case (Request_Failed error shut)
    obtain d backoff1 where d: "next_delay backoff = (d, backoff1)" by (cases "next_delay backoff")
    let ?e = "transient_error (request_contacts_failure error)"
    obtain w en b2 where r: "request_contacts_with_retries turns backoff1 (emit ?e b) = (w, en, b2)"
      by (cases "request_contacts_with_retries turns backoff1 (emit ?e b)")
    from Cons.IH [OF r] Cons.prems show ?thesis
      by (auto simp: Request_Failed d r Let_def split: if_splits)
  qed (use Cons.prems in auto)
qed simp

section \<open>Properties\<close>

text \<open>
  The groups of the store survive the trip through the events: after a group snapshot that could read the store, the records between its begin and end events read back as
  exactly the groups that the account is in and is not leaving, in the store's order, with their titles, members and administrators. A snapshot that could not read the store emits nothing.
\<close>

lemma group_snapshot_roundtrip:
  "case emit_group_snapshot sn mid authoritative s of
     (Inl _, s1) \<Rightarrow> bk_events (snd s1) = bk_events (snd s)
   | (Inr _, s1) \<Rightarrow>
       \<exists>groups body. fst (repo_groups (sn_store sn) (bk_world (snd s))) = Inr groups \<and>
         bk_events (snd s1) = bk_events (snd s) @ event_default\<lparr>ev_kind := EVENT_GROUP_SYNC_BEGIN\<rparr> # body @
           [event_default\<lparr>ev_kind := EVENT_GROUP_SYNC_END, ev_value := (if authoritative then 1 else 0)\<rparr>] \<and>
         read_groups body = map (group_entry (sn_ext sn)) (filter (shown_group sn mid) groups) \<and>
         list_all group_record body"
proof -
  obtain r b1 where r: "perform (repo_groups (sn_store sn)) (snd s) = (r, b1)"
    by (cases "perform (repo_groups (sn_store sn)) (snd s)")
  have w: "fst (repo_groups (sn_store sn) (bk_world (snd s))) = r" using r by (auto simp: perform_def split: prod.splits)
  show ?thesis
  proof (cases r)
    case (Inl e)
    then show ?thesis using r perform_events [OF r] by (simp add: emit_group_snapshot_def)
  next
    case (Inr groups)
    let ?s1 = "(fst s, emit (event_default\<lparr>ev_kind := EVENT_GROUP_SYNC_BEGIN\<rparr>) b1)"
    obtain body where body: "bk_events (snd (fold (emit_group sn mid) groups ?s1)) = bk_events (snd ?s1) @ body"
        "read_groups body = map (group_entry (sn_ext sn)) (filter (shown_group sn mid) groups)" "list_all group_record body"
      using emit_groups_events [of sn mid groups ?s1] by blast
    obtain c b2 where f: "fold (emit_group sn mid) groups ?s1 = (c, b2)" by (cases "fold (emit_group sn mid) groups ?s1")
    show ?thesis
      using w r Inr f body perform_events [OF r] by (auto simp: emit_group_snapshot_def intro!: exI [of _ body])
  qed
qed

text \<open>
  C37. The picture of the linking code is drawn without writing outside its buffer, for every code the QR encoder returns, and is the one the code describes: a pixel is
  black exactly when it lies inside the border of four modules and the module it belongs to, of six pixels a side, is dark.
\<close>

theorem qr_png_draws_code:
  "qr_png encode_qr encode_png v =
     Some (case encode_qr v of
             Inl error \<Rightarrow> Inl error
           | Inr code \<Rightarrow>
               let wide = pixels_wide (qr_width code)
               in encode_png (word_of_nat wide)
                    (map (\<lambda>i. if dark_pixel code (i mod wide) (i div wide) then 0 else 255) [0 ..< wide * wide]))"
  by (simp add: qr_png_def draw_modules_pixels Let_def split: sum.split)

end
