(* ===== verification/Attachment_Tasks.thy ===== *)
theory Attachment_Tasks
  imports Snapshots
begin

section \<open>Attachment tasks (backend/worker.rs)\<close>

text \<open>
  The life of an outgoing attachment across the admission, the queue of commands, the worker's tasks and their completion, with
  cancellation by the plugin and the stopping of the worker at any moment. The result is
  that every admitted request is answered exactly once, unless the plugin cancelled it.
\<close>

subsection \<open>Dispatch and completion\<close>

text \<open>
  A task that was spawned, with its result once it has one. Tasks, queued commands, controls of the
  running tasks, the admission and the backend are the state.
\<close>

record attachment_task =
  tk_permit :: attachment_permit
  tk_result :: "attachment_task_result option"

record 'w attachment_tasks =
  at_backend :: "'w backend"
  at_admission :: attachment_admission
  at_queue :: "(attachment_permit \<times> bool) list"
  at_tasks :: "attachment_task list"
  at_aborts :: "(u64 \<times> control_ref) list"

definition at_emit :: "event \<Rightarrow> 'w attachment_tasks \<Rightarrow> 'w attachment_tasks" where
  "at_emit e s = s\<lparr>at_backend := emit e (at_backend s)\<rparr>"

definition at_drop :: "attachment_permit \<Rightarrow> 'w attachment_tasks \<Rightarrow> 'w attachment_tasks" where
  "at_drop p s = s\<lparr>at_admission := permit_drop p (at_admission s)\<rparr>"

text \<open>Every path of the dispatch that does not spawn a task drops the permit.\<close>

definition dispatch_attachment ::
  "bool \<Rightarrow> attachment_permit \<Rightarrow> bool \<Rightarrow> 'w attachment_tasks \<Rightarrow> 'w attachment_tasks" where
  "dispatch_attachment authoritative permit to_group s =
     (let request_id = pm_request_id permit
      in if permit_is_cancelled permit (at_admission s) then at_drop permit s
         else if to_group \<and> \<not> authoritative then
           (case permit_claim_terminal permit (at_admission s) of
              (claimed, a) \<Rightarrow>
                let s1 = s\<lparr>at_admission := a\<rparr>
                in at_drop permit
                     (if claimed then at_emit (request_error request_id GROUPS_NOT_AUTHORITATIVE) s1 else s1))
         else
           s\<lparr>at_tasks := at_tasks s @ [\<lparr>tk_permit = permit, tk_result = None\<rparr>],
             at_aborts := AList.update request_id (pm_control permit) (at_aborts s)\<rparr>)"

text \<open>How the upload ended: overtaken by its cancellation, by a panic, or with a result.\<close>

datatype task_outcome = Outcome_Aborted | Outcome_Panicked | Outcome_Returned "sent_message rresult"

definition settle_task ::
  "attachment_permit \<Rightarrow> sent_message rresult \<Rightarrow> attachment_admission \<Rightarrow> attachment_task_result \<times> attachment_admission" where
  "settle_task permit result a =
     (case permit_claim_terminal permit a of
        (claimed, a1) \<Rightarrow>
          (if claimed \<or> (case result of Inr _ \<Rightarrow> True | Inl _ \<Rightarrow> False) then Task_Finished result else Task_Cancelled, a1))"

text \<open>\<open>None\<close> is the panic of taking the registration twice.\<close>

definition run_attachment_task ::
  "attachment_permit \<Rightarrow> task_outcome \<Rightarrow> attachment_admission \<Rightarrow>
     (attachment_task_result \<times> attachment_permit \<times> attachment_admission) option" where
  "run_attachment_task permit outcome a =
     (case take_cancellation_registration permit of
        None \<Rightarrow> None
      | Some permit1 \<Rightarrow>
          (case outcome of
             Outcome_Aborted \<Rightarrow> Some (Task_Cancelled, permit1, a)
           | Outcome_Panicked \<Rightarrow>
               (case settle_task permit1 (Inl ''Signal attachment task failed unexpectedly'') a of
                  (r, a1) \<Rightarrow> Some (r, permit1, a1))
           | Outcome_Returned result \<Rightarrow>
               (case settle_task permit1 result a of (r, a1) \<Rightarrow> Some (r, permit1, a1))))"

subsection \<open>Stopping\<close>

definition ATTACHMENT_INTERRUPTED :: string where
  "ATTACHMENT_INTERRUPTED = ''Signal connection was interrupted before the attachment completed''"

definition interrupted_attachment_event ::
  "u64 \<Rightarrow> control_ref \<Rightarrow> attachment_admission \<Rightarrow> event option \<times> attachment_admission" where
  "interrupted_attachment_event request_id c a =
     (if is_cancelled c (ad_controls a) then (None, a)
      else (Some (request_error request_id ATTACHMENT_INTERRUPTED),
            a\<lparr>ad_controls := snd (claim_terminal c (ad_controls a))\<rparr>))"

definition interrupt_attachment :: "u64 \<times> control_ref \<Rightarrow> 'w attachment_tasks \<Rightarrow> 'w attachment_tasks" where
  "interrupt_attachment ic s =
     (case interrupted_attachment_event (fst ic) (snd ic) (at_admission s) of
        (None, a) \<Rightarrow> s\<lparr>at_admission := a\<rparr>
      | (Some e, a) \<Rightarrow> at_emit e (s\<lparr>at_admission := a\<rparr>))"

definition interrupt_remaining_attachments :: "'w attachment_tasks \<Rightarrow> 'w attachment_tasks" where
  "interrupt_remaining_attachments s = (fold interrupt_attachment (at_aborts s) s)\<lparr>at_aborts := []\<rparr>"

text \<open>Dropping the tasks drops their permits, also those of results nobody has read.\<close>

definition drop_tasks :: "'w attachment_tasks \<Rightarrow> 'w attachment_tasks" where
  "drop_tasks s = (fold (at_drop \<circ> tk_permit) (at_tasks s) s)\<lparr>at_tasks := []\<rparr>"

definition abandon_timed_out_attachments :: "'w attachment_tasks \<Rightarrow> 'w attachment_tasks" where
  "abandon_timed_out_attachments s = interrupt_remaining_attachments (drop_tasks s)"

text \<open>
  Aborting and joining every task: one that had a result hands it over, the others end without one.
\<close>

definition task_completion :: "attachment_task \<Rightarrow> attachment_completion option" where
  "task_completion t =
     map_option (\<lambda>r. \<lparr>ac_request_id = pm_request_id (tk_permit t), ac_result = r, ac_permit = tk_permit t\<rparr>) (tk_result t)"

definition abort_and_drain_tasks :: "'w attachment_tasks \<Rightarrow> attachment_completion option list \<times> 'w attachment_tasks" where
  "abort_and_drain_tasks s =
     (map task_completion (at_tasks s),
      (fold (at_drop \<circ> tk_permit) (filter (\<lambda>t. tk_result t = None) (at_tasks s)) s)\<lparr>at_tasks := []\<rparr>)"

text \<open>The completion's permit is dropped when it has been reported.\<close>

definition finish_completion ::
  "attachment_completion option \<Rightarrow> sent_message list \<times> 'w attachment_tasks \<Rightarrow> sent_message list \<times> 'w attachment_tasks" where
  "finish_completion completed acc =
     (case acc of (sent_messages, s) \<Rightarrow>
        (case finish_attachment_completion completed (at_aborts s) (at_backend s) of
           (sent, aborts, b) \<Rightarrow>
             let s1 = s\<lparr>at_aborts := aborts, at_backend := b\<rparr>
             in (sent_messages @ (case sent of Some m \<Rightarrow> [m] | None \<Rightarrow> []),
                 case completed of Some c \<Rightarrow> at_drop (ac_permit c) s1 | None \<Rightarrow> s1)))"

definition abort_in_flight_attachments :: "'w services \<Rightarrow> 'w attachment_tasks \<Rightarrow> 'w attachment_tasks" where
  "abort_in_flight_attachments sv s =
     (case abort_and_drain_tasks s of
        (completions, s1) \<Rightarrow>
          (case fold finish_completion completions ([], s1) of
             (sent_messages, s2) \<Rightarrow>
               interrupt_remaining_attachments
                 (s2\<lparr>at_backend := fold (mark_sent_message_projected_or_report sv) sent_messages (at_backend s2)\<rparr>)))"

subsection \<open>Commands that were deferred\<close>

definition deferred_command_failure ::
  "command \<Rightarrow> string \<Rightarrow> attachment_admission \<Rightarrow> event option \<times> attachment_admission" where
  "deferred_command_failure command message a =
     (case command of
        Leave_Group request_id gk \<Rightarrow> (Some (group_request_error request_id gk message), a)
      | Send_Message request_id _ _ \<Rightarrow> (Some (request_error request_id message), a)
      | Send_Group_Message request_id _ _ \<Rightarrow> (Some (request_error request_id message), a)
      | Accept_Identity request_id _ \<Rightarrow> (Some (request_error request_id message), a)
      | Dismiss_Identity request_id _ \<Rightarrow> (Some (request_error request_id message), a)
      | Reset_Session request_id _ \<Rightarrow> (Some (request_error request_id message), a)
      | Send_Attachment request_id _ _ _ _ _ permit \<Rightarrow>
          (case permit_claim_terminal permit a of
             (claimed, a1) \<Rightarrow>
               (if claimed then Some (request_error request_id message) else None, permit_drop permit a1))
      | Set_Typing _ _ _ \<Rightarrow> (None, a)
      | Mark_Read _ _ _ \<Rightarrow> (None, a))"

subsection \<open>The system\<close>

text \<open>
  The steps of the plugin, the worker and the tasks, in any order: the admission of a request, its cancellation,
  the dispatch or the failure of the oldest queued command, the end of a task, the report of a finished one, and the two ways the tasks
  are stopped. The path and names of an attachment play no part here.
\<close>

datatype attachment_op =
    Att_Submit u64 usize bool
  | Att_Cancel u64
  | Att_Cancel_All
  | Att_Dispatch bool
  | Att_Fail string
  | Att_End u64 task_outcome
  | Att_Join u64
  | Att_Stop
  | Att_Abandon

definition aborted_control :: "attachment_permit \<Rightarrow> attachment_admission \<Rightarrow> bool" where
  "aborted_control p a = ctl_aborted (ad_controls a ! pm_control p)"

definition end_task :: "u64 \<Rightarrow> task_outcome \<Rightarrow> 'w attachment_tasks \<Rightarrow> 'w attachment_tasks" where
  "end_task request_id outcome s =
     (case find (\<lambda>t. pm_request_id (tk_permit t) = request_id \<and> tk_result t = None) (at_tasks s) of
        None \<Rightarrow> s
      | Some t \<Rightarrow>
          if outcome = Outcome_Aborted \<and> \<not> aborted_control (tk_permit t) (at_admission s) then s
          else
            case run_attachment_task (tk_permit t) outcome (at_admission s) of
              None \<Rightarrow> s
            | Some (r, p, a) \<Rightarrow>
                s\<lparr>at_admission := a,
                  at_tasks := map (\<lambda>u. if pm_request_id (tk_permit u) = request_id
                                then \<lparr>tk_permit = p, tk_result = Some r\<rparr> else u) (at_tasks s)\<rparr>)"

definition join_task :: "'w services \<Rightarrow> 'w sqlite_store \<Rightarrow> u64 \<Rightarrow> 'w attachment_tasks \<Rightarrow> 'w attachment_tasks" where
  "join_task sv st request_id s =
     (case find (\<lambda>t. pm_request_id (tk_permit t) = request_id \<and> tk_result t \<noteq> None) (at_tasks s) of
        None \<Rightarrow> s
      | Some t \<Rightarrow>
          (case handle_attachment_completion sv st (task_completion t) (at_aborts s) (at_backend s) of
             (aborts, b) \<Rightarrow>
               at_drop (tk_permit t)
                 (s\<lparr>at_aborts := aborts, at_backend := b,
                    at_tasks := filter (\<lambda>u. pm_request_id (tk_permit u) \<noteq> request_id) (at_tasks s)\<rparr>)))"

primrec attachment_exec ::
  "'w services \<Rightarrow> 'w sqlite_store \<Rightarrow> attachment_op \<Rightarrow> 'w attachment_tasks \<Rightarrow> 'w attachment_tasks" where
  "attachment_exec sv st (Att_Submit i n g) s =
     (case try_reserve i n (at_admission s) of
        (Inl _, a) \<Rightarrow> s\<lparr>at_admission := a\<rparr>
      | (Inr p, a) \<Rightarrow> s\<lparr>at_admission := a, at_queue := at_queue s @ [(p, g)]\<rparr>)"
| "attachment_exec sv st (Att_Cancel i) s = s\<lparr>at_admission := snd (admission_cancel i (at_admission s))\<rparr>"
| "attachment_exec sv st Att_Cancel_All s = s\<lparr>at_admission := cancel_all (at_admission s)\<rparr>"
| "attachment_exec sv st (Att_Dispatch authoritative) s =
     (case at_queue s of
        [] \<Rightarrow> s
      | (p, g) # rest \<Rightarrow> dispatch_attachment authoritative p g (s\<lparr>at_queue := rest\<rparr>))"
| "attachment_exec sv st (Att_Fail message) s =
     (case at_queue s of
        [] \<Rightarrow> s
      | (p, g) # rest \<Rightarrow>
          (case deferred_command_failure (Send_Attachment (pm_request_id p) [] [] [] (Payload_Path []) g p) message
                  (at_admission s) of
             (None, a) \<Rightarrow> s\<lparr>at_queue := rest, at_admission := a\<rparr>
           | (Some e, a) \<Rightarrow> at_emit e (s\<lparr>at_queue := rest, at_admission := a\<rparr>)))"
| "attachment_exec sv st (Att_End i outcome) s = end_task i outcome s"
| "attachment_exec sv st (Att_Join i) s = join_task sv st i s"
| "attachment_exec sv st Att_Stop s = abort_in_flight_attachments sv s"
| "attachment_exec sv st Att_Abandon s = abandon_timed_out_attachments s"

definition attachment_init :: "'w backend \<Rightarrow> 'w attachment_tasks" where
  "attachment_init b =
     \<lparr>at_backend = b, at_admission = admission_new, at_queue = [], at_tasks = [], at_aborts = []\<rparr>"

section \<open>Lemmas\<close>

subsection \<open>Controls under claims and cancellations\<close>

definition open_control :: "control_store \<Rightarrow> control_ref \<Rightarrow> bool" where
  "open_control st c \<longleftrightarrow> c < length st \<and> ctl_lifecycle (st ! c) \<in> {ATTACHMENT_ACTIVE, ATTACHMENT_CANCELLED}"

definition store_ok :: "control_store \<Rightarrow> bool" where
  "store_ok st \<longleftrightarrow>
     (\<forall>c < length st. ctl_lifecycle (st ! c) \<in> {ATTACHMENT_ACTIVE, ATTACHMENT_CANCELLED, ATTACHMENT_TERMINAL} \<and>
        (ctl_aborted (st ! c) \<longrightarrow> ctl_lifecycle (st ! c) = ATTACHMENT_CANCELLED))"

text \<open>A step that closes at most the controls of \<open>X\<close> and never reopens a cancelled one.\<close>

definition keeps :: "control_ref set \<Rightarrow> control_store \<Rightarrow> control_store \<Rightarrow> bool" where
  "keeps X st st1 \<longleftrightarrow>
     length st \<le> length st1 \<and> (store_ok st \<longrightarrow> store_ok st1) \<and>
     (\<forall>c. open_control st c \<longrightarrow> c \<notin> X \<longrightarrow> open_control st1 c) \<and>
     (\<forall>c < length st. is_cancelled c st \<longrightarrow> is_cancelled c st1)"

lemma keeps_refl [simp]: "keeps X st st"
  by (simp add: keeps_def)

lemma keeps_trans: "keeps X st st1 \<Longrightarrow> keeps X st1 st2 \<Longrightarrow> keeps X st st2"
  unfolding keeps_def by fastforce

lemma keeps_claim: "keeps {c} st (snd (claim_terminal c st))"
  by (auto simp: claim_terminal_cases keeps_def open_control_def store_ok_def is_cancelled_def nth_list_update)

lemma keeps_cancel: "keeps {} st (snd (control_cancel c st))"
  by (auto simp: control_cancel_cases keeps_def open_control_def store_ok_def is_cancelled_def nth_list_update)

lemma keeps_cancel_fold: "keeps {} st (fold (\<lambda>c st. snd (control_cancel c st)) cs st)"
  by (induction cs arbitrary: st) (auto intro: keeps_trans keeps_cancel)

lemma keeps_new: "keeps {} st (snd (control_new st))" "open_control (snd (control_new st)) (length st)"
  by (auto simp: control_new_def keeps_def open_control_def store_ok_def is_cancelled_def nth_append less_Suc_eq)

lemma claim_cancelled: "is_cancelled d (snd (claim_terminal c st)) = is_cancelled d st"
  by (cases "d < length st") (auto simp: claim_terminal_cases is_cancelled_def nth_list_update)

lemma claim_lost: "open_control st c \<Longrightarrow> \<not> fst (claim_terminal c st) \<Longrightarrow> is_cancelled c (snd (claim_terminal c st))"
  by (auto simp: claim_terminal_cases open_control_def is_cancelled_def split: if_splits)

lemma permit_claim_eq:
  "permit_claim_terminal p a =
     (fst (claim_terminal (pm_control p) (ad_controls a)),
      a\<lparr>ad_controls := snd (claim_terminal (pm_control p) (ad_controls a))\<rparr>)"
  by (simp add: permit_claim_terminal_def split: prod.split)

subsection \<open>Requests of the admission\<close>

abbreviation request_ids :: "attachment_admission \<Rightarrow> u64 set" where
  "request_ids a \<equiv> fst ` set (ad_requests a)"

lemma permit_drop_state [simp]:
  "ad_controls (permit_drop p a) = ad_controls a"
  "request_ids (permit_drop p a) = request_ids a - {pm_request_id p}"
proof -
  show "ad_controls (permit_drop p a) = ad_controls a"
    by (simp add: permit_drop_def release_def split: option.split)
  show "request_ids (permit_drop p a) = request_ids a - {pm_request_id p}"
  proof (cases "map_of (ad_requests a) (pm_request_id p)")
    case None
    moreover have "pm_request_id p \<notin> request_ids a" using None by (simp add: map_of_eq_None_iff)
    ultimately show ?thesis by (simp add: permit_drop_def release_def)
  next
    case (Some e)
    then show ?thesis by (auto simp: permit_drop_def release_def AList.delete_eq)
  qed
qed

lemma fold_drop:
  "fold (at_drop \<circ> tk_permit) ts s = s\<lparr>at_admission := fold (permit_drop \<circ> tk_permit) ts (at_admission s)\<rparr>"
  by (induction ts arbitrary: s) (simp_all add: at_drop_def)

lemma fold_permit_drop:
  "ad_controls (fold (permit_drop \<circ> tk_permit) ts a) = ad_controls a"
  "request_ids (fold (permit_drop \<circ> tk_permit) ts a) = request_ids a - (pm_request_id \<circ> tk_permit) ` set ts"
  by (induction ts arbitrary: a) auto

subsection \<open>Invariant\<close>

definition task_pair :: "attachment_task \<Rightarrow> u64 \<times> control_ref" where
  "task_pair t = (pm_request_id (tk_permit t), pm_control (tk_permit t))"

definition queue_pair :: "attachment_permit \<times> bool \<Rightarrow> u64 \<times> control_ref" where
  "queue_pair q = (pm_request_id (fst q), pm_control (fst q))"

text \<open>The requests that have been admitted and not yet ended, with their controls.\<close>

definition pending :: "'w attachment_tasks \<Rightarrow> (u64 \<times> control_ref) list" where
  "pending s = map queue_pair (at_queue s) @ map task_pair (at_tasks s)"

abbreviation controls :: "'w attachment_tasks \<Rightarrow> control_store" where
  "controls s \<equiv> ad_controls (at_admission s)"

abbreviation at_events :: "'w attachment_tasks \<Rightarrow> event list" where
  "at_events s \<equiv> bk_events (at_backend s)"

definition queue_ok :: "control_store \<Rightarrow> attachment_permit \<times> bool \<Rightarrow> bool" where
  "queue_ok st q \<longleftrightarrow> pm_registration (fst q) \<and> open_control st (pm_control (fst q))"

definition task_ok :: "control_store \<Rightarrow> attachment_task \<Rightarrow> bool" where
  "task_ok st t \<longleftrightarrow>
     (case tk_result t of
        None \<Rightarrow> pm_registration (tk_permit t) \<and> open_control st (pm_control (tk_permit t))
      | Some Task_Cancelled \<Rightarrow> is_cancelled (pm_control (tk_permit t)) st
      | Some (Task_Finished _) \<Rightarrow> True)"

definition att_inv :: "'w attachment_tasks \<Rightarrow> bool" where
  "att_inv s \<longleftrightarrow>
     distinct (map fst (pending s)) \<and> distinct (map snd (pending s)) \<and>
     (\<forall>ic \<in> set (pending s). fst ic \<noteq> 0 \<and> fst ic \<in> request_ids (at_admission s) \<and> snd ic < length (controls s)) \<and>
     at_aborts s = map task_pair (at_tasks s) \<and> store_ok (controls s) \<and>
     (\<forall>q \<in> set (at_queue s). queue_ok (controls s) q) \<and> (\<forall>t \<in> set (at_tasks s). task_ok (controls s) t)"

text \<open>
  A step settles the requests: one that ends is answered once, or was cancelled and is not answered; the others are
  not answered.
\<close>

definition settled_by :: "event list \<Rightarrow> 'w attachment_tasks \<Rightarrow> u64 \<times> control_ref \<Rightarrow> bool" where
  "settled_by new s1 ic \<longleftrightarrow>
     (if ic \<in> set (pending s1) then events_for (fst ic) new = []
      else length (events_for (fst ic) new) = 1 \<or>
           events_for (fst ic) new = [] \<and> is_cancelled (snd ic) (controls s1))"

definition settles :: "'w attachment_tasks \<Rightarrow> 'w attachment_tasks \<Rightarrow> bool" where
  "settles s s1 \<longleftrightarrow>
     (\<exists>new. at_events s1 = at_events s @ new \<and> list_all (settled_by new s1) (pending s) \<and>
        set (map ev_request_id new) \<subseteq> insert 0 (fst ` set (pending s)))"

lemma settles_quiet: "at_events s1 = at_events s \<Longrightarrow> set (pending s) \<subseteq> set (pending s1) \<Longrightarrow> settles s s1"
  unfolding settles_def by (intro exI [of _ "[]"]) (auto simp: list_all_iff settled_by_def events_for_def)

lemma att_inv_step:
  assumes inv: "att_inv s"
    and sub: "set (at_queue s1) \<subseteq> set (at_queue s)" "set (at_tasks s1) \<subseteq> set (at_tasks s)"
    and dist: "distinct (map fst (pending s1))" "distinct (map snd (pending s1))"
    and aborts: "at_aborts s1 = map task_pair (at_tasks s1)"
    and keep: "keeps X (controls s) (controls s1)" "X \<inter> snd ` set (pending s1) = {}"
    and ids: "fst ` set (pending s1) \<subseteq> request_ids (at_admission s1)"
  shows "att_inv s1"
proof -
  have pend: "set (pending s1) \<subseteq> set (pending s)" using sub by (auto simp: pending_def)
  have free: "snd ic \<notin> X" if "ic \<in> set (pending s1)" for ic using keep(2) that by blast
  have "queue_ok (controls s1) q" if q: "q \<in> set (at_queue s1)" for q
  proof -
    have "queue_pair q \<in> set (pending s1)" using q by (simp add: pending_def)
    then have "pm_control (fst q) \<notin> X" using free by (fastforce simp: queue_pair_def)
    moreover have "queue_ok (controls s) q" using inv sub q unfolding att_inv_def by blast
    ultimately show ?thesis using keep(1) by (auto simp: queue_ok_def keeps_def)
  qed
  moreover have "task_ok (controls s1) t" if t: "t \<in> set (at_tasks s1)" for t
  proof -
    have p: "task_pair t \<in> set (pending s1)" using t by (simp add: pending_def)
    have "task_ok (controls s) t" using inv sub t unfolding att_inv_def by blast
    moreover have "pm_control (tk_permit t) \<notin> X" using free [OF p] by (simp add: task_pair_def)
    moreover have "snd (task_pair t) < length (controls s)" using inv pend p unfolding att_inv_def by blast
    ultimately show ?thesis
      using keep(1) by (auto simp: task_ok_def task_pair_def keeps_def split: option.splits attachment_task_result.splits)
  qed
  moreover have "fst ic \<noteq> 0 \<and> fst ic \<in> request_ids (at_admission s1) \<and> snd ic < length (controls s1)"
    if ic: "ic \<in> set (pending s1)" for ic
  proof -
    have "fst ic \<noteq> 0" "snd ic < length (controls s)" using inv pend ic unfolding att_inv_def by blast+
    moreover have "fst ic \<in> request_ids (at_admission s1)" using ids ic by blast
    ultimately show ?thesis using keep(1) unfolding keeps_def by simp
  qed
  moreover have "store_ok (controls s1)" using inv keep(1) unfolding att_inv_def keeps_def by blast
  ultimately show ?thesis using dist aborts unfolding att_inv_def by blast
qed

subsection \<open>One step at a time\<close>

lemma cancel_step_ok:
  assumes "att_inv s" "keeps {} (controls s) (ad_controls a)" "ad_requests a = ad_requests (at_admission s)"
  shows "att_inv (s\<lparr>at_admission := a\<rparr>) \<and> settles s (s\<lparr>at_admission := a\<rparr>)"
proof
  have p: "pending (s\<lparr>at_admission := a\<rparr>) = pending s" by (simp add: pending_def)
  show "att_inv (s\<lparr>at_admission := a\<rparr>)"
    using assms p by (intro att_inv_step [OF assms(1), where X = "{}"]) (auto simp: att_inv_def)
  show "settles s (s\<lparr>at_admission := a\<rparr>)" by (rule settles_quiet) (simp_all add: p)
qed

lemma admission_cancel_state:
  "keeps {} (ad_controls a) (ad_controls (snd (admission_cancel i a)))"
  "ad_requests (snd (admission_cancel i a)) = ad_requests a"
  "keeps {} (ad_controls a) (ad_controls (cancel_all a))" "ad_requests (cancel_all a) = ad_requests a"
  using keeps_cancel keeps_cancel_fold
  by (auto simp: admission_cancel_def cancel_all_def split: option.split)

lemma distinct_insert_mid: "distinct (xs @ [x] @ ys) \<longleftrightarrow> x \<notin> set (xs @ ys) \<and> distinct (xs @ ys)"
  by auto

lemma submit_ok:
  assumes "att_inv s"
  shows "att_inv (attachment_exec sv st (Att_Submit i n g) s) \<and> settles s (attachment_exec sv st (Att_Submit i n g) s)"
proof (cases "try_reserve i n (at_admission s)")
  case (Pair r a)
  show ?thesis
  proof (cases r)
    case (Inl e)
    then have "a = at_admission s" using Pair try_reserve_Inl by blast
    then show ?thesis using Pair Inl assms by (simp add: settles_quiet)
  next
    case (Inr p)
    note r = try_reserve_Inr [OF Pair [unfolded Inr]]
    let ?s1 = "s\<lparr>at_admission := a, at_queue := at_queue s @ [(p, g)]\<rparr>"
    have c: "controls ?s1 = snd (control_new (controls s))" using r(9) by simp
    have pend: "set (pending ?s1) = insert (i, length (controls s)) (set (pending s))"
      using r(8) by (auto simp: pending_def queue_pair_def)
    have kept: "keeps {} (controls s) (controls ?s1)" unfolding c by (rule keeps_new)
    have "att_inv ?s1"
      unfolding att_inv_def
    proof (intro conjI ballI)
      have "pending ?s1 = map queue_pair (at_queue s) @ [(i, length (controls s))] @ map task_pair (at_tasks s)"
        using r(8) by (simp add: pending_def queue_pair_def)
      moreover have "i \<notin> set (map fst (pending s))" "length (controls s) \<notin> set (map snd (pending s))"
        using assms r(4) unfolding att_inv_def by fastforce+
      ultimately show "distinct (map fst (pending ?s1))" "distinct (map snd (pending ?s1))"
        using assms by (simp_all only: map_append list.map distinct_insert_mid fst_conv snd_conv)
          (simp_all add: att_inv_def pending_def)
      fix ic assume "ic \<in> set (pending ?s1)"
      then show "fst ic \<noteq> 0" "fst ic \<in> request_ids (at_admission ?s1)" "snd ic < length (controls ?s1)"
        using assms r(1,9) unfolding pend by (auto simp: att_inv_def control_new_def)
    next
      fix q assume "q \<in> set (at_queue ?s1)"
      then show "queue_ok (controls ?s1) q"
        using assms kept r(8) keeps_new(2) [of "controls s"] unfolding c [symmetric]
        by (auto simp: att_inv_def queue_ok_def keeps_def)
    next
      fix t assume "t \<in> set (at_tasks ?s1)"
      moreover from this have "task_pair t \<in> set (pending s)" by (simp add: pending_def)
      then have "pm_control (tk_permit t) < length (controls s)" using assms by (auto simp: att_inv_def task_pair_def)
      ultimately show "task_ok (controls ?s1) t"
        using assms kept by (auto simp: att_inv_def task_ok_def keeps_def split: option.splits attachment_task_result.splits)
    qed (use assms kept in \<open>auto simp: att_inv_def keeps_def\<close>)
    moreover have "settles s ?s1" by (rule settles_quiet) (auto simp: pend)
    ultimately show ?thesis using Pair Inr by simp
  qed
qed

lemma remove_head:
  assumes inv: "att_inv s" and q: "at_queue s = (p, g) # rest"
    and s1: "at_queue s1 = rest" "at_tasks s1 = at_tasks s" "at_aborts s1 = at_aborts s"
      "keeps {pm_control p} (controls s) (controls s1)"
      "request_ids (at_admission s1) = request_ids (at_admission s) - {pm_request_id p}"
      "at_events s1 = at_events s @ new"
    and new: "(\<exists>e. new = [e] \<and> ev_request_id e = pm_request_id p) \<or> new = [] \<and> is_cancelled (pm_control p) (controls s1)"
  shows "att_inv s1 \<and> settles s s1"
proof
  let ?ic = "(pm_request_id p, pm_control p)"
  have pend: "pending s = ?ic # pending s1" using q s1 by (simp add: pending_def queue_pair_def)
  have fresh: "pm_request_id p \<notin> fst ` set (pending s1)" "pm_control p \<notin> snd ` set (pending s1)"
    "distinct (map fst (pending s1))" "distinct (map snd (pending s1))"
    using inv unfolding att_inv_def pend by auto
  have "fst ` set (pending s1) \<subseteq> request_ids (at_admission s)" using inv unfolding att_inv_def pend by auto
  then have ids: "fst ` set (pending s1) \<subseteq> request_ids (at_admission s1)" using fresh(1) unfolding s1(5) by blast
  show "att_inv s1"
    using q s1 fresh ids inv by (intro att_inv_step [OF inv, where X = "{pm_control p}"]) (auto simp: att_inv_def)
  have "settled_by new s1 ic" if "ic \<in> set (pending s1)" for ic
    using that new fresh(1) by (auto simp: settled_by_def events_for_def)
  moreover have "settled_by new s1 ?ic"
    using new fresh(1) by (force simp: settled_by_def events_for_def)
  ultimately show "settles s s1"
    using s1(6) new unfolding settles_def pend by (intro exI [of _ new]) (auto simp: list_all_iff)
qed

lemma fail_ok:
  assumes inv: "att_inv s"
  shows "att_inv (attachment_exec sv st (Att_Fail m) s) \<and> settles s (attachment_exec sv st (Att_Fail m) s)"
proof (cases "at_queue s")
  case Nil
  then show ?thesis using inv by (simp add: settles_quiet)
next
  case (Cons q rest)
  obtain p g where q: "q = (p, g)" by (cases q)
  let ?c = "claim_terminal (pm_control p) (controls s)"
  have "open_control (controls s) (pm_control p)" using inv Cons q by (auto simp: att_inv_def queue_ok_def)
  note lost = claim_lost [OF this] and keep = keeps_claim [of "pm_control p" "controls s"]
  show ?thesis
    using Cons q lost keep
    by (cases "fst ?c"; intro remove_head [OF inv, of p g rest _ "if fst ?c then [request_error (pm_request_id p) m] else []"])
       (simp_all add: deferred_command_failure_def permit_claim_eq at_emit_def)
qed

lemma spawn_ok:
  assumes inv: "att_inv s" and q: "at_queue s = (p, g) # rest"
    and s1: "s1 = s\<lparr>at_queue := rest, at_tasks := at_tasks s @ [\<lparr>tk_permit = p, tk_result = None\<rparr>],
      at_aborts := AList.update (pm_request_id p) (pm_control p) (at_aborts s)\<rparr>"
  shows "att_inv s1 \<and> settles s s1"
proof
  let ?ic = "(pm_request_id p, pm_control p)"
  have pend: "pending s = ?ic # map queue_pair rest @ map task_pair (at_tasks s)"
      "pending s1 = map queue_pair rest @ map task_pair (at_tasks s) @ [?ic]"
    using q s1 by (simp_all add: pending_def queue_pair_def task_pair_def)
  have same: "set (pending s1) = set (pending s)" unfolding pend by auto
  then show "settles s s1" by (intro settles_quiet) (auto simp: s1)
  have "pm_request_id p \<notin> fst ` set (at_aborts s)"
    using inv unfolding att_inv_def pend by auto
  then have "at_aborts s1 = map task_pair (at_tasks s1)"
    using inv s1 by (simp add: att_inv_def update_fresh_alist task_pair_def)
  moreover have "distinct (map fst (pending s1))" "distinct (map snd (pending s1))"
    using inv unfolding att_inv_def pend by auto
  ultimately show "att_inv s1"
    using inv q same s1 unfolding att_inv_def by (auto simp: queue_ok_def task_ok_def)
qed

lemma dispatch_ok:
  assumes inv: "att_inv s"
  shows "att_inv (attachment_exec sv st (Att_Dispatch auth) s) \<and> settles s (attachment_exec sv st (Att_Dispatch auth) s)"
proof (cases "at_queue s")
  case Nil
  then show ?thesis using inv by (simp add: settles_quiet)
next
  case (Cons q rest)
  obtain p g where q: "q = (p, g)" by (cases q)
  let ?c = "claim_terminal (pm_control p) (controls s)"
  have "open_control (controls s) (pm_control p)" using inv Cons q by (auto simp: att_inv_def queue_ok_def)
  note lost = claim_lost [OF this] and keep = keeps_claim [of "pm_control p" "controls s"]
  consider "permit_is_cancelled p (at_admission s)" | "\<not> permit_is_cancelled p (at_admission s)" "g \<and> \<not> auth"
    | "\<not> permit_is_cancelled p (at_admission s)" "\<not> (g \<and> \<not> auth)" by blast
  then show ?thesis
  proof cases
    case 1
    then show ?thesis
      using Cons q
      by (intro remove_head [OF inv, of p g rest _ "[]"])
         (simp_all add: dispatch_attachment_def at_drop_def permit_is_cancelled_def)
  next
    case 2
    then show ?thesis
      using Cons q lost keep
      by (cases "fst ?c";
          intro remove_head [OF inv, of p g rest _ "if fst ?c then [request_error (pm_request_id p) GROUPS_NOT_AUTHORITATIVE] else []"])
         (simp_all add: dispatch_attachment_def at_drop_def at_emit_def permit_claim_eq)
  next
    case 3
    then show ?thesis
      using Cons q spawn_ok [OF inv, of p g rest, OF _ refl] by (auto simp: dispatch_attachment_def Let_def)
  qed
qed

subsection \<open>A task that ends\<close>

lemma settle_task_state:
  assumes "open_control (ad_controls a) (pm_control p)" and "settle_task p result a = (r, a1)"
  shows "keeps {pm_control p} (ad_controls a) (ad_controls a1)" "ad_requests a1 = ad_requests a"
    "r = Task_Cancelled \<Longrightarrow> is_cancelled (pm_control p) (ad_controls a1)"
  using assms keeps_claim [of "pm_control p" "ad_controls a"] claim_lost [OF assms(1)]
  by (auto simp: settle_task_def permit_claim_eq split: if_splits)

lemma run_attachment_task_state:
  assumes ok: "open_control (ad_controls a) (pm_control p)" "store_ok (ad_controls a)"
    and run: "run_attachment_task p outcome a = Some (r, p1, a1)"
    and aborted: "outcome = Outcome_Aborted \<Longrightarrow> aborted_control p a"
  shows "keeps {pm_control p} (ad_controls a) (ad_controls a1)" "ad_requests a1 = ad_requests a"
    "pm_request_id p1 = pm_request_id p" "pm_control p1 = pm_control p"
    "r = Task_Cancelled \<Longrightarrow> is_cancelled (pm_control p) (ad_controls a1)"
proof -
  have p1: "p1 = p\<lparr>pm_registration := False\<rparr>"
    using run by (auto simp: run_attachment_task_def take_cancellation_registration_def split: task_outcome.splits
        prod.splits if_splits)
  then show "pm_request_id p1 = pm_request_id p" "pm_control p1 = pm_control p" by simp_all
  have "aborted_control p a \<Longrightarrow> is_cancelled (pm_control p) (ad_controls a)"
    using ok by (auto simp: aborted_control_def is_cancelled_def store_ok_def open_control_def)
  moreover consider "outcome = Outcome_Aborted" "r = Task_Cancelled" "a1 = a"
    | result where "settle_task (p\<lparr>pm_registration := False\<rparr>) result a = (r, a1)"
    using run by (auto simp: run_attachment_task_def take_cancellation_registration_def split: task_outcome.splits
        prod.splits if_splits)
  ultimately show "keeps {pm_control p} (ad_controls a) (ad_controls a1)" "ad_requests a1 = ad_requests a"
    "r = Task_Cancelled \<Longrightarrow> is_cancelled (pm_control p) (ad_controls a1)"
    using settle_task_state [of a "p\<lparr>pm_registration := False\<rparr>"] ok(1) aborted by (cases; fastforce)+
qed

lemma update_task_ok:
  assumes inv: "att_inv s" and t: "t \<in> set (at_tasks s)"
    and a1: "keeps {pm_control (tk_permit t)} (controls s) (ad_controls a1)" "ad_requests a1 = ad_requests (at_admission s)"
    and u: "task_pair u = task_pair t" "task_ok (ad_controls a1) u"
    and s1: "s1 = s\<lparr>at_admission := a1, at_tasks := map (\<lambda>v. if pm_request_id (tk_permit v) = pm_request_id (tk_permit t)
      then u else v) (at_tasks s)\<rparr>"
  shows "att_inv s1 \<and> settles s s1"
proof
  have unique: "v = t" if "v \<in> set (at_tasks s)" "pm_request_id (tk_permit v) = pm_request_id (tk_permit t)" for v
  proof -
    have "distinct (map (fst \<circ> task_pair) (at_tasks s))" using inv by (simp add: att_inv_def pending_def)
    then have "inj_on (fst \<circ> task_pair) (set (at_tasks s))" by (simp add: distinct_map)
    then show ?thesis using that t by (auto simp: inj_on_def task_pair_def)
  qed
  have tasks: "map task_pair (at_tasks s1) = map task_pair (at_tasks s)" using u(1) unique by (auto simp: s1)
  then have pend: "pending s1 = pending s" by (simp add: pending_def s1)
  show "settles s s1" by (rule settles_quiet) (simp_all add: pend, simp add: s1)
  have other: "pm_control (tk_permit v) \<noteq> pm_control (tk_permit t)" if "v \<in> set (at_tasks s)" "v \<noteq> t" for v
  proof -
    have "distinct (map (snd \<circ> task_pair) (at_tasks s))" using inv by (simp add: att_inv_def pending_def)
    then have "inj_on (snd \<circ> task_pair) (set (at_tasks s))" by (simp add: distinct_map)
    then show ?thesis using that t by (auto simp: inj_on_def task_pair_def)
  qed
  let ?s0 = "s\<lparr>at_admission := a1, at_tasks := filter (\<lambda>v. v \<noteq> t) (at_tasks s), at_aborts := map task_pair (filter (\<lambda>v. v \<noteq> t) (at_tasks s))\<rparr>"
  have pend0: "set (pending ?s0) \<subseteq> set (pending s)" by (auto simp: pending_def)
  have c: "pm_control (tk_permit t) \<notin> snd ` set (pending ?s0)"
  proof -
    have "pm_control (tk_permit t) \<notin> snd ` queue_pair ` set (at_queue s)"
      using inv t by (force simp: att_inv_def pending_def task_pair_def)
    then show ?thesis using other by (fastforce simp: pending_def task_pair_def)
  qed
  have dist: "distinct (map fst (pending ?s0))" "distinct (map snd (pending ?s0))"
    using inv by (auto simp: att_inv_def pending_def distinct_map_filter)
  have "fst ` set (pending ?s0) \<subseteq> request_ids a1"
    using inv pend0 unfolding a1(2) att_inv_def by blast
  then have "att_inv ?s0"
    using inv a1(1) c dist by (intro att_inv_step [OF inv, where X = "{pm_control (tk_permit t)}"]) (auto simp: att_inv_def)
  then have "\<forall>v \<in> set (at_tasks s1). task_ok (controls s1) v"
    using u(2) unique by (auto simp: att_inv_def s1)
  with \<open>att_inv ?s0\<close> show "att_inv s1"
    using inv a1(1) pend tasks unfolding att_inv_def by (auto simp: s1 a1(2) keeps_def)
qed

lemma end_ok:
  assumes inv: "att_inv s"
  shows "att_inv (attachment_exec sv st (Att_End i outcome) s) \<and> settles s (attachment_exec sv st (Att_End i outcome) s)"
proof -
  let ?P = "\<lambda>t. pm_request_id (tk_permit t) = i \<and> tk_result t = None"
  have idle: "att_inv s \<and> settles s s" using inv by (simp add: settles_quiet)
  show ?thesis
  proof (cases "find ?P (at_tasks s)")
    case None
    then show ?thesis using idle by (simp add: end_task_def)
  next
    case (Some t)
    then have t: "t \<in> set (at_tasks s)" "pm_request_id (tk_permit t) = i" "tk_result t = None"
      by (auto dest: find_SomeD)
    then have ok: "pm_registration (tk_permit t)" "open_control (controls s) (pm_control (tk_permit t))" "store_ok (controls s)"
      using inv by (auto simp: att_inv_def task_ok_def)
    show ?thesis
    proof (cases "outcome = Outcome_Aborted \<and> \<not> aborted_control (tk_permit t) (at_admission s)")
      case True
      then show ?thesis using idle Some by (simp add: end_task_def)
    next
      case False
      show ?thesis
      proof (cases "run_attachment_task (tk_permit t) outcome (at_admission s)")
        case None
        then show ?thesis using idle Some False by (auto simp: end_task_def)
      next
        case (Some x)
        obtain r p1 a1 where x: "x = (r, p1, a1)" by (cases x)
        note run = run_attachment_task_state [OF ok(2,3) Some [unfolded x]]
        let ?u = "\<lparr>tk_permit = p1, tk_result = Some r\<rparr>"
        have "task_ok (ad_controls a1) ?u"
          using run(4,5) False by (auto simp: task_ok_def split: attachment_task_result.split)
        moreover have "task_pair ?u = task_pair t" using run(3,4) False by (simp add: task_pair_def)
        ultimately show ?thesis
          using update_task_ok [OF inv t(1) run(1,2) _ _ refl, of ?u] False \<open>find ?P (at_tasks s) = Some t\<close> Some x t(2)
          by (auto simp: end_task_def)
      qed
    qed
  qed
qed

end
