(* ===== verification/Worker.thy ===== *)
theory Worker
  imports Attachment_Tasks
begin

section \<open>The worker (backend/worker.rs, backend/shutdown.rs)\<close>

text \<open>
  The connection of an account from its start to its end: waiting out a recovery, starting to receive, the
  phases of a start, the dispatch of everything that can happen while connected, and the stops. Which branch of a \<^verbatim>\<open>select!\<close>
  runs is a turn, an argument of the step; the moment a shutdown or the timeout of a clean-up arrives is given as the number
  of phases completed before it. A phase is not interrupted in the middle.
\<close>

subsection \<open>Phases and shutdown\<close>

fun run_phases :: "nat option \<Rightarrow> ('s \<Rightarrow> 's) list \<Rightarrow> 's \<Rightarrow> bool \<times> 's" where
  "run_phases limit [] s = (True, s)"
| "run_phases (Some 0) (f # fs) s = (False, s)"
| "run_phases (Some (Suc n)) (f # fs) s = run_phases (Some n) fs (f s)"
| "run_phases None (f # fs) s = run_phases None fs (f s)"

record ('w, 'img) worker_services =
  ws_snapshots :: "('w, 'img) snapshot_services"
  ws_retrieve_profile :: "('w, string option rresult) io"
  ws_transcode :: "usize \<Rightarrow> transcode_env"

abbreviation ws_sv :: "('w, 'img) worker_services \<Rightarrow> 'w services" where
  "ws_sv ws \<equiv> sn_services (ws_snapshots ws)"

abbreviation ws_store :: "('w, 'img) worker_services \<Rightarrow> 'w sqlite_store" where
  "ws_store ws \<equiv> sn_store (ws_snapshots ws)"

text \<open>
  A task that waits for its start signal does nothing until it is sent, and ends when the sender is
  dropped or the task is aborted. The synchronization of groups reports its result on a channel.
\<close>

datatype 'a gated_task = Gated_Absent | Gated_Waiting | Gated_Running 'a

definition run_after_start_signal :: "'a \<Rightarrow> 'a gated_task \<Rightarrow> 'a gated_task" where
  "run_after_start_signal x t = (case t of Gated_Waiting \<Rightarrow> Gated_Running x | _ \<Rightarrow> t)"

datatype group_sync = Sync_Absent | Sync_Running | Sync_Reported "unit rresult"

text \<open>
  The state of \<^verbatim>\<open>ConnectionSession\<close>, with the tasks of one connection. The channel of commands is their
  list and whether its senders are gone.
\<close>

record 'w connection =
  cn_tasks :: "'w attachment_tasks"
  cn_commands :: "command list"
  cn_closed :: bool
  cn_deferred :: "command list"
  cn_projection :: message_projection
  cn_replay :: message_replay_queue
  cn_session :: session_state
  cn_generation :: u64
  cn_ready :: bool
  cn_avatars :: avatar_cache
  cn_group_sync :: group_sync
  cn_contact_sync :: "recovery_backoff gated_task"
  cn_avatar_fetch :: "unit gated_task"

abbreviation cn_backend :: "'w connection \<Rightarrow> 'w backend" where
  "cn_backend c \<equiv> at_backend (cn_tasks c)"

definition set_backend :: "'w backend \<Rightarrow> 'w connection \<Rightarrow> 'w connection" where
  "set_backend b c = c\<lparr>cn_tasks := (cn_tasks c)\<lparr>at_backend := b\<rparr>\<rparr>"

definition on_backend :: "('w backend \<Rightarrow> 'w backend) \<Rightarrow> 'w connection \<Rightarrow> 'w connection" where
  "on_backend f c = set_backend (f (cn_backend c)) c"

definition on_snapshot :: "('w snapshot_state \<Rightarrow> 'w snapshot_state) \<Rightarrow> 'w connection \<Rightarrow> 'w connection" where
  "on_snapshot f c =
     (case f (cn_avatars c, cn_backend c) of (avatars, b) \<Rightarrow> (set_backend b c)\<lparr>cn_avatars := avatars\<rparr>)"

definition on_projection ::
  "(message_projection \<Rightarrow> 'w backend \<Rightarrow> message_projection \<times> 'w backend) \<Rightarrow> 'w connection \<Rightarrow> 'w connection" where
  "on_projection f c =
     (case f (cn_projection c) (cn_backend c) of (p, b) \<Rightarrow> (set_backend b c)\<lparr>cn_projection := p\<rparr>)"

subsection \<open>Stopping\<close>

definition close_acknowledgments :: "'w connection \<Rightarrow> 'w connection" where
  "close_acknowledgments c =
     c\<lparr>cn_projection := (cn_projection c)\<lparr>mp_acknowledgments := ack_close (mp_acknowledgments (cn_projection c))\<rparr>\<rparr>"

definition abort_receipts :: "'w connection \<Rightarrow> 'w connection" where
  "abort_receipts c = c\<lparr>cn_projection := abort_delivery_receipt_tasks (cn_projection c)\<rparr>"

definition abort_attachments :: "('w, 'img) worker_services \<Rightarrow> 'w connection \<Rightarrow> 'w connection" where
  "abort_attachments ws c = c\<lparr>cn_tasks := abort_in_flight_attachments (ws_sv ws) (cn_tasks c)\<rparr>"

definition drain_acks :: "('w, 'img) worker_services \<Rightarrow> 'w connection \<Rightarrow> 'w connection" where
  "drain_acks ws = on_projection (drain_acknowledgments (ws_sv ws))"

text \<open>A clean-up that runs out of time is followed by abandoning the attachments.\<close>

definition finish_cleanup :: "nat option \<Rightarrow> ('w connection \<Rightarrow> 'w connection) list \<Rightarrow> 'w connection \<Rightarrow> 'w connection" where
  "finish_cleanup limit cleanup c =
     (case run_phases limit cleanup c of
        (True, c1) \<Rightarrow> c1
      | (False, c1) \<Rightarrow> c1\<lparr>cn_tasks := abandon_timed_out_attachments (cn_tasks c1)\<rparr>)"

definition stop_attachments_and_drain_acknowledgments ::
  "('w, 'img) worker_services \<Rightarrow> nat option \<Rightarrow> 'w connection \<Rightarrow> 'w connection" where
  "stop_attachments_and_drain_acknowledgments ws limit c =
     finish_cleanup limit [abort_receipts, abort_attachments ws, drain_acks ws] (close_acknowledgments c)"

definition stop_receive_tasks ::
  "('w, 'img) worker_services \<Rightarrow> nat option \<Rightarrow> ('w connection \<Rightarrow> 'w connection) list \<Rightarrow> 'w connection \<Rightarrow> 'w connection" where
  "stop_receive_tasks ws limit final_cleanup c =
     finish_cleanup limit (abort_attachments ws # final_cleanup)
       (c\<lparr>cn_group_sync := Sync_Absent, cn_contact_sync := Gated_Absent, cn_avatar_fetch := Gated_Absent\<rparr>)"

definition stop_active_receive_loop ::
  "('w, 'img) worker_services \<Rightarrow> nat option \<Rightarrow> 'w connection \<Rightarrow> 'w connection" where
  "stop_active_receive_loop ws limit c =
     stop_receive_tasks ws limit [abort_receipts, drain_acks ws] (close_acknowledgments c)"

subsection \<open>Commands during a recovery\<close>

definition handle_recovery_command :: "command \<Rightarrow> command list \<Rightarrow> command list" where
  "handle_recovery_command command deferred =
     (case command of Set_Typing _ _ _ \<Rightarrow> deferred | _ \<Rightarrow> deferred @ [command])"

definition drain_recovery_commands :: "'w connection \<Rightarrow> bool \<times> 'w connection" where
  "drain_recovery_commands c =
     (cn_closed c, c\<lparr>cn_commands := [], cn_deferred := fold handle_recovery_command (cn_commands c) (cn_deferred c)\<rparr>)"

definition fail_deferred_command :: "string \<Rightarrow> command \<Rightarrow> 'w connection \<Rightarrow> 'w connection" where
  "fail_deferred_command message command c =
     (case deferred_command_failure command message (at_admission (cn_tasks c)) of
        (e, a) \<Rightarrow>
          let c1 = c\<lparr>cn_tasks := (cn_tasks c)\<lparr>at_admission := a\<rparr>\<rparr>
          in (case e of Some ev \<Rightarrow> on_backend (emit ev) c1 | None \<Rightarrow> c1))"

definition fail_deferred_commands :: "string \<Rightarrow> 'w connection \<Rightarrow> 'w connection" where
  "fail_deferred_commands message c =
     fold (fail_deferred_command message) (cn_deferred c) (c\<lparr>cn_deferred := []\<rparr>)"

subsection \<open>Branches the waits and the dispatch share\<close>

definition serve_acknowledgments :: "('w, 'img) worker_services \<Rightarrow> 'w connection \<Rightarrow> 'w connection" where
  "serve_acknowledgments ws = on_projection (\<lambda>p b. snd (process_acknowledgments (ws_sv ws) True p b))"

definition activate_ack_retries :: "'w connection \<Rightarrow> 'w connection" where
  "activate_ack_retries c =
     c\<lparr>cn_projection := (cn_projection c)\<lparr>mp_acknowledgments := activate_retries (mp_acknowledgments (cn_projection c))\<rparr>\<rparr>"

definition serve_join :: "('w, 'img) worker_services \<Rightarrow> u64 \<Rightarrow> 'w connection \<Rightarrow> 'w connection" where
  "serve_join ws i c = c\<lparr>cn_tasks := join_task (ws_sv ws) (ws_store ws) i (cn_tasks c)\<rparr>"

definition identity_changes :: "('w, 'img) worker_services \<Rightarrow> 'w connection \<Rightarrow> 'w connection" where
  "identity_changes ws = on_backend (emit_identity_changes (ws_store ws))"

definition outbox_round :: "('w, 'img) worker_services \<Rightarrow> bool \<Rightarrow> 'w connection \<Rightarrow> 'w connection" where
  "outbox_round ws authoritative = on_backend (retry_outbox (ws_sv ws) authoritative)"

subsection \<open>The phases of a start\<close>

definition group_snapshot ::
  "('w, 'img) worker_services \<Rightarrow> bool \<Rightarrow> 'w connection \<Rightarrow> unit rresult \<times> 'w connection" where
  "group_snapshot ws authoritative c =
     (case emit_group_snapshot (ws_snapshots ws) (\<lambda>_. bk_departed (cn_backend c)) authoritative
             (cn_avatars c, cn_backend c) of
        (r, (avatars, b)) \<Rightarrow> (r, (set_backend b c)\<lparr>cn_avatars := avatars\<rparr>))"

definition startup_group_snapshot :: "('w, 'img) worker_services \<Rightarrow> 'w connection \<Rightarrow> 'w connection" where
  "startup_group_snapshot ws c =
     (case group_snapshot ws False c of
        (Inl error, c1) \<Rightarrow> on_backend (emit (transient_error error)) c1
      | (Inr _, c1) \<Rightarrow> c1)"

definition load_unprojected :: "('w, 'img) worker_services \<Rightarrow> 'w connection \<Rightarrow> 'w connection" where
  "load_unprojected ws c =
     (case load_unprojected_messages (ws_sv ws) (groups_authoritative (cn_session c)) (cn_replay c) (cn_backend c) of
        (replay, b) \<Rightarrow> (set_backend b c)\<lparr>cn_replay := replay\<rparr>)"

definition startup_phases :: "('w, 'img) worker_services \<Rightarrow> bool \<Rightarrow> ('w connection \<Rightarrow> 'w connection) list" where
  "startup_phases ws authoritative =
     [on_backend (emit_account_identity (ws_sv ws) (ws_retrieve_profile ws)),
      on_snapshot (emit_contact_snapshot (ws_snapshots ws)),
      startup_group_snapshot ws,
      load_unprojected ws,
      identity_changes ws,
      outbox_round ws authoritative,
      identity_changes ws]"

datatype 's flow = Flow_Next 's | Flow_Recover string 's | Flow_Exit 's | Flow_Panic

text \<open>When the shutdown and the timeout of the clean-up arrive during a turn, if they do.\<close>

record turn_limits =
  tl_shutdown :: "nat option"
  tl_cleanup :: "nat option"

text \<open>A failed assertion of \<^verbatim>\<open>mark_ready\<close> is a panic.\<close>

definition run_startup_phases ::
  "('w, 'img) worker_services \<Rightarrow> turn_limits \<Rightarrow> 'w connection \<Rightarrow> 'w connection flow" where
  "run_startup_phases ws lim c =
     (if is_ready (cn_session c) then Flow_Next c
      else
        case run_phases (tl_shutdown lim) (startup_phases ws (groups_authoritative (cn_session c))) c of
          (False, c1) \<Rightarrow> Flow_Exit (stop_attachments_and_drain_acknowledgments ws (tl_cleanup lim) c1)
        | (True, c1) \<Rightarrow>
            (case mark_ready (cn_session c1) of
               None \<Rightarrow> Flow_Panic
             | Some session \<Rightarrow>
                 Flow_Next (on_backend (emit (event_default\<lparr>ev_kind := EVENT_READY\<rparr>))
                   (c1\<lparr>cn_session := session,
                       cn_projection := (cn_projection c1)\<lparr>mp_delivery_receipts :=
                         receipts_activate_retries (mp_delivery_receipts (cn_projection c1))\<rparr>,
                       cn_ready := True\<rparr>))))"

subsection \<open>The dispatch of a connected account\<close>

datatype received =
    Received_Queue_Empty
  | Received_Contacts
  | Received_Decryption_Error service_id
  | Received_Content content

definition phases_or_stop ::
  "('w, 'img) worker_services \<Rightarrow> turn_limits \<Rightarrow> ('w connection \<Rightarrow> 'w connection) list \<Rightarrow> 'w connection \<Rightarrow>
     'w connection flow" where
  "phases_or_stop ws lim phases c =
     (case run_phases (tl_shutdown lim) phases c of
        (True, c1) \<Rightarrow> Flow_Next c1
      | (False, c1) \<Rightarrow> Flow_Exit (stop_active_receive_loop ws (tl_cleanup lim) c1))"

definition refresh_groups :: "('w, 'img) worker_services \<Rightarrow> 'w connection \<Rightarrow> 'w connection" where
  "refresh_groups ws c =
     (case group_snapshot ws True c of
        (Inr _, c1) \<Rightarrow> c1\<lparr>cn_session := mark_groups_authoritative (cn_session c1)\<rparr>
      | (Inl error, c1) \<Rightarrow>
          on_backend (emit (transient_error error)) (c1\<lparr>cn_session := mark_groups_pending (cn_session c1)\<rparr>))"

definition serve_queue_empty ::
  "('w, 'img) worker_services \<Rightarrow> turn_limits \<Rightarrow> 'w connection \<Rightarrow> 'w connection flow" where
  "serve_queue_empty ws lim c =
     (let c1 = c\<lparr>cn_session := reset_recovery_backoff (cn_session c),
                 cn_contact_sync := run_after_start_signal backoff_default (cn_contact_sync c),
                 cn_avatar_fetch := run_after_start_signal () (cn_avatar_fetch c),
                 cn_group_sync := (if cn_group_sync c = Sync_Absent \<and> \<not> groups_authoritative (cn_session c)
                   then Sync_Running else cn_group_sync c)\<rparr>
      in phases_or_stop ws lim (if groups_dirty (cn_session c) then [refresh_groups ws] else []) c1)"

definition DECRYPTION_FAILED :: "string \<Rightarrow> string" where
  "DECRYPTION_FAILED sender =
     ''Could not decrypt a message from '' @ sender @ ''; a session reset with that contact may fix this''"

definition serve_received ::
  "('w, 'img) worker_services \<Rightarrow> turn_limits \<Rightarrow> received \<Rightarrow> 'w connection \<Rightarrow> 'w connection flow" where
  "serve_received ws lim item c =
     (case item of
        Received_Queue_Empty \<Rightarrow> serve_queue_empty ws lim c
      | Received_Contacts \<Rightarrow> phases_or_stop ws lim [on_snapshot (emit_contact_snapshot (ws_snapshots ws))] c
      | Received_Decryption_Error sender \<Rightarrow>
          Flow_Next (on_backend (emit (transient_error
            (DECRYPTION_FAILED (x_service_id_string (sv_ext (ws_sv ws)) sender)))) c)
      | Received_Content content \<Rightarrow>
          let c1 = c\<lparr>cn_session := note_group_content (content_has_group_context (ct_body content)) (cn_session c)\<rparr>
          in if is_ready (cn_session c) then
               phases_or_stop ws lim [identity_changes ws]
                 (c1\<lparr>cn_replay := replay_push (groups_authoritative (cn_session c)) content (cn_replay c)\<rparr>)
             else Flow_Next c1)"

text \<open>The next command: a deferred one first once the session is ready, else one of the channel.\<close>

definition next_command :: "'w connection \<Rightarrow> command option \<times> 'w connection" where
  "next_command c =
     (case (is_ready (cn_session c), cn_deferred c) of
        (True, command # rest) \<Rightarrow> (Some command, c\<lparr>cn_deferred := rest\<rparr>)
      | _ \<Rightarrow>
          (case cn_commands c of
             command # rest \<Rightarrow> (Some command, c\<lparr>cn_commands := rest\<rparr>)
           | [] \<Rightarrow> (None, c)))"

definition begin_leave_for :: "bool \<Rightarrow> command \<Rightarrow> 'w connection \<Rightarrow> 'w connection" where
  "begin_leave_for authoritative command c =
     (case command of
        Leave_Group _ gk \<Rightarrow>
          if authoritative then on_backend (\<lambda>b. b\<lparr>bk_departed := begin_leave gk (bk_departed b)\<rparr>) c else c
      | _ \<Rightarrow> c)"

definition serve_command ::
  "('w, 'img) worker_services \<Rightarrow> turn_limits \<Rightarrow> command \<Rightarrow> 'w connection \<Rightarrow> 'w connection flow" where
  "serve_command ws lim command c =
     (let authoritative = groups_authoritative (cn_session c)
      in case command of
           Send_Attachment request_id _ _ _ _ to_group permit \<Rightarrow>
             Flow_Next (c\<lparr>cn_tasks := dispatch_attachment authoritative permit to_group (cn_tasks c)\<rparr>)
         | _ \<Rightarrow>
             let c1 = begin_leave_for authoritative command c
             in (case tl_shutdown lim of
                  Some 0 \<Rightarrow> Flow_Exit (stop_active_receive_loop ws (tl_cleanup lim) c1)
                | limit \<Rightarrow>
                    (case handle_command (ws_sv ws) authoritative command (cn_backend c1) of
                       None \<Rightarrow> Flow_Panic
                     | Some b \<Rightarrow>
                         phases_or_stop ws (lim\<lparr>tl_shutdown := map_option (\<lambda>n. n - 1) limit\<rparr>)
                           [identity_changes ws] (set_backend b c1))))"

definition serve_next_command ::
  "('w, 'img) worker_services \<Rightarrow> turn_limits \<Rightarrow> 'w connection \<Rightarrow> 'w connection flow" where
  "serve_next_command ws lim c =
     (case next_command c of
        (None, c1) \<Rightarrow> if cn_closed c1 then Flow_Exit (stop_active_receive_loop ws (tl_cleanup lim) c1) else Flow_Next c1
      | (Some command, c1) \<Rightarrow>
          if \<not> is_ready (cn_session c)
          then Flow_Next (c1\<lparr>cn_deferred := handle_recovery_command command (cn_deferred c1)\<rparr>)
          else serve_command ws lim command c1)"

text \<open>A receipt task that ended, with its completion or with the panic that stopped it.\<close>

definition RECEIPT_WORKER_STOPPED :: "string \<Rightarrow> string" where
  "RECEIPT_WORKER_STOPPED error = ''Signal delivery receipt worker stopped unexpectedly: '' @ error"

definition serve_receipt :: "string + delivery_receipt_completion \<Rightarrow> 'w connection \<Rightarrow> 'w connection flow" where
  "serve_receipt ended c =
     (let p = cn_projection c
      in case ended of
           Inr completion \<Rightarrow>
             if (rc_generation completion, rc_receipt completion) \<notin> set (mp_delivery_receipt_tasks p) then Flow_Next c
             else
               (case finish_delivery_receipt_attempt completion (mp_delivery_receipts p) (cn_backend c) of
                  (error, receipts, b) \<Rightarrow>
                    let c1 = (set_backend b c)\<lparr>cn_projection := p\<lparr>mp_delivery_receipts := receipts,
                               mp_delivery_receipt_tasks := remove1 (rc_generation completion, rc_receipt completion)
                                 (mp_delivery_receipt_tasks p)\<rparr>\<rparr>
                    in (case error of
                          Some e \<Rightarrow> if rc_generation completion = cn_generation c then Flow_Recover e c1 else Flow_Next c1
                        | None \<Rightarrow> Flow_Next c1))
         | Inl error \<Rightarrow>
             if mp_delivery_receipt_tasks p = [] then Flow_Next c
             else
               Flow_Next (on_backend (emit (event_error (RECEIPT_WORKER_STOPPED error) False))
                 (c\<lparr>cn_projection := p\<lparr>mp_delivery_receipts := receipts_release_in_flight (mp_delivery_receipts p),
                    mp_delivery_receipt_tasks := tl (mp_delivery_receipt_tasks p)\<rparr>\<rparr>)))"

definition serve_retry_tick ::
  "('w, 'img) worker_services \<Rightarrow> turn_limits \<Rightarrow> 'w connection \<Rightarrow> 'w connection flow" where
  "serve_retry_tick ws lim c =
     (if \<not> is_ready (cn_session c) then Flow_Next c
      else
        phases_or_stop ws lim [outbox_round ws (groups_authoritative (cn_session c)), identity_changes ws]
          (c\<lparr>cn_projection := (cn_projection c)\<lparr>mp_delivery_receipts :=
             receipts_activate_retries (mp_delivery_receipts (cn_projection c))\<rparr>\<rparr>))"

text \<open>
  The task of the group synchronization asks the library, here the argument \<open>synchronize\<close>, emits the
  snapshot and reports; the worker takes the report later.
\<close>

definition synchronize_groups_task ::
  "('w, 'img) worker_services \<Rightarrow> ('w, unit rresult) io \<Rightarrow> 'w connection \<Rightarrow> 'w connection" where
  "synchronize_groups_task ws synchronize c =
     (if cn_group_sync c \<noteq> Sync_Running then c
      else
        case synchronize_and_emit_group_snapshot (ws_snapshots ws) synchronize
               (\<lambda>_. bk_departed (cn_backend c)) (cn_avatars c, cn_backend c) of
          (r, (avatars, b)) \<Rightarrow> (set_backend b c)\<lparr>cn_avatars := avatars, cn_group_sync := Sync_Reported r\<rparr>)"

definition serve_group_sync ::
  "('w, 'img) worker_services \<Rightarrow> turn_limits \<Rightarrow> 'w connection \<Rightarrow> 'w connection flow" where
  "serve_group_sync ws lim c =
     (case cn_group_sync c of
        Sync_Reported (Inr _) \<Rightarrow>
          phases_or_stop ws lim [outbox_round ws True, identity_changes ws]
            (c\<lparr>cn_group_sync := Sync_Absent, cn_session := mark_groups_authoritative (cn_session c),
               cn_replay := replay_activate_groups (cn_replay c)\<rparr>)
      | Sync_Reported (Inl error) \<Rightarrow>
          Flow_Next (on_backend (emit (transient_error error))
            (c\<lparr>cn_group_sync := Sync_Absent, cn_session := mark_groups_pending (cn_session c)\<rparr>))
      | _ \<Rightarrow> Flow_Next c)"

text \<open>The other tasks of a connection, once started: one request for the contacts, and the fetch of the avatars.\<close>

definition request_contacts_task :: "contact_request_turn \<Rightarrow> 'w connection \<Rightarrow> 'w connection" where
  "request_contacts_task request c =
     (case cn_contact_sync c of
        Gated_Running backoff \<Rightarrow>
          (case request_contacts_with_retries [request] backoff (cn_backend c) of
             (_, ended, b) \<Rightarrow>
               (set_backend b c)\<lparr>cn_contact_sync :=
                  (if ended then Gated_Absent else Gated_Running (snd (next_delay backoff)))\<rparr>)
      | _ \<Rightarrow> c)"

definition fetch_avatars_task ::
  "('w, 'img) worker_services \<Rightarrow> 'w avatar_source \<Rightarrow> 'w connection \<Rightarrow> 'w connection" where
  "fetch_avatars_task ws source c =
     (case cn_avatar_fetch c of
        Gated_Running _ \<Rightarrow>
          (on_snapshot (fetch_missing_avatars (ws_snapshots ws) source) c)\<lparr>cn_avatar_fetch := Gated_Absent\<rparr>
      | _ \<Rightarrow> c)"

text \<open>Before it waits, an iteration of the loop shows one message that is ready, if it can, and starts a receipt.\<close>

definition activate_replay :: "'w connection \<Rightarrow> 'w connection" where
  "activate_replay c =
     (if groups_authoritative (cn_session c) then c\<lparr>cn_replay := replay_activate_groups (cn_replay c)\<rparr> else c)"

definition show_ready ::
  "('w, 'img) worker_services \<Rightarrow> turn_limits \<Rightarrow> content \<Rightarrow> 'w connection \<Rightarrow> 'w connection flow" where
  "show_ready ws lim content c =
     (if tl_shutdown lim = Some 0 then Flow_Exit (stop_active_receive_loop ws (tl_cleanup lim) c)
      else
        case project_content (ws_sv ws) (ws_transcode ws) (bk_departed (cn_backend c)) content
               (groups_authoritative (cn_session c)) (cn_projection c) (cn_backend c) of
          None \<Rightarrow> Flow_Panic
        | Some (p, b) \<Rightarrow> Flow_Next ((set_backend b c)\<lparr>cn_projection := p\<rparr>))"

definition start_receipt :: "'w connection \<Rightarrow> 'w connection" where
  "start_receipt c =
     (let p = cn_projection c
      in if mp_delivery_receipt_tasks p \<noteq> [] then c
         else
           case receipts_start_next (is_ready (cn_session c)) (mp_delivery_receipts p) of
             (None, q) \<Rightarrow> c\<lparr>cn_projection := p\<lparr>mp_delivery_receipts := q\<rparr>\<rparr>
           | (Some receipt, q) \<Rightarrow>
               c\<lparr>cn_projection := spawn_delivery_receipt_attempt (cn_generation c) receipt
                   (p\<lparr>mp_delivery_receipts := q\<rparr>)\<rparr>)"

datatype turn =
    Turn_Acknowledgments
  | Turn_Received received
  | Turn_Stream_End
  | Turn_Command
  | Turn_Joined u64
  | Turn_Receipt "string + delivery_receipt_completion"
  | Turn_Retry_Tick
  | Turn_Ack_Tick
  | Turn_Group_Sync
  | Turn_Group_Tick
  | Turn_Shutdown
  | Turn_Elapsed
  | Turn_Started "(string \<times> bool) + unit"

definition STREAM_ENDED :: string where
  "STREAM_ENDED = ''Signal'' @ [CHR 0x27] @ ''s message stream ended unexpectedly''"

text \<open>The branches of the \<^verbatim>\<open>select!\<close>; a branch whose condition fails does nothing.\<close>

definition select_turn ::
  "('w, 'img) worker_services \<Rightarrow> turn_limits \<Rightarrow> turn \<Rightarrow> 'w connection \<Rightarrow> 'w connection flow" where
  "select_turn ws lim turn c =
     (case turn of
        Turn_Acknowledgments \<Rightarrow> phases_or_stop ws lim [serve_acknowledgments ws] c
      | Turn_Received item \<Rightarrow>
          if projection_has_capacity (cn_projection c) \<and> replay_can_accept_live_message (cn_replay c)
          then serve_received ws lim item c else Flow_Next c
      | Turn_Stream_End \<Rightarrow>
          if projection_has_capacity (cn_projection c) \<and> replay_can_accept_live_message (cn_replay c)
          then Flow_Recover STREAM_ENDED c else Flow_Next c
      | Turn_Command \<Rightarrow> serve_next_command ws lim c
      | Turn_Joined i \<Rightarrow> phases_or_stop ws lim [serve_join ws i] c
      | Turn_Receipt ended \<Rightarrow> serve_receipt ended c
      | Turn_Retry_Tick \<Rightarrow> serve_retry_tick ws lim c
      | Turn_Ack_Tick \<Rightarrow> Flow_Next (activate_ack_retries c)
      | Turn_Group_Sync \<Rightarrow> serve_group_sync ws lim c
      | Turn_Group_Tick \<Rightarrow>
          Flow_Next
            (if is_ready (cn_session c) \<and> \<not> groups_authoritative (cn_session c) \<and> cn_group_sync c = Sync_Absent
             then c\<lparr>cn_group_sync := Sync_Running\<rparr> else c)
      | Turn_Shutdown \<Rightarrow> Flow_Exit (stop_active_receive_loop ws (tl_cleanup lim) c)
      | _ \<Rightarrow> Flow_Next c)"

definition dispatch_iteration ::
  "('w, 'img) worker_services \<Rightarrow> turn_limits \<Rightarrow> turn \<Rightarrow> 'w connection \<Rightarrow> 'w connection flow" where
  "dispatch_iteration ws lim turn c =
     (let c1 = activate_replay c
      in case (if projection_has_capacity (cn_projection c1) then replay_pop_ready (cn_replay c1)
               else (None, cn_replay c1)) of
           (Some content, replay) \<Rightarrow> show_ready ws lim content (c1\<lparr>cn_replay := replay\<rparr>)
         | (None, replay) \<Rightarrow> select_turn ws lim turn (start_receipt c1))"

subsection \<open>The waits of a recovery and of a start\<close>

text \<open>The two waits differ in what ends them and in when they take commands and completions.\<close>

definition wait_turn ::
  "('w, 'img) worker_services \<Rightarrow> turn_limits \<Rightarrow> bool \<Rightarrow> turn \<Rightarrow> 'w connection \<Rightarrow> 'w connection flow" where
  "wait_turn ws lim serving turn c =
     (let stop = stop_attachments_and_drain_acknowledgments ws (tl_cleanup lim)
      in case turn of
           Turn_Command \<Rightarrow>
             if \<not> serving then Flow_Next c
             else
               (case cn_commands c of
                  [] \<Rightarrow> if cn_closed c then Flow_Exit (stop c) else Flow_Next c
                | command # rest \<Rightarrow>
                    Flow_Next (c\<lparr>cn_commands := rest,
                                 cn_deferred := handle_recovery_command command (cn_deferred c)\<rparr>))
         | Turn_Acknowledgments \<Rightarrow>
             (case run_phases (tl_shutdown lim) [serve_acknowledgments ws] c of
                (True, c1) \<Rightarrow> Flow_Next c1
              | (False, c1) \<Rightarrow> Flow_Exit (stop c1))
         | Turn_Ack_Tick \<Rightarrow> Flow_Next (activate_ack_retries c)
         | Turn_Joined i \<Rightarrow>
             if \<not> serving then Flow_Next c
             else
               (case run_phases (tl_shutdown lim) [serve_join ws i] c of
                  (True, c1) \<Rightarrow> Flow_Next c1
                | (False, c1) \<Rightarrow> Flow_Exit (stop c1))
         | Turn_Shutdown \<Rightarrow> Flow_Exit (stop c)
         | _ \<Rightarrow> Flow_Next c)"

subsection \<open>The loop of a connection\<close>

datatype worker_position = At_Recovery | At_Start | At_Dispatch | At_End "unit rresult" | At_Panic

record 'w worker =
  wk_position :: worker_position
  wk_connection :: "'w connection"

text \<open>The head of the loop, which waits only while the session is recovering.\<close>

definition begin_iteration :: "('w, 'img) worker_services \<Rightarrow> turn_limits \<Rightarrow> 'w connection \<Rightarrow> 'w worker" where
  "begin_iteration ws lim c =
     (if \<not> is_recovering (cn_session c) then \<lparr>wk_position = At_Start, wk_connection = c\<rparr>
      else
        case drain_recovery_commands c of
          (True, c1) \<Rightarrow>
            \<lparr>wk_position = At_End (Inr ()),
             wk_connection = stop_attachments_and_drain_acknowledgments ws (tl_cleanup lim) c1\<rparr>
        | (False, c1) \<Rightarrow>
            (case next_recovery_delay (cn_session c1) of
               None \<Rightarrow> \<lparr>wk_position = At_Panic, wk_connection = c1\<rparr>
             | Some (delay, session) \<Rightarrow>
                 \<lparr>wk_position = (if delay = 0 then At_Start else At_Recovery),
                  wk_connection = c1\<lparr>cn_session := session\<rparr>\<rparr>))"

definition RECOVERY_STOPPED :: string where
  "RECOVERY_STOPPED = ''Signal connection recovery stopped before the request could be sent''"

text \<open>Losing the connection, for the reason given, with the suffix of its report.\<close>

definition note_recovery :: "string \<Rightarrow> 'w connection \<Rightarrow> 'w connection" where
  "note_recovery error c =
     (case enter_recovery error (cn_session c) of
        (transition, session) \<Rightarrow>
          let c1 = c\<lparr>cn_ready := False, cn_session := session\<rparr>
          in if transition = Entered then on_backend (emit (event_default\<lparr>ev_kind := EVENT_RECOVERING\<rparr>)) c1 else c1)"

definition start_failed ::
  "('w, 'img) worker_services \<Rightarrow> turn_limits \<Rightarrow> string \<Rightarrow> bool \<Rightarrow> 'w connection \<Rightarrow> 'w worker" where
  "start_failed ws lim error transient c =
     (if \<not> transient then
        \<lparr>wk_position = At_End (Inl error),
         wk_connection = stop_attachments_and_drain_acknowledgments ws (tl_cleanup lim)
           (fail_deferred_commands RECOVERY_STOPPED (c\<lparr>cn_ready := False\<rparr>))\<rparr>
      else
        begin_iteration ws lim
          (on_backend (emit (transient_error (error @ ''; retrying automatically''))) (note_recovery error c)))"

definition receive_started ::
  "('w, 'img) worker_services \<Rightarrow> turn_limits \<Rightarrow> 'w connection \<Rightarrow> 'w worker" where
  "receive_started ws lim c =
     (case run_startup_phases ws lim
             (c\<lparr>cn_generation := max (cn_generation c + 1) 1, cn_contact_sync := Gated_Waiting,
                cn_avatar_fetch := Gated_Waiting, cn_group_sync := Sync_Absent\<rparr>) of
        Flow_Next c1 \<Rightarrow> \<lparr>wk_position = At_Dispatch, wk_connection = c1\<rparr>
      | Flow_Exit c1 \<Rightarrow> \<lparr>wk_position = At_End (Inr ()), wk_connection = c1\<rparr>
      | Flow_Recover error c1 \<Rightarrow> \<lparr>wk_position = At_Panic, wk_connection = c1\<rparr>
      | Flow_Panic \<Rightarrow> \<lparr>wk_position = At_Panic, wk_connection = c\<rparr>)"

definition connection_lost ::
  "('w, 'img) worker_services \<Rightarrow> turn_limits \<Rightarrow> string \<Rightarrow> 'w connection \<Rightarrow> 'w worker" where
  "connection_lost ws lim error c =
     begin_iteration ws lim
       (on_backend (emit (transient_error (error @ ''; reconnecting automatically'')))
         (stop_receive_tasks ws (tl_cleanup lim) [] (note_recovery error c)))"

definition follow_flow ::
  "('w, 'img) worker_services \<Rightarrow> turn_limits \<Rightarrow> 'w worker \<Rightarrow> 'w connection flow \<Rightarrow> 'w worker" where
  "follow_flow ws lim w flow =
     (case flow of
        Flow_Next c \<Rightarrow> w\<lparr>wk_connection := c\<rparr>
      | Flow_Recover error c \<Rightarrow> connection_lost ws lim error c
      | Flow_Exit c \<Rightarrow> \<lparr>wk_position = At_End (Inr ()), wk_connection = c\<rparr>
      | Flow_Panic \<Rightarrow> w\<lparr>wk_position := At_Panic\<rparr>)"

definition worker_turn ::
  "('w, 'img) worker_services \<Rightarrow> turn_limits \<Rightarrow> turn \<Rightarrow> 'w worker \<Rightarrow> 'w worker" where
  "worker_turn ws lim turn w =
     (let c = wk_connection w
      in case wk_position w of
           At_Recovery \<Rightarrow>
             (case turn of
                Turn_Elapsed \<Rightarrow> w\<lparr>wk_position := At_Start\<rparr>
              | _ \<Rightarrow> follow_flow ws lim w (wait_turn ws lim True turn c))
         | At_Start \<Rightarrow>
             (case turn of
                Turn_Started (Inr _) \<Rightarrow> receive_started ws lim c
              | Turn_Started (Inl (error, transient)) \<Rightarrow> start_failed ws lim error transient c
              | _ \<Rightarrow> follow_flow ws lim w (wait_turn ws lim (is_recovering (cn_session c)) turn c))
         | At_Dispatch \<Rightarrow> follow_flow ws lim w (dispatch_iteration ws lim turn c)
         | _ \<Rightarrow> w)"

subsection \<open>The connection from its creation, with the plugin\<close>

text \<open>What the receive driver reports: the failure of the library, or a driver that ended before it reported.\<close>

definition receive_start_result :: "(presage_error + unit) option \<Rightarrow> (string \<times> bool) + unit" where
  "receive_start_result r =
     (case r of
        None \<Rightarrow> Inl (''Signal message reception stopped during startup'', True)
      | Some (Inl error) \<Rightarrow>
          Inl (''Could not start Signal message reception: '' @ pre_display error, receive_error_is_transient error)
      | Some (Inr _) \<Rightarrow> Inr ())"

definition connection_new :: "ack_inbox \<Rightarrow> attachment_admission \<Rightarrow> avatar_cache \<Rightarrow> 'w \<Rightarrow> 'w connection" where
  "connection_new inbox admission avatars world =
     \<lparr>cn_tasks = \<lparr>at_backend = \<lparr>bk_world = world, bk_cache = metadata_cache_default, bk_departed = departed_groups_new,
                      bk_latest = 0, bk_events = []\<rparr>,
                  at_admission = admission, at_queue = [], at_tasks = [], at_aborts = []\<rparr>,
      cn_commands = [], cn_closed = False, cn_deferred = [], cn_projection = projection_new inbox,
      cn_replay = replay_default, cn_session = session_default, cn_generation = 0, cn_ready = False,
      cn_avatars = avatars, cn_group_sync = Sync_Absent, cn_contact_sync = Gated_Absent, cn_avatar_fetch = Gated_Absent\<rparr>"

text \<open>A shutdown before the store is initialized ends the worker without an error.\<close>

definition receive_and_command_loop ::
  "('w, 'img) worker_services \<Rightarrow> turn_limits \<Rightarrow> ack_inbox \<Rightarrow> attachment_admission \<Rightarrow> avatar_cache \<Rightarrow> 'w \<Rightarrow> 'w worker" where
  "receive_and_command_loop ws lim inbox admission avatars world =
     (let c = connection_new inbox admission avatars world
      in if tl_shutdown lim = Some 0 then \<lparr>wk_position = At_End (Inr ()), wk_connection = c\<rparr>
         else
           case perform (initialize_subsystems (ws_store ws)) (cn_backend c) of
             (Inl error, b) \<Rightarrow>
               \<lparr>wk_position = At_End (Inl (storage_error_display error)), wk_connection = set_backend b c\<rparr>
           | (Inr _, b) \<Rightarrow> begin_iteration ws lim (set_backend b c))"

text \<open>
  The steps of a run: a turn of the worker, and what the plugin, the attachment tasks and the tasks of
  the connection do meanwhile.
\<close>

datatype 'w worker_op =
    Op_Turn turn_limits turn
  | Op_Arrive command
  | Op_Hang_Up
  | Op_Acknowledge u64
  | Op_Cancel u64
  | Op_Task_End u64 task_outcome
  | Op_Group_Sync "('w, unit rresult) io"
  | Op_Contacts contact_request_turn
  | Op_Avatars "'w avatar_source"

definition worker_over :: "'w worker \<Rightarrow> bool" where
  "worker_over w = (case wk_position w of At_End _ \<Rightarrow> True | At_Panic \<Rightarrow> True | _ \<Rightarrow> False)"

primrec plugin_step ::
  "('w, 'img) worker_services \<Rightarrow> 'w worker_op \<Rightarrow> 'w connection \<Rightarrow> 'w connection" where
  "plugin_step ws (Op_Turn lim turn) c = c"
| "plugin_step ws (Op_Arrive command) c =
     (if cn_closed c then c else c\<lparr>cn_commands := cn_commands c @ [command]\<rparr>)"
| "plugin_step ws Op_Hang_Up c = c\<lparr>cn_closed := True\<rparr>"
| "plugin_step ws (Op_Acknowledge i) c =
     c\<lparr>cn_projection := (cn_projection c)\<lparr>mp_acknowledgments := snd (ack_submit i (mp_acknowledgments (cn_projection c)))\<rparr>\<rparr>"
| "plugin_step ws (Op_Cancel i) c =
     c\<lparr>cn_tasks := (cn_tasks c)\<lparr>at_admission := snd (admission_cancel i (at_admission (cn_tasks c)))\<rparr>\<rparr>"
| "plugin_step ws (Op_Task_End i outcome) c = c\<lparr>cn_tasks := end_task i outcome (cn_tasks c)\<rparr>"
| "plugin_step ws (Op_Group_Sync synchronize) c = synchronize_groups_task ws synchronize c"
| "plugin_step ws (Op_Contacts request) c = request_contacts_task request c"
| "plugin_step ws (Op_Avatars source) c = fetch_avatars_task ws source c"

definition worker_exec :: "('w, 'img) worker_services \<Rightarrow> 'w worker_op \<Rightarrow> 'w worker \<Rightarrow> 'w worker" where
  "worker_exec ws op w =
     (if worker_over w then w
      else case op of
             Op_Turn lim turn \<Rightarrow> worker_turn ws lim turn w
           | _ \<Rightarrow> w\<lparr>wk_connection := plugin_step ws op (wk_connection w)\<rparr>)"

end
