(* ===== verification/Event_Queue.thy ===== *)
theory Event_Queue
  imports Events
begin

section \<open>The bounded event queue (event_queue.rs)\<close>

text \<open>
  The queue between the backend's tasks and the plugin: a channel bounded in events and in
  data bytes, with a socket pair that keeps the plugin's poll descriptor readable while events wait. Every
  operation holds the \<^verbatim>\<open>serial\<close> mutex except while a producer sleeps on the condition variable, so a run
  is a sequence of atomic steps: one pass of a producer's loop, a poll, a close. The results of the
  kernel's \<^verbatim>\<open>write\<close> and \<^verbatim>\<open>read\<close> on the socket pair are arguments.
\<close>

definition MAX_QUEUED_EVENT_BYTES :: usize where
  "MAX_QUEUED_EVENT_BYTES = 64 * 1024 * 1024"

text \<open>
  \<^verbatim>\<open>EventQueueState\<close>, the channel, and the number of unread bytes in the socket pair.
\<close>

record event_queue_state =
  eq_notification_pending :: bool
  eq_closed :: bool
  eq_queued_bytes :: usize
  eq_waiting_producers :: usize
  eq_max_queued_bytes :: usize
  eq_capacity :: usize
  eq_channel :: "event list"
  eq_unread :: nat
  eq_receiver_alive :: bool
  eq_receiver_poisoned :: bool
  eq_senders_alive :: bool

datatype event_poll = Poll_Event event | Poll_Empty | Poll_Disconnected

text \<open>
  \<^verbatim>\<open>AtomicUsize::fetch_add\<close> and \<^verbatim>\<open>fetch_sub\<close> wrap around.
\<close>

definition fetch_add :: "usize \<Rightarrow> usize \<Rightarrow> usize" where
  "fetch_add a b = (a + b) mod usize_limit"

definition fetch_sub :: "usize \<Rightarrow> usize \<Rightarrow> usize" where
  "fetch_sub a b = (a + usize_limit - b mod usize_limit) mod usize_limit"

definition event_queue_with_byte_limit :: "usize \<Rightarrow> usize \<Rightarrow> event_queue_state rresult" where
  "event_queue_with_byte_limit capacity max_queued_bytes =
     (if capacity = 0 then Inl ''event queue capacity must be positive''
      else Inr \<lparr>eq_notification_pending = False, eq_closed = False, eq_queued_bytes = 0,
                eq_waiting_producers = 0, eq_max_queued_bytes = max_queued_bytes,
                eq_capacity = capacity, eq_channel = [], eq_unread = 0,
                eq_receiver_alive = True, eq_receiver_poisoned = False, eq_senders_alive = True\<rparr>)"

definition event_queue_new :: "usize \<Rightarrow> event_queue_state rresult" where
  "event_queue_new capacity = event_queue_with_byte_limit capacity MAX_QUEUED_EVENT_BYTES"

subsection \<open>Producer side\<close>

datatype write_outcome = Wrote nat | Write_Interrupted | Write_Would_Block | Write_Failed

text \<open>The \<^verbatim>\<open>loop\<close> of \<^verbatim>\<open>notify_locked\<close> over the results of its writes; \<open>None\<close> while it has not returned.\<close>

fun notify_writes :: "write_outcome list \<Rightarrow> event_queue_state \<Rightarrow> event_queue_state option" where
  "notify_writes [] s = None"
| "notify_writes (Wrote n # ws) s =
     (if n = 1 then Some (s\<lparr>eq_unread := eq_unread s + 1\<rparr>)
      else Some (s\<lparr>eq_notification_pending := False\<rparr>))"
| "notify_writes (Write_Interrupted # ws) s = notify_writes ws s"
| "notify_writes (Write_Would_Block # ws) s = Some s"
| "notify_writes (Write_Failed # ws) s = Some (s\<lparr>eq_notification_pending := False\<rparr>)"

definition notify_locked :: "write_outcome list \<Rightarrow> event_queue_state \<Rightarrow> event_queue_state option" where
  "notify_locked ws s =
     (if eq_notification_pending s then Some s
      else notify_writes ws (s\<lparr>eq_notification_pending := True\<rparr>))"

datatype send_result = Send_Ok | Send_Full | Send_Disconnected

definition try_send :: "event \<Rightarrow> event_queue_state \<Rightarrow> send_result \<times> event_queue_state" where
  "try_send e s =
     (if \<not> eq_receiver_alive s then (Send_Disconnected, s)
      else if eq_capacity s \<le> length (eq_channel s) then (Send_Full, s)
      else (Send_Ok, s\<lparr>eq_channel := eq_channel s @ [e]\<rparr>))"

datatype emit_result = Emit_Returned | Emit_Waits

text \<open>
  One pass of the loop of \<^verbatim>\<open>emit\<close>: the producer returns, or it counts itself as waiting and
  sleeps on the condition variable.
\<close>

definition emit_pass ::
  "write_outcome list \<Rightarrow> event \<Rightarrow> event_queue_state \<Rightarrow> (emit_result \<times> event_queue_state) option" where
  "emit_pass ws e s =
     (let event_bytes = length (ev_data e);
          queued_bytes = eq_queued_bytes s;
          sleep = (\<lambda>t. (Emit_Waits, t\<lparr>eq_waiting_producers := fetch_add (eq_waiting_producers t) 1\<rparr>));
          unreserve = (\<lambda>t. if 0 < event_bytes
            then t\<lparr>eq_queued_bytes := fetch_sub (eq_queued_bytes t) event_bytes\<rparr> else t)
      in
      if eq_closed s then Some (Emit_Returned, s)
      else if queued_bytes \<noteq> 0 \<and>
           is_none_or (checked_add queued_bytes event_bytes) (\<lambda>total. eq_max_queued_bytes s < total)
      then Some (sleep s)
      else
        let s1 = (if 0 < event_bytes
                  then s\<lparr>eq_queued_bytes := fetch_add (eq_queued_bytes s) event_bytes\<rparr> else s)
        in case try_send e s1 of
             (Send_Ok, s2) \<Rightarrow> map_option (\<lambda>t. (Emit_Returned, t)) (notify_locked ws s2)
           | (Send_Full, s2) \<Rightarrow> Some (sleep (unreserve s2))
           | (Send_Disconnected, s2) \<Rightarrow> Some (Emit_Returned, unreserve s2))"

text \<open>The step after the condition variable: the producer no longer counts as waiting, then loops.\<close>

definition producer_woken :: "event_queue_state \<Rightarrow> event_queue_state" where
  "producer_woken s = s\<lparr>eq_waiting_producers := fetch_sub (eq_waiting_producers s) 1\<rparr>"

subsection \<open>Consumer side\<close>

datatype read_outcome = Did_Read nat | Read_Interrupted | Read_Would_Block | Read_Failed

text \<open>The unread bytes after \<^verbatim>\<open>drain_notification\<close>; \<open>None\<close> while it has not returned.\<close>

fun drain_notification :: "read_outcome list \<Rightarrow> nat \<Rightarrow> nat option" where
  "drain_notification [] unread = None"
| "drain_notification (Did_Read n # rs) unread =
     (if n = 0 then Some unread else drain_notification rs (unread - n))"
| "drain_notification (Read_Interrupted # rs) unread = drain_notification rs unread"
| "drain_notification (Read_Would_Block # rs) unread = Some unread"
| "drain_notification (Read_Failed # rs) unread = Some unread"

definition poll :: "read_outcome list \<Rightarrow> event_queue_state \<Rightarrow> (event_poll \<times> event_queue_state) option" where
  "poll rs s =
     (if eq_receiver_poisoned s then Some (Poll_Disconnected, s)
      else case eq_channel s of
        e # rest \<Rightarrow>
          Some (Poll_Event e,
            (if ev_data e \<noteq> []
             then s\<lparr>eq_channel := rest,
                    eq_queued_bytes := fetch_sub (eq_queued_bytes s) (length (ev_data e))\<rparr>
             else s\<lparr>eq_channel := rest\<rparr>))
      | [] \<Rightarrow>
          map_option (\<lambda>unread.
            (if eq_senders_alive s then Poll_Empty else Poll_Disconnected,
             s\<lparr>eq_unread := unread, eq_notification_pending := False\<rparr>))
            (drain_notification rs (eq_unread s)))"

definition queue_close :: "event_queue_state \<Rightarrow> event_queue_state" where
  "queue_close s = s\<lparr>eq_closed := True\<rparr>"

text \<open>\<^verbatim>\<open>Drop\<close>: the close, after which the receiver is gone.\<close>

definition queue_drop :: "event_queue_state \<Rightarrow> event_queue_state" where
  "queue_drop s = (queue_close s)\<lparr>eq_receiver_alive := False\<rparr>"

lemmas queue_defs [model_defs] =
  emit_pass_def try_send_def notify_locked_def poll_def queue_close_def queue_drop_def
  producer_woken_def Let_def

subsection \<open>Producers, the plugin and the queue together\<close>

text \<open>
  The waiting producers with their events and whether \<^verbatim>\<open>notify_all\<close> (or a spurious wake-up) has
  reached them, and the history of what entered the channel and what the plugin took.
\<close>

record queue_system =
  qs_queue :: event_queue_state
  qs_waiters :: "(event \<times> bool) list"
  qs_accepted :: "event list"
  qs_polled :: "event list"

datatype queue_op =
    Q_Emit "write_outcome list" event
  | Q_Retry "write_outcome list" nat
  | Q_Spurious nat
  | Q_Poll "read_outcome list"
  | Q_Close
  | Q_Drop
  | Q_Senders_Gone

definition wake_all :: "(event \<times> bool) list \<Rightarrow> (event \<times> bool) list" where
  "wake_all = map (\<lambda>(e, _). (e, True))"

text \<open>A pass of a producer: what it appended to the channel joins the history.\<close>

definition run_pass :: "write_outcome list \<Rightarrow> event \<Rightarrow> queue_system \<Rightarrow> queue_system" where
  "run_pass ws e s =
     (case emit_pass ws e (qs_queue s) of
        None \<Rightarrow> s
      | Some (Emit_Waits, q) \<Rightarrow> s\<lparr>qs_queue := q, qs_waiters := qs_waiters s @ [(e, False)]\<rparr>
      | Some (Emit_Returned, q) \<Rightarrow>
          s\<lparr>qs_queue := q,
            qs_accepted := qs_accepted s @ drop (length (eq_channel (qs_queue s))) (eq_channel q)\<rparr>)"

fun queue_exec :: "queue_op \<Rightarrow> queue_system \<Rightarrow> queue_system" where
  "queue_exec (Q_Emit ws e) s = run_pass ws e s"
| "queue_exec (Q_Retry ws k) s =
     (if k < length (qs_waiters s) \<and> snd (qs_waiters s ! k) then
        run_pass ws (fst (qs_waiters s ! k))
          (s\<lparr>qs_queue := producer_woken (qs_queue s),
             qs_waiters := take k (qs_waiters s) @ drop (Suc k) (qs_waiters s)\<rparr>)
      else s)"
| "queue_exec (Q_Spurious k) s =
     (if k < length (qs_waiters s)
      then s\<lparr>qs_waiters := (qs_waiters s)[k := (fst (qs_waiters s ! k), True)]\<rparr> else s)"
| "queue_exec (Q_Poll rs) s =
     (case poll rs (qs_queue s) of
        None \<Rightarrow> s
      | Some (Poll_Event e, q) \<Rightarrow>
          s\<lparr>qs_queue := q, qs_waiters := wake_all (qs_waiters s), qs_polled := qs_polled s @ [e]\<rparr>
      | Some (_, q) \<Rightarrow> s\<lparr>qs_queue := q\<rparr>)"
| "queue_exec Q_Close s =
     s\<lparr>qs_queue := queue_close (qs_queue s), qs_waiters := wake_all (qs_waiters s)\<rparr>"
| "queue_exec Q_Drop s =
     s\<lparr>qs_queue := queue_drop (qs_queue s), qs_waiters := wake_all (qs_waiters s)\<rparr>"
| "queue_exec Q_Senders_Gone s = s\<lparr>qs_queue := (qs_queue s)\<lparr>eq_senders_alive := False\<rparr>\<rparr>"

text \<open>
  What the kernel documents of the socket pair while both ends are open: a write of one byte
  is complete, interrupted, or refused because unread bytes fill the buffer; a read takes unread bytes, is
  interrupted, or finds none.
\<close>

fun writes_ok :: "nat \<Rightarrow> write_outcome list \<Rightarrow> bool" where
  "writes_ok unread [] = False"
| "writes_ok unread (Wrote n # ws) = (n = 1)"
| "writes_ok unread (Write_Interrupted # ws) = writes_ok unread ws"
| "writes_ok unread (Write_Would_Block # ws) = (0 < unread)"
| "writes_ok unread (Write_Failed # ws) = False"

fun reads_ok :: "nat \<Rightarrow> read_outcome list \<Rightarrow> bool" where
  "reads_ok unread [] = False"
| "reads_ok unread (Did_Read n # rs) = (0 < n \<and> n \<le> 64 \<and> n \<le> unread \<and> reads_ok (unread - n) rs)"
| "reads_ok unread (Read_Interrupted # rs) = reads_ok unread rs"
| "reads_ok unread (Read_Would_Block # rs) = (unread = 0)"
| "reads_ok unread (Read_Failed # rs) = False"

fun queue_ok :: "queue_op \<Rightarrow> queue_system \<Rightarrow> bool" where
  "queue_ok (Q_Emit ws e) s =
     (writes_ok (eq_unread (qs_queue s)) ws \<and> length (ev_data e) < usize_limit \<and>
      length (qs_waiters s) + 1 < usize_limit)"
| "queue_ok (Q_Retry ws k) s = writes_ok (eq_unread (qs_queue s)) ws"
| "queue_ok (Q_Poll rs) s = reads_ok (eq_unread (qs_queue s)) rs"
| "queue_ok _ s = True"

subsection \<open>Invariant\<close>

definition data_bytes :: "event list \<Rightarrow> nat" where
  "data_bytes es = sum_list (map (\<lambda>e. length (ev_data e)) es)"

text \<open>Within the byte budget, or past it by a single event that found no data before it.\<close>

definition within_budget :: "nat \<Rightarrow> event list \<Rightarrow> bool" where
  "within_budget limit es \<longleftrightarrow> data_bytes es \<le> limit \<or> (es \<noteq> [] \<and> data_bytes (butlast es) = 0)"

definition queue_inv :: "event_queue_state \<Rightarrow> bool" where
  "queue_inv q \<longleftrightarrow>
     0 < eq_capacity q \<and> length (eq_channel q) \<le> eq_capacity q \<and>
     eq_queued_bytes q = data_bytes (eq_channel q) \<and>
     data_bytes (eq_channel q) < usize_limit \<and>
     within_budget (eq_max_queued_bytes q) (eq_channel q) \<and>
     (eq_channel q \<noteq> [] \<longrightarrow> eq_notification_pending q) \<and>
     (eq_notification_pending q \<longrightarrow> 0 < eq_unread q) \<and>
     (\<not> eq_receiver_alive q \<longrightarrow> eq_closed q)"

definition system_inv :: "queue_system \<Rightarrow> bool" where
  "system_inv s \<longleftrightarrow>
     queue_inv (qs_queue s) \<and>
     eq_waiting_producers (qs_queue s) = length (qs_waiters s) \<and>
     length (qs_waiters s) < usize_limit \<and>
     (\<forall>w \<in> set (qs_waiters s). length (ev_data (fst w)) < usize_limit \<and>
        (snd w \<or> \<not> eq_closed (qs_queue s) \<and> eq_channel (qs_queue s) \<noteq> [])) \<and>
     qs_accepted s = qs_polled s @ eq_channel (qs_queue s)"

lemma data_bytes_simps [simp]:
  "data_bytes [] = 0"
  "data_bytes (e # es) = length (ev_data e) + data_bytes es"
  "data_bytes (es @ fs) = data_bytes es + data_bytes fs"
  by (simp_all add: data_bytes_def)

lemma fetch_add_small: "a + b < usize_limit \<Longrightarrow> fetch_add a b = a + b"
  by (simp add: fetch_add_def)

lemma fetch_sub_small:
  assumes "b \<le> a" "a < usize_limit"
  shows "fetch_sub a b = a - b"
proof -
  have "b mod usize_limit = b" and "a + usize_limit - b = (a - b) + usize_limit" using assms by simp_all
  then have "fetch_sub a b = (a - b) mod usize_limit" by (simp only: fetch_sub_def mod_add_self2)
  then show ?thesis using assms by simp
qed

lemma fetch_sub_add:
  assumes "a < usize_limit" "b < usize_limit"
  shows "fetch_sub (fetch_add a b) b = a"
proof (cases "a + b < usize_limit")
  case True
  then show ?thesis by (simp add: fetch_add_small fetch_sub_small)
next
  case False
  then have "fetch_add a b = a + b - usize_limit"
    using assms by (simp add: fetch_add_def le_mod_geq)
  with False assms show ?thesis by (simp add: fetch_sub_def)
qed

lemma within_budget_tail: "within_budget m (e # es) \<Longrightarrow> within_budget m es"
  by (cases es) (auto simp: within_budget_def)

lemma notify_writes_ok:
  "writes_ok (eq_unread s) ws \<Longrightarrow> \<exists>n>0. notify_writes ws s = Some (s\<lparr>eq_unread := n\<rparr>)"
  by (induction "eq_unread s" ws rule: writes_ok.induct) auto

lemma notify_locked_ok:
  assumes "writes_ok (eq_unread s) ws" and "eq_notification_pending s \<longrightarrow> 0 < eq_unread s"
  shows "\<exists>n>0. notify_locked ws s = Some (s\<lparr>eq_notification_pending := True, eq_unread := n\<rparr>)"
  using assms notify_writes_ok [of "s\<lparr>eq_notification_pending := True\<rparr>" ws]
  by (auto simp: notify_locked_def)

lemma drain_notification_ok: "reads_ok unread rs \<Longrightarrow> drain_notification rs unread = Some 0"
  by (induction unread rs rule: reads_ok.induct) auto

text \<open>The three outcomes of a pass in a state of the invariant.\<close>

definition appended :: "event \<Rightarrow> nat \<Rightarrow> event_queue_state \<Rightarrow> event_queue_state" where
  "appended e n q =
     q\<lparr>eq_channel := eq_channel q @ [e], eq_queued_bytes := eq_queued_bytes q + length (ev_data e),
       eq_notification_pending := True, eq_unread := n\<rparr>"

definition may_append :: "event \<Rightarrow> event_queue_state \<Rightarrow> bool" where
  "may_append e q \<longleftrightarrow> length (eq_channel q) < eq_capacity q \<and>
     (data_bytes (eq_channel q) = 0 \<or>
      data_bytes (eq_channel q) + length (ev_data e) \<le> eq_max_queued_bytes q \<and>
      data_bytes (eq_channel q) + length (ev_data e) < usize_limit)"

lemma emit_pass_closed: "eq_closed q \<Longrightarrow> emit_pass ws e q = Some (Emit_Returned, q)"
  by (simp add: emit_pass_def)

lemma emit_pass_waits:
  assumes "queue_inv q" "\<not> eq_closed q" "\<not> may_append e q" "length (ev_data e) < usize_limit"
  shows "emit_pass ws e q =
    Some (Emit_Waits, q\<lparr>eq_waiting_producers := fetch_add (eq_waiting_producers q) 1\<rparr>)"
  using assms
  by (auto simp: emit_pass_def Let_def queue_inv_def may_append_def try_send_def fetch_sub_add
      split: if_splits)

lemma emit_pass_appends:
  assumes inv: "queue_inv q" and "\<not> eq_closed q" "may_append e q" "length (ev_data e) < usize_limit"
    and "writes_ok (eq_unread q) ws"
  shows "\<exists>n>0. emit_pass ws e q = Some (Emit_Returned, appended e n q)"
proof -
  define r where "r = q\<lparr>eq_queued_bytes := eq_queued_bytes q + length (ev_data e)\<rparr>"
  define t where "t = r\<lparr>eq_channel := eq_channel q @ [e]\<rparr>"
  have reserve: "(if 0 < length (ev_data e)
      then q\<lparr>eq_queued_bytes := fetch_add (eq_queued_bytes q) (length (ev_data e))\<rparr> else q) = r"
    using assms by (auto simp: r_def queue_inv_def may_append_def fetch_add_small)
  have "writes_ok (eq_unread t) ws" and "eq_notification_pending t \<longrightarrow> 0 < eq_unread t"
    using assms by (simp_all add: t_def r_def queue_inv_def)
  then obtain n where n: "n > 0"
      "notify_locked ws t = Some (t\<lparr>eq_notification_pending := True, eq_unread := n\<rparr>)"
    using notify_locked_ok by blast
  have sent: "try_send e r = (Send_Ok, t)"
    using assms by (auto simp: r_def t_def try_send_def queue_inv_def may_append_def)
  have "\<not> (eq_queued_bytes q \<noteq> 0 \<and> is_none_or (checked_add (eq_queued_bytes q) (length (ev_data e)))
      (\<lambda>total. eq_max_queued_bytes q < total))"
    using assms by (auto simp: queue_inv_def may_append_def)
  then have "emit_pass ws e q =
      Some (Emit_Returned, t\<lparr>eq_notification_pending := True, eq_unread := n\<rparr>)"
    using assms(2) sent n(2) unfolding emit_pass_def Let_def reserve by simp
  then show ?thesis using n(1) by (auto simp: appended_def t_def r_def)
qed

lemma queue_inv_appended:
  assumes "queue_inv q" "\<not> eq_closed q" "may_append e q" "length (ev_data e) < usize_limit" "0 < n"
  shows "queue_inv (appended e n q)"
  using assms by (auto simp: queue_inv_def appended_def may_append_def within_budget_def)

lemma poll_cases:
  assumes inv: "queue_inv q" and ok: "reads_ok (eq_unread q) rs"
  obtains (poisoned) "poll rs q = Some (Poll_Disconnected, q)" "eq_receiver_poisoned q"
    | (got) e es where "eq_channel q = e # es"
        "poll rs q = Some (Poll_Event e,
           q\<lparr>eq_channel := es, eq_queued_bytes := data_bytes es\<rparr>)"
    | (none) r where "eq_channel q = []" "r = Poll_Empty \<or> r = Poll_Disconnected"
        "poll rs q = Some (r, q\<lparr>eq_unread := 0, eq_notification_pending := False\<rparr>)"
proof (cases "eq_receiver_poisoned q")
  case True
  then show ?thesis using poisoned by (simp add: poll_def)
next
  case False
  show ?thesis
  proof (cases "eq_channel q")
    case Nil
    then show ?thesis
      using False drain_notification_ok [OF ok]
      by (intro none [of "if eq_senders_alive q then Poll_Empty else Poll_Disconnected"])
        (simp_all add: poll_def)
  next
    case (Cons e es)
    then have "eq_queued_bytes q = length (ev_data e) + data_bytes es"
        and "length (ev_data e) + data_bytes es < usize_limit"
      using inv by (simp_all add: queue_inv_def)
    then have "poll rs q = Some (Poll_Event e, q\<lparr>eq_channel := es, eq_queued_bytes := data_bytes es\<rparr>)"
      using False Cons by (auto simp: poll_def fetch_sub_small)
    with Cons show ?thesis by (rule got)
  qed
qed

lemma queue_inv_popped:
  assumes "queue_inv q" "eq_channel q = e # es"
  shows "queue_inv (q\<lparr>eq_channel := es, eq_queued_bytes := data_bytes es\<rparr>)"
  using assms within_budget_tail [of "eq_max_queued_bytes q" e es] by (auto simp: queue_inv_def)

lemma queue_inv_counts [simp]:
  "queue_inv (q\<lparr>eq_waiting_producers := n\<rparr>) = queue_inv q"
  "queue_inv (q\<lparr>eq_senders_alive := b\<rparr>) = queue_inv q"
  by (simp_all add: queue_inv_def)

lemma length_wake_all [simp]: "length (wake_all ws) = length ws"
  by (simp add: wake_all_def)

lemma set_wake_all [simp]:
  "x \<in> set (wake_all ws) \<longleftrightarrow> snd x \<and> fst x \<in> fst ` set ws"
  by (cases x, force simp: wake_all_def image_iff)+

lemma system_inv_pass:
  assumes inv: "system_inv s" and ws: "writes_ok (eq_unread (qs_queue s)) ws"
    and e: "length (ev_data e) < usize_limit" and room: "length (qs_waiters s) + 1 < usize_limit"
  shows "system_inv (run_pass ws e s)"
proof -
  let ?q = "qs_queue s"
  have q: "queue_inv ?q" using inv by (simp add: system_inv_def)
  consider "eq_closed ?q" | "\<not> eq_closed ?q" "\<not> may_append e ?q" | "\<not> eq_closed ?q" "may_append e ?q"
    by blast
  then show ?thesis
  proof cases
    case 1
    then show ?thesis using inv by (simp add: run_pass_def emit_pass_closed)
  next
    case 2
    then have "eq_channel ?q \<noteq> []" using q by (auto simp: may_append_def queue_inv_def)
    with 2 show ?thesis
      using inv emit_pass_waits [OF q 2 e] e room
      by (auto simp: run_pass_def system_inv_def fetch_add_small)
  next
    case 3
    then obtain n where "n > 0" "emit_pass ws e ?q = Some (Emit_Returned, appended e n ?q)"
      using emit_pass_appends [OF q 3 e ws] by blast
    with 3 show ?thesis
      using inv queue_inv_appended [OF q 3 e, of n]
      by (auto simp: run_pass_def system_inv_def) (auto simp: appended_def)
  qed
qed

lemma system_inv_woken:
  assumes inv: "system_inv s" and k: "k < length (qs_waiters s)"
  defines "t \<equiv> s\<lparr>qs_queue := producer_woken (qs_queue s),
             qs_waiters := take k (qs_waiters s) @ drop (Suc k) (qs_waiters s)\<rparr>"
  shows "system_inv t" and "length (qs_waiters t) + 1 < usize_limit"
    and "length (ev_data (fst (qs_waiters s ! k))) < usize_limit"
proof -
  have sub: "set (take k (qs_waiters s) @ drop (Suc k) (qs_waiters s)) \<subseteq> set (qs_waiters s)"
    by (auto dest: in_set_takeD in_set_dropD)
  have "eq_waiting_producers (producer_woken (qs_queue s)) = length (qs_waiters s) - 1"
    using inv k by (simp add: producer_woken_def system_inv_def fetch_sub_small)
  moreover have "queue_inv (producer_woken (qs_queue s))"
    using inv by (simp add: producer_woken_def system_inv_def)
  ultimately show "system_inv t"
    using inv k sub unfolding system_inv_def t_def
    by (auto simp: producer_woken_def)
  show "length (qs_waiters t) + 1 < usize_limit" using inv k by (auto simp: t_def system_inv_def)
  show "length (ev_data (fst (qs_waiters s ! k))) < usize_limit"
    using inv nth_mem [OF k] by (auto simp: system_inv_def)
qed

lemma system_inv_poll:
  assumes inv: "system_inv s" and ok: "reads_ok (eq_unread (qs_queue s)) rs"
  shows "system_inv (queue_exec (Q_Poll rs) s)"
proof -
  have q: "queue_inv (qs_queue s)" using inv by (simp add: system_inv_def)
  from q ok show ?thesis
  proof (cases rule: poll_cases)
    case poisoned
    then show ?thesis using inv by simp
  next
    case (got e es)
    then show ?thesis using inv queue_inv_popped [OF q got(1)] by (auto simp: system_inv_def)
  next
    case (none r)
    then show ?thesis using inv by (auto simp: system_inv_def queue_inv_def)
  qed
qed

lemma system_inv_spurious:
  assumes inv: "system_inv s" and k: "k < length (qs_waiters s)"
  shows "system_inv (s\<lparr>qs_waiters := (qs_waiters s)[k := (fst (qs_waiters s ! k), True)]\<rparr>)"
proof -
  let ?ws = "(qs_waiters s)[k := (fst (qs_waiters s ! k), True)]"
  have "w \<in> set ?ws \<Longrightarrow> w \<in> set (qs_waiters s) \<or> w = (fst (qs_waiters s ! k), True)" for w
    using set_update_subset_insert [of "qs_waiters s" k] by blast
  moreover have "length (ev_data (fst (qs_waiters s ! k))) < usize_limit"
    by (rule system_inv_woken(3) [OF inv k])
  ultimately have "\<forall>w \<in> set ?ws. length (ev_data (fst w)) < usize_limit \<and>
      (snd w \<or> \<not> eq_closed (qs_queue s) \<and> eq_channel (qs_queue s) \<noteq> [])"
    using inv unfolding system_inv_def by (metis fst_conv snd_conv)
  then show ?thesis using inv unfolding system_inv_def by simp
qed

lemma system_inv_step: "system_inv s \<Longrightarrow> queue_ok x s \<Longrightarrow> system_inv (queue_exec x s)"
proof (cases x)
  case (Q_Emit ws e)
  assume "system_inv s" "queue_ok x s"
  with Q_Emit show ?thesis by (simp add: system_inv_pass)
next
  case (Q_Retry ws k)
  assume *: "system_inv s" "queue_ok x s"
  show ?thesis
    using * Q_Retry system_inv_woken [OF *(1), of k]
    by (auto intro!: system_inv_pass simp: producer_woken_def)
next
  case (Q_Spurious k)
  assume "system_inv s"
  with Q_Spurious show ?thesis by (simp add: system_inv_spurious)
next
  case (Q_Poll rs)
  assume "system_inv s" "queue_ok x s"
  with Q_Poll show ?thesis by (simp only: queue_ok.simps system_inv_poll)
next
  case Q_Close
  assume "system_inv s"
  with Q_Close show ?thesis by (auto simp: system_inv_def queue_inv_def queue_close_def)
next
  case Q_Drop
  assume "system_inv s"
  with Q_Drop show ?thesis by (auto simp: system_inv_def queue_inv_def queue_drop_def queue_close_def)
next
  case Q_Senders_Gone
  assume "system_inv s"
  with Q_Senders_Gone show ?thesis by (auto simp: system_inv_def)
qed

interpretation queue: guarded_system queue_ok queue_exec system_inv
  by unfold_locales (rule system_inv_step)

definition queue_system_init :: "event_queue_state \<Rightarrow> queue_system" where
  "queue_system_init q = \<lparr>qs_queue = q, qs_waiters = [], qs_accepted = [], qs_polled = []\<rparr>"

lemma system_inv_init:
  "event_queue_with_byte_limit capacity limit = Inr q \<Longrightarrow> system_inv (queue_system_init q)"
  by (auto simp: event_queue_with_byte_limit_def system_inv_def queue_inv_def queue_system_init_def
      within_budget_def usize_limit_def split: if_splits)

subsection \<open>What the backend's tasks rely on: a sink that records events in order\<close>

text \<open>
  The handlers of the backend only emit. Their models append to a list of events; the queue keeps
  the same history, so what is proved of the list holds of what the plugin receives.
\<close>

locale event_sink =
  fixes emit :: "event \<Rightarrow> 's \<Rightarrow> 's"
    and log :: "'s \<Rightarrow> event list"
    and ready :: "event \<Rightarrow> 's \<Rightarrow> bool"
  assumes emit_log: "ready e s \<Longrightarrow> log (emit e s) = log s @ [e]"
begin

lemma emit_list_log: "admissible ready emit s es \<Longrightarrow> log (fold emit es s) = log s @ es"
  by (induction es arbitrary: s) (auto simp: emit_log)

end

definition list_emit :: "event \<Rightarrow> event list \<Rightarrow> event list" where
  "list_emit e log = log @ [e]"

interpretation list_sink: event_sink list_emit "\<lambda>log. log" "\<lambda>_ _. True"
  by unfold_locales (simp add: list_emit_def)

definition queue_emit :: "event \<Rightarrow> queue_system \<Rightarrow> queue_system" where
  "queue_emit e = queue_exec (Q_Emit [Wrote 1] e)"

definition queue_ready :: "event \<Rightarrow> queue_system \<Rightarrow> bool" where
  "queue_ready e s \<longleftrightarrow> queue_inv (qs_queue s) \<and> \<not> eq_closed (qs_queue s) \<and>
     may_append e (qs_queue s) \<and> length (ev_data e) < usize_limit"

lemma queue_emit_ready:
  assumes "queue_ready e s"
  obtains n where "n > 0" "queue_emit e s =
    s\<lparr>qs_queue := appended e n (qs_queue s), qs_accepted := qs_accepted s @ [e]\<rparr>"
proof -
  from assms obtain n where "n > 0" "emit_pass [Wrote 1] e (qs_queue s) =
      Some (Emit_Returned, appended e n (qs_queue s))"
    using emit_pass_appends [of "qs_queue s" e "[Wrote 1]"] by (auto simp: queue_ready_def)
  then show ?thesis
    using that [of n] by (simp add: queue_emit_def run_pass_def appended_def)
qed

interpretation queue_sink: event_sink queue_emit qs_accepted queue_ready
proof unfold_locales
  fix e s
  assume "queue_ready e s"
  then show "qs_accepted (queue_emit e s) = qs_accepted s @ [e]"
    by (rule queue_emit_ready) simp
qed

lemma queue_ready_run:
  assumes "queue_inv (qs_queue s)" "\<not> eq_closed (qs_queue s)"
    and "length (eq_channel (qs_queue s)) + length es \<le> eq_capacity (qs_queue s)"
    and "data_bytes (eq_channel (qs_queue s)) + data_bytes es \<le> eq_max_queued_bytes (qs_queue s)"
    and "eq_max_queued_bytes (qs_queue s) < usize_limit"
  shows "admissible queue_ready queue_emit s es"
  using assms
proof (induction es arbitrary: s)
  case (Cons e es)
  have ready: "queue_ready e s" using Cons.prems by (auto simp: queue_ready_def may_append_def)
  then obtain n where n: "n > 0" "queue_emit e s =
      s\<lparr>qs_queue := appended e n (qs_queue s), qs_accepted := qs_accepted s @ [e]\<rparr>"
    by (rule queue_emit_ready)
  have "queue_inv (appended e n (qs_queue s))"
    using ready n(1) by (intro queue_inv_appended) (auto simp: queue_ready_def)
  then have "admissible queue_ready queue_emit (queue_emit e s) es"
    using Cons.prems n(2) by (intro Cons.IH) (auto simp: appended_def)
  with ready show ?case by simp
qed simp

text \<open>A run in which a producer sleeps, is woken by a poll and then succeeds.\<close>

definition sample_event :: "nat \<Rightarrow> event" where
  "sample_event n = event_default\<lparr>ev_data := replicate n 0\<rparr>"

definition sample_ops :: "queue_op list" where
  "sample_ops = [Q_Emit [Write_Interrupted, Wrote 1] (sample_event 3), Q_Emit [Wrote 1] (sample_event 1),
     Q_Poll [Did_Read 1, Read_Would_Block], Q_Retry [Wrote 1] 0]"

definition sample_queue :: event_queue_state where
  "sample_queue =
     \<lparr>eq_notification_pending = False, eq_closed = False, eq_queued_bytes = 0,
      eq_waiting_producers = 0, eq_max_queued_bytes = 2, eq_capacity = 1, eq_channel = [],
      eq_unread = 0, eq_receiver_alive = True, eq_receiver_poisoned = False, eq_senders_alive = True\<rparr>"

lemma sample_queue_new: "event_queue_with_byte_limit 1 2 = Inr sample_queue"
  by (simp add: event_queue_with_byte_limit_def sample_queue_def)

lemma usize_limit_small: "1 < usize_limit" "2 < usize_limit" "3 < usize_limit" "Suc 0 < usize_limit"
  by (simp_all add: usize_limit_def)

lemma sample_event_bytes [simp]: "length (ev_data (sample_event n)) = n" "ev_data (sample_event n) = [] \<longleftrightarrow> n = 0"
  by (simp_all add: sample_event_def event_default_def)

lemma sample_ops_admissible:
  "admissible queue_ok queue_exec (queue_system_init sample_queue) sample_ops"
  by (simp add: sample_ops_def queue_system_init_def sample_queue_def run_pass_def
      queue_defs usize_limit_small fetch_add_small fetch_sub_small wake_all_def)

subsection \<open>Properties\<close>

text \<open>
  C29. The queue stays bounded under every interleaving of producers, polls and the close: never more
  events than its capacity, the byte counter equal to the data actually queued (so no decrement wraps), and the
  queued data within the byte limit, or beyond it by one event that was admitted while no data was queued.
\<close>

theorem queue_run_bounded:
  assumes "event_queue_with_byte_limit capacity limit = Inr q"
    and "admissible queue_ok queue_exec (queue_system_init q) ops"
  defines "t \<equiv> qs_queue (fold queue_exec ops (queue_system_init q))"
  shows "length (eq_channel t) \<le> eq_capacity t \<and> eq_queued_bytes t = data_bytes (eq_channel t) \<and>
    (data_bytes (eq_channel t) \<le> eq_max_queued_bytes t \<or>
     eq_channel t \<noteq> [] \<and> data_bytes (butlast (eq_channel t)) = 0)"
  using queue.run_inv [OF system_inv_init [OF assms(1)] assms(2)]
  by (simp add: system_inv_def queue_inv_def within_budget_def t_def)

theorem queue_run_bounded_witness:
  "let t = qs_queue (fold queue_exec sample_ops (queue_system_init sample_queue))
   in length (eq_channel t) \<le> eq_capacity t \<and> eq_queued_bytes t = data_bytes (eq_channel t)"
  using queue_run_bounded [OF sample_queue_new sample_ops_admissible] by (simp add: Let_def)

text \<open>
  C30. The queue is a first-in first-out list: at every moment of every run, what the plugin has
  polled followed by what is queued is exactly what the producers managed to emit, in that order, so no
  event is lost, duplicated or reordered once it has been accepted.
\<close>

theorem queue_run_fifo:
  assumes "event_queue_with_byte_limit capacity limit = Inr q"
    and "admissible queue_ok queue_exec (queue_system_init q) ops"
  shows "qs_accepted (fold queue_exec ops (queue_system_init q)) =
    qs_polled (fold queue_exec ops (queue_system_init q)) @
    eq_channel (qs_queue (fold queue_exec ops (queue_system_init q)))"
  using queue.run_inv [OF system_inv_init [OF assms(1)] assms(2)] by (simp add: system_inv_def)

theorem queue_run_fifo_witness:
  "let s = fold queue_exec sample_ops (queue_system_init sample_queue)
   in qs_accepted s = qs_polled s @ eq_channel (qs_queue s) \<and>
      qs_polled s = [sample_event 3] \<and> eq_channel (qs_queue s) = [sample_event 1]"
  unfolding Let_def
proof (intro conjI)
  show "qs_accepted (fold queue_exec sample_ops (queue_system_init sample_queue)) =
      qs_polled (fold queue_exec sample_ops (queue_system_init sample_queue)) @
      eq_channel (qs_queue (fold queue_exec sample_ops (queue_system_init sample_queue)))"
    by (rule queue_run_fifo [OF sample_queue_new sample_ops_admissible])
qed (simp_all add: sample_ops_def queue_system_init_def sample_queue_def run_pass_def
      queue_defs usize_limit_small fetch_add_small fetch_sub_small wake_all_def)

text \<open>
  C31. Nobody sleeps on a queue that could serve them. While an event is queued the plugin's
  descriptor is readable; a producer that is still asleep sleeps on an open queue that holds an event, so the next poll
  wakes it; and a producer that runs while the queue is empty or closed returns instead of sleeping.
\<close>

theorem queue_run_progress:
  assumes "event_queue_with_byte_limit capacity limit = Inr q"
    and "admissible queue_ok queue_exec (queue_system_init q) ops"
  defines "s \<equiv> fold queue_exec ops (queue_system_init q)"
  shows "(eq_channel (qs_queue s) \<noteq> [] \<longrightarrow> 0 < eq_unread (qs_queue s)) \<and>
    (\<forall>w \<in> set (qs_waiters s). \<not> snd w \<longrightarrow>
       \<not> eq_closed (qs_queue s) \<and> eq_channel (qs_queue s) \<noteq> []) \<and>
    (\<forall>ws e. queue_ok (Q_Emit ws e) s \<and> (eq_closed (qs_queue s) \<or> eq_channel (qs_queue s) = []) \<longrightarrow>
       (\<exists>t. emit_pass ws e (qs_queue s) = Some (Emit_Returned, t)))"
proof -
  have inv: "system_inv s"
    unfolding s_def by (rule queue.run_inv [OF system_inv_init [OF assms(1)] assms(2)])
  have q: "queue_inv (qs_queue s)" using inv by (simp add: system_inv_def)
  have "\<exists>t. emit_pass ws e (qs_queue s) = Some (Emit_Returned, t)"
    if ok: "queue_ok (Q_Emit ws e) s" and "eq_closed (qs_queue s) \<or> eq_channel (qs_queue s) = []" for ws e
  proof (cases "eq_closed (qs_queue s)")
    case True
    then show ?thesis by (simp add: emit_pass_closed)
  next
    case False
    with that q have "may_append e (qs_queue s)" by (auto simp: may_append_def queue_inv_def)
    with False ok emit_pass_appends [OF q False] show ?thesis by auto
  qed
  then show ?thesis using inv q unfolding system_inv_def queue_inv_def by auto
qed

theorem queue_run_progress_witness:
  "let s = fold queue_exec sample_ops (queue_system_init sample_queue)
   in 0 < eq_unread (qs_queue s)"
  unfolding Let_def
  using queue_run_progress [OF sample_queue_new sample_ops_admissible]
  by (simp add: sample_ops_def queue_system_init_def sample_queue_def run_pass_def
      queue_defs usize_limit_small fetch_add_small fetch_sub_small wake_all_def)

end
