(* ===== verification/Ffi.thy ===== *)
theory Ffi
  imports Commands Event_Queue
begin

section \<open>The C interface (ffi.rs)\<close>

text \<open>
  The functions the C plugin calls: they validate what the pointers hold, queue commands on a bounded
  channel, admit and cancel attachments, take acknowledgments and hand out events. A pointer is an
  option, \<open>None\<close> when null; the memory behind a string pointer is a list of bytes, the memory behind a
  data pointer a function of the offset, so that reading \<^verbatim>\<open>data_len\<close> bytes is always defined. No operation that a call uses
  panics, so the guard around each body only passes its status on.
\<close>

type_synonym 'a ptr = "'a option"

subsection \<open>Limits and statuses\<close>

definition MAX_STORE_PATH_BYTES :: usize where
  "MAX_STORE_PATH_BYTES = 4096"

definition MAX_DEVICE_NAME_BYTES :: usize where
  "MAX_DEVICE_NAME_BYTES = 128"

definition MAX_PASSPHRASE_BYTES :: usize where
  "MAX_PASSPHRASE_BYTES = 4096"

definition MAX_RECIPIENT_BYTES :: usize where
  "MAX_RECIPIENT_BYTES = 256"

definition GROUP_KEY_BYTES :: usize where
  "GROUP_KEY_BYTES = 64"

definition MAX_MESSAGE_BYTES :: usize where
  "MAX_MESSAGE_BYTES = 64 * 1024"

definition MAX_ATTACHMENT_FILENAME_BYTES :: usize where
  "MAX_ATTACHMENT_FILENAME_BYTES = 255"

definition MAX_CONTENT_TYPE_BYTES :: usize where
  "MAX_CONTENT_TYPE_BYTES = 255"

definition EVENT_QUEUE_CAPACITY :: usize where
  "EVENT_QUEUE_CAPACITY = 4096"

definition COMMAND_CHANNEL_CAPACITY :: usize where
  "COMMAND_CHANNEL_CAPACITY = 128"

datatype signal_status = Status_Ok | Invalid_Argument | Not_Ready | Queue_Full | Internal_Error

primrec status_code :: "signal_status \<Rightarrow> int" where
  "status_code Status_Ok = 0"
| "status_code Invalid_Argument = -1"
| "status_code Not_Ready = -2"
| "status_code Queue_Full = -3"
| "status_code Internal_Error = -4"

subsection \<open>Strings\<close>

text \<open>\<^verbatim>\<open>CStr::to_bytes\<close>: the bytes before the terminator.\<close>

definition c_bytes :: "string \<Rightarrow> string" where
  "c_bytes memory = takeWhile (\<lambda>c. c \<noteq> NUL) memory"

text \<open>
  \<^verbatim>\<open>str::from_utf8\<close> accepts the well-formed sequences of the Unicode standard: no overlong form, no surrogate, nothing past U+10FFFF.
\<close>

definition byte_in :: "nat \<Rightarrow> nat \<Rightarrow> char \<Rightarrow> bool" where
  "byte_in lo hi c \<longleftrightarrow> lo \<le> of_char c \<and> of_char c \<le> hi"

definition utf8_second :: "nat \<Rightarrow> char \<Rightarrow> bool" where
  "utf8_second lead c =
     (if lead = 0xE0 then byte_in 0xA0 0xBF c
      else if lead = 0xED then byte_in 0x80 0x9F c
      else if lead = 0xF0 then byte_in 0x90 0xBF c
      else if lead = 0xF4 then byte_in 0x80 0x8F c
      else byte_in 0x80 0xBF c)"

fun utf8_valid :: "string \<Rightarrow> bool" where
  "utf8_valid [] = True"
| "utf8_valid (c # s) =
     (let lead = of_char c :: nat
      in if lead < 0x80 then utf8_valid s
         else if 0xC2 \<le> lead \<and> lead \<le> 0xDF then
           (case s of c1 # t \<Rightarrow> utf8_second lead c1 \<and> utf8_valid t | _ \<Rightarrow> False)
         else if 0xE0 \<le> lead \<and> lead \<le> 0xEF then
           (case s of c1 # c2 # t \<Rightarrow> utf8_second lead c1 \<and> byte_in 0x80 0xBF c2 \<and> utf8_valid t | _ \<Rightarrow> False)
         else if 0xF0 \<le> lead \<and> lead \<le> 0xF4 then
           (case s of
              c1 # c2 # c3 # t \<Rightarrow>
                utf8_second lead c1 \<and> byte_in 0x80 0xBF c2 \<and> byte_in 0x80 0xBF c3 \<and> utf8_valid t
            | _ \<Rightarrow> False)
         else False)"

definition required_string :: "string ptr \<Rightarrow> usize \<Rightarrow> signal_status + string" where
  "required_string v maximum_bytes =
     (case v of
        None \<Rightarrow> Inl Invalid_Argument
      | Some memory \<Rightarrow>
          let s = c_bytes memory
          in if s = [] \<or> maximum_bytes < length s then Inl Invalid_Argument
             else if utf8_valid s then Inr s else Inl Invalid_Argument)"

definition required_store_passphrase :: "string ptr \<Rightarrow> usize \<Rightarrow> signal_status + string" where
  "required_store_passphrase v maximum_bytes = required_string v maximum_bytes"

definition valid_group_key :: "string \<Rightarrow> bool" where
  "valid_group_key key \<longleftrightarrow>
     length key = GROUP_KEY_BYTES \<and> (case hex_decode key of Some v \<Rightarrow> length v = 32 | None \<Rightarrow> False)"

subsection \<open>The core\<close>

text \<open>
  The bounded channel by its documentation: a send fails when the receiver is gone, else when the
  buffer is full. A reserved slot is used in the same call.
\<close>

record command_channel =
  ch_queue :: "command list"
  ch_capacity :: usize
  ch_receiver :: bool

definition channel_try_reserve :: "command_channel \<Rightarrow> send_result" where
  "channel_try_reserve ch =
     (if \<not> ch_receiver ch then Send_Disconnected
      else if ch_capacity ch \<le> length (ch_queue ch) then Send_Full else Send_Ok)"

definition slot_send :: "command \<Rightarrow> command_channel \<Rightarrow> command_channel" where
  "slot_send command ch = ch\<lparr>ch_queue := ch_queue ch @ [command]\<rparr>"

record signal_core =
  co_commands :: command_channel
  co_acknowledgments :: ack_inbox
  co_shutdown :: bool
  co_events :: event_queue_state
  co_ready :: bool
  co_attachments :: attachment_admission
  co_join :: bool

definition with_core ::
  "signal_core ptr \<Rightarrow> (signal_core \<Rightarrow> signal_status \<times> signal_core) \<Rightarrow> signal_status \<times> signal_core ptr" where
  "with_core core f = (case core of None \<Rightarrow> (Invalid_Argument, None) | Some c \<Rightarrow> apsnd Some (f c))"

definition status_try ::
  "signal_status + 'a \<Rightarrow> signal_core \<Rightarrow> ('a \<Rightarrow> signal_status \<times> signal_core) \<Rightarrow> signal_status \<times> signal_core" where
  "status_try r c f = (case r of Inl status \<Rightarrow> (status, c) | Inr v \<Rightarrow> f v)"

definition queue_control_command :: "command \<Rightarrow> signal_core \<Rightarrow> signal_status \<times> signal_core" where
  "queue_control_command command c =
     (case channel_try_reserve (co_commands c) of
        Send_Ok \<Rightarrow> (Status_Ok, c\<lparr>co_commands := slot_send command (co_commands c)\<rparr>)
      | Send_Full \<Rightarrow> (Queue_Full, c)
      | Send_Disconnected \<Rightarrow> (Internal_Error, c))"

definition queue_command :: "command \<Rightarrow> signal_core \<Rightarrow> signal_status \<times> signal_core" where
  "queue_command command c = (if \<not> co_ready c then (Not_Ready, c) else queue_control_command command c)"

subsection \<open>Calls that queue a command\<close>

definition signal_core_send_message ::
  "signal_core ptr \<Rightarrow> u64 \<Rightarrow> string ptr \<Rightarrow> string ptr \<Rightarrow> signal_status \<times> signal_core ptr" where
  "signal_core_send_message core request_id recipient message =
     with_core core (\<lambda>c.
       status_try (required_string recipient MAX_RECIPIENT_BYTES) c (\<lambda>r.
       status_try (required_string message MAX_MESSAGE_BYTES) c (\<lambda>m.
       queue_command (Send_Message request_id r m) c)))"

definition signal_core_send_group_message ::
  "signal_core ptr \<Rightarrow> u64 \<Rightarrow> string ptr \<Rightarrow> string ptr \<Rightarrow> signal_status \<times> signal_core ptr" where
  "signal_core_send_group_message core request_id group_key message =
     with_core core (\<lambda>c.
       status_try (required_string group_key GROUP_KEY_BYTES) c (\<lambda>g.
       if \<not> valid_group_key g then (Invalid_Argument, c)
       else
         status_try (required_string message MAX_MESSAGE_BYTES) c (\<lambda>m.
         queue_command (Send_Group_Message request_id g m) c)))"

definition signal_core_leave_group ::
  "signal_core ptr \<Rightarrow> u64 \<Rightarrow> string ptr \<Rightarrow> signal_status \<times> signal_core ptr" where
  "signal_core_leave_group core request_id group_key =
     with_core core (\<lambda>c.
       if request_id = 0 then (Invalid_Argument, c)
       else
         status_try (required_string group_key GROUP_KEY_BYTES) c (\<lambda>g.
         if \<not> valid_group_key g then (Invalid_Argument, c)
         else queue_command (Leave_Group request_id g) c))"

definition signal_core_set_typing ::
  "signal_core ptr \<Rightarrow> u64 \<Rightarrow> string ptr \<Rightarrow> int \<Rightarrow> signal_status \<times> signal_core ptr" where
  "signal_core_set_typing core request_id recipient typing =
     with_core core (\<lambda>c.
       status_try (required_string recipient MAX_RECIPIENT_BYTES) c (\<lambda>r.
       queue_command (Set_Typing request_id r (typing \<noteq> 0)) c))"

definition signal_core_accept_identity ::
  "signal_core ptr \<Rightarrow> u64 \<Rightarrow> string ptr \<Rightarrow> signal_status \<times> signal_core ptr" where
  "signal_core_accept_identity core request_id recipient =
     with_core core (\<lambda>c.
       status_try (required_string recipient MAX_RECIPIENT_BYTES) c (\<lambda>r.
       queue_control_command (Accept_Identity request_id r) c))"

definition signal_core_dismiss_identity ::
  "signal_core ptr \<Rightarrow> u64 \<Rightarrow> string ptr \<Rightarrow> signal_status \<times> signal_core ptr" where
  "signal_core_dismiss_identity core request_id recipient =
     with_core core (\<lambda>c.
       status_try (required_string recipient MAX_RECIPIENT_BYTES) c (\<lambda>r.
       queue_control_command (Dismiss_Identity request_id r) c))"

definition signal_core_reset_session ::
  "signal_core ptr \<Rightarrow> u64 \<Rightarrow> string ptr \<Rightarrow> signal_status \<times> signal_core ptr" where
  "signal_core_reset_session core request_id recipient =
     with_core core (\<lambda>c.
       status_try (required_string recipient MAX_RECIPIENT_BYTES) c (\<lambda>r.
       queue_control_command (Reset_Session request_id r) c))"

definition signal_core_mark_read ::
  "signal_core ptr \<Rightarrow> u64 \<Rightarrow> string ptr \<Rightarrow> u64 \<Rightarrow> signal_status \<times> signal_core ptr" where
  "signal_core_mark_read core request_id recipient timestamp =
     with_core core (\<lambda>c.
       if timestamp = 0 then (Invalid_Argument, c)
       else
         status_try (required_string recipient MAX_RECIPIENT_BYTES) c (\<lambda>r.
         queue_command (Mark_Read request_id r timestamp) c))"

subsection \<open>Attachments\<close>

text \<open>\<^verbatim>\<open>slice::from_raw_parts\<close> and \<^verbatim>\<open>to_vec\<close>.\<close>

definition read_raw_parts :: "(nat \<Rightarrow> u8) \<Rightarrow> usize \<Rightarrow> bytes" where
  "read_raw_parts data n = map data [0 ..< n]"

record attachment_input =
  in_recipient :: "string ptr"
  in_filename :: "string ptr"
  in_content_type :: "string ptr"
  in_data :: "(nat \<Rightarrow> u8) ptr"
  in_data_len :: usize

text \<open>
  The end both ways of sending share: the admission, then a slot of the channel. A permit that finds no
  slot is dropped.
\<close>

definition admit_attachment ::
  "u64 \<Rightarrow> usize \<Rightarrow> (attachment_permit \<Rightarrow> command) \<Rightarrow> signal_core \<Rightarrow> signal_status \<times> signal_core" where
  "admit_attachment request_id n command c =
     (case try_reserve request_id n (co_attachments c) of
        (Inl Admission_Invalid, a) \<Rightarrow> (Invalid_Argument, c\<lparr>co_attachments := a\<rparr>)
      | (Inl Admission_Capacity, a) \<Rightarrow> (Queue_Full, c\<lparr>co_attachments := a\<rparr>)
      | (Inr permit, a) \<Rightarrow>
          (case channel_try_reserve (co_commands c) of
             Send_Full \<Rightarrow> (Queue_Full, c\<lparr>co_attachments := permit_drop permit a\<rparr>)
           | Send_Disconnected \<Rightarrow> (Internal_Error, c\<lparr>co_attachments := permit_drop permit a\<rparr>)
           | Send_Ok \<Rightarrow>
               (Status_Ok, c\<lparr>co_attachments := a, co_commands := slot_send (command permit) (co_commands c)\<rparr>)))"

definition send_attachment ::
  "signal_core ptr \<Rightarrow> u64 \<Rightarrow> attachment_input \<Rightarrow> bool \<Rightarrow> signal_status \<times> signal_core ptr" where
  "send_attachment core request_id input to_group =
     with_core core (\<lambda>c.
       case in_data input of
         None \<Rightarrow> (Invalid_Argument, c)
       | Some data \<Rightarrow>
           if in_data_len input = 0 \<or> MAX_ATTACHMENT_BYTES < in_data_len input then (Invalid_Argument, c)
           else if \<not> co_ready c then (Not_Ready, c)
           else
             status_try (required_string (in_recipient input) MAX_RECIPIENT_BYTES) c (\<lambda>recipient.
             status_try (required_string (in_filename input) MAX_ATTACHMENT_FILENAME_BYTES) c (\<lambda>filename.
             status_try (required_string (in_content_type input) MAX_CONTENT_TYPE_BYTES) c (\<lambda>content_type.
             if to_group \<and> \<not> valid_group_key recipient then (Invalid_Argument, c)
             else
               admit_attachment request_id (in_data_len input)
                 (Send_Attachment request_id recipient filename content_type
                   (Payload_Data (read_raw_parts data (in_data_len input))) to_group) c))))"

definition signal_core_send_attachment ::
  "signal_core ptr \<Rightarrow> u64 \<Rightarrow> string ptr \<Rightarrow> string ptr \<Rightarrow> string ptr \<Rightarrow> (nat \<Rightarrow> u8) ptr \<Rightarrow> usize \<Rightarrow>
     signal_status \<times> signal_core ptr" where
  "signal_core_send_attachment core request_id recipient filename content_type data data_len =
     send_attachment core request_id
       \<lparr>in_recipient = recipient, in_filename = filename, in_content_type = content_type, in_data = data,
        in_data_len = data_len\<rparr> False"

definition signal_core_send_group_attachment ::
  "signal_core ptr \<Rightarrow> u64 \<Rightarrow> string ptr \<Rightarrow> string ptr \<Rightarrow> string ptr \<Rightarrow> (nat \<Rightarrow> u8) ptr \<Rightarrow> usize \<Rightarrow>
     signal_status \<times> signal_core ptr" where
  "signal_core_send_group_attachment core request_id group_key filename content_type data data_len =
     send_attachment core request_id
       \<lparr>in_recipient = group_key, in_filename = filename, in_content_type = content_type, in_data = data,
        in_data_len = data_len\<rparr> True"

text \<open>What the file system says of a path: whether it is a file, and its length.\<close>

type_synonym file_metadata = "string \<Rightarrow> (bool \<times> nat) option"

definition send_file_attachment ::
  "file_metadata \<Rightarrow> signal_core ptr \<Rightarrow> u64 \<Rightarrow> string ptr \<Rightarrow> string ptr \<Rightarrow> string ptr \<Rightarrow> string ptr \<Rightarrow> bool \<Rightarrow>
     signal_status \<times> signal_core ptr" where
  "send_file_attachment metadata core request_id recipient filename content_type file_path to_group =
     with_core core (\<lambda>c.
       if file_path = None then (Invalid_Argument, c)
       else if \<not> co_ready c then (Not_Ready, c)
       else
         status_try (required_string recipient MAX_RECIPIENT_BYTES) c (\<lambda>r.
         status_try (required_string filename MAX_ATTACHMENT_FILENAME_BYTES) c (\<lambda>f.
         status_try (required_string content_type MAX_CONTENT_TYPE_BYTES) c (\<lambda>t.
         status_try (required_string file_path MAX_STORE_PATH_BYTES) c (\<lambda>path.
         case metadata path of
           None \<Rightarrow> (Invalid_Argument, c)
         | Some (is_file, file_len) \<Rightarrow>
             if \<not> is_file then (Invalid_Argument, c)
             else if \<not> (0 < file_len \<and> file_len \<le> MAX_ATTACHMENT_BYTES) then (Invalid_Argument, c)
             else if to_group \<and> \<not> valid_group_key r then (Invalid_Argument, c)
             else
               admit_attachment request_id file_len
                 (Send_Attachment request_id r f t (Payload_Path path) to_group) c)))))"

definition signal_core_send_file_attachment ::
  "file_metadata \<Rightarrow> signal_core ptr \<Rightarrow> u64 \<Rightarrow> string ptr \<Rightarrow> string ptr \<Rightarrow> string ptr \<Rightarrow> string ptr \<Rightarrow>
     signal_status \<times> signal_core ptr" where
  "signal_core_send_file_attachment metadata core request_id recipient filename content_type file_path =
     send_file_attachment metadata core request_id recipient filename content_type file_path False"

definition signal_core_send_group_file_attachment ::
  "file_metadata \<Rightarrow> signal_core ptr \<Rightarrow> u64 \<Rightarrow> string ptr \<Rightarrow> string ptr \<Rightarrow> string ptr \<Rightarrow> string ptr \<Rightarrow>
     signal_status \<times> signal_core ptr" where
  "signal_core_send_group_file_attachment metadata core request_id group_key filename content_type file_path =
     send_file_attachment metadata core request_id group_key filename content_type file_path True"

definition signal_core_cancel_attachment :: "signal_core ptr \<Rightarrow> u64 \<Rightarrow> signal_status \<times> signal_core ptr" where
  "signal_core_cancel_attachment core request_id =
     with_core core (\<lambda>c.
       if request_id = 0 then (Invalid_Argument, c)
       else (Status_Ok, c\<lparr>co_attachments := snd (admission_cancel request_id (co_attachments c))\<rparr>))"

subsection \<open>Acknowledgments, events and teardown\<close>

definition signal_core_ack_message :: "signal_core ptr \<Rightarrow> u64 \<Rightarrow> signal_status \<times> signal_core ptr" where
  "signal_core_ack_message core delivery_id =
     with_core core (\<lambda>c.
       if delivery_id = 0 then (Invalid_Argument, c)
       else
         case ack_submit delivery_id (co_acknowledgments c) of
           (accepted, inbox) \<Rightarrow>
             (if accepted then Status_Ok else Internal_Error, c\<lparr>co_acknowledgments := inbox\<rparr>))"

text \<open>The outer \<open>None\<close> is a drain of the notification that has not returned; a panic of the conversion is caught.\<close>

definition signal_core_poll_event ::
  "read_outcome list \<Rightarrow> bool \<Rightarrow> signal_core ptr \<Rightarrow> (int \<times> owned_event ptr \<times> signal_core ptr) option" where
  "signal_core_poll_event rs out_event core =
     (if \<not> out_event then Some (-1, None, core)
      else
        case core of
          None \<Rightarrow> Some (-1, None, None)
        | Some c \<Rightarrow>
            (case poll rs (co_events c) of
               None \<Rightarrow> None
             | Some (polled, q) \<Rightarrow>
                 let c1 = c\<lparr>co_events := q\<rparr>
                 in (case polled of
                       Poll_Event e \<Rightarrow>
                         (case owned_event_new e of
                            Some owned \<Rightarrow> Some (1, Some owned, Some c1)
                          | None \<Rightarrow> Some (-1, None, Some c1))
                     | Poll_Empty \<Rightarrow> Some (0, None, Some c1)
                     | Poll_Disconnected \<Rightarrow> Some (-1, None, Some c1))))"

text \<open>Joining the thread runs the worker to its end, which is the argument \<open>finish\<close>.\<close>

definition signal_core_shutdown :: "(signal_core \<Rightarrow> signal_core) \<Rightarrow> signal_core ptr \<Rightarrow> signal_core ptr" where
  "signal_core_shutdown finish core =
     (case core of
        None \<Rightarrow> None
      | Some c \<Rightarrow>
          let c1 = c\<lparr>co_ready := False, co_attachments := cancel_all (co_attachments c),
                     co_events := queue_close (co_events c), co_shutdown := True, co_join := False\<rparr>
          in Some (if co_join c then finish c1 else c1))"

subsection \<open>The contract of the binary interface\<close>

definition signal_core_config_fields :: "(nat \<times> nat) list" where
  "signal_core_config_fields = [(4, 4), (4, 4), (8, 8), (8, 8), (8, 8)]"

definition ABI_CONTRACT_VALUES :: "int list" where
  "ABI_CONTRACT_VALUES =
     [uint ABI_VERSION]
     @ map status_code [Status_Ok, Invalid_Argument, Not_Ready, Queue_Full, Internal_Error]
     @ map uint
       [EVENT_LINK_QR, EVENT_READY, EVENT_CONTACT, EVENT_GROUP, EVENT_MESSAGE, EVENT_GROUP_MESSAGE,
        EVENT_TYPING, EVENT_RECEIPT, EVENT_NOTICE_RESERVED, EVENT_ERROR, EVENT_DISCONNECTED,
        EVENT_CONTACT_SYNC_BEGIN, EVENT_CONTACT_SYNC_END, EVENT_GROUP_SYNC_BEGIN, EVENT_GROUP_SYNC_END,
        EVENT_GROUP_MEMBER, EVENT_IDENTITY_CHANGE, EVENT_IDENTITY_ACCEPTED, EVENT_ATTACHMENT,
        EVENT_ATTACHMENT_SENT, EVENT_GROUP_LEFT, EVENT_RECOVERING, EVENT_ACCOUNT, EVENT_SESSION_RESET,
        EVENT_AVATAR]
     @ [0, uint FLAG_OUTGOING, uint FLAG_FATAL, uint FLAG_TRANSIENT]
     @ map int ([repr_c_size signal_core_config_fields, repr_c_align signal_core_config_fields]
         @ repr_c_offsets 0 signal_core_config_fields
         @ [repr_c_size signal_event_fields, repr_c_align signal_event_fields]
         @ repr_c_offsets 0 signal_event_fields
         @ [MAX_STORE_PATH_BYTES, MAX_DEVICE_NAME_BYTES, MAX_PASSPHRASE_BYTES, MAX_RECIPIENT_BYTES, GROUP_KEY_BYTES,
            MAX_MESSAGE_BYTES, MAX_ATTACHMENT_FILENAME_BYTES, MAX_CONTENT_TYPE_BYTES, MAX_ATTACHMENT_BYTES])"

definition signal_core_abi_contract_value :: "u32 \<Rightarrow> int" where
  "signal_core_abi_contract_value index =
     (if unat index < length ABI_CONTRACT_VALUES then ABI_CONTRACT_VALUES ! unat index else - (2 ^ 63))"

lemma length_contract: "length ABI_CONTRACT_VALUES = 66"
  by (simp add: ABI_CONTRACT_VALUES_def signal_core_config_fields_def signal_event_fields_def)

subsection \<open>Creating a core\<close>

text \<open>
  The file system, and what the operating system says to a socket pair and a thread, are parameters. \<open>fs_parent\<close> is
  \<^verbatim>\<open>Path::parent\<close>.
\<close>

record 'w file_system =
  fs_parent :: "string \<Rightarrow> string option"
  fs_exists :: "string \<Rightarrow> ('w, bool) io"
  fs_create_dir_all :: "string \<Rightarrow> ('w, unit rresult) io"
  fs_set_permissions :: "string \<Rightarrow> nat \<Rightarrow> ('w, unit rresult) io"

definition STORE_DIRECTORY_MODE :: nat where
  "STORE_DIRECTORY_MODE = 7 * 64"

definition ensure_store_parent :: "'w file_system \<Rightarrow> string \<Rightarrow> ('w, unit rresult) io" where
  "ensure_store_parent fs store_path w =
     (case fs_parent fs store_path of
        None \<Rightarrow> (Inr (), w)
      | Some parent \<Rightarrow>
          (case fs_exists fs parent w of
             (True, w1) \<Rightarrow> (Inr (), w1)
           | (False, w1) \<Rightarrow>
               (case fs_create_dir_all fs parent w1 of
                  (Inl error, w2) \<Rightarrow> (Inl (''Could not create Signal store directory: '' @ error), w2)
                | (Inr _, w2) \<Rightarrow>
                    (case fs_set_permissions fs parent STORE_DIRECTORY_MODE w2 of
                       (Inl error, w3) \<Rightarrow> (Inl (''Could not secure Signal store directory: '' @ error), w3)
                     | (Inr _, w3) \<Rightarrow> (Inr (), w3)))))"

record signal_core_config =
  cf_address :: nat
  cf_abi_version :: u32
  cf_struct_size :: u32
  cf_store_path :: "string ptr"
  cf_device_name :: "string ptr"
  cf_passphrase :: "string ptr"

record worker_config =
  wc_store_path :: string
  wc_device_name :: string
  wc_passphrase :: string

definition new_core :: "event_queue_state \<Rightarrow> signal_core" where
  "new_core events =
     \<lparr>co_commands = \<lparr>ch_queue = [], ch_capacity = COMMAND_CHANNEL_CAPACITY, ch_receiver = True\<rparr>,
      co_acknowledgments = ack_new, co_shutdown = False, co_events = events, co_ready = False,
      co_attachments = admission_new, co_join = True\<rparr>"

definition config_accepted :: "signal_core_config \<Rightarrow> bool" where
  "config_accepted config \<longleftrightarrow>
     \<not> (cf_abi_version config \<noteq> ABI_VERSION \<or>
        cf_struct_size config < word_of_nat (repr_c_size signal_core_config_fields) \<or>
        cf_address config mod repr_c_align signal_core_config_fields \<noteq> 0)"

definition signal_core_new ::
  "'w file_system \<Rightarrow> unit rresult \<Rightarrow> bool \<Rightarrow> signal_core_config ptr \<Rightarrow> bool \<Rightarrow> 'w \<Rightarrow>
     (signal_status \<times> (signal_core \<times> worker_config) ptr) \<times> 'w" where
  "signal_core_new fs sockets spawned config out_core w =
     (if \<not> out_core then ((Invalid_Argument, None), w)
      else
        case config of
          None \<Rightarrow> ((Invalid_Argument, None), w)
        | Some cf \<Rightarrow>
            if \<not> config_accepted cf then ((Invalid_Argument, None), w)
            else
              (case required_string (cf_store_path cf) MAX_STORE_PATH_BYTES of
                 Inl status \<Rightarrow> ((status, None), w)
               | Inr store_path \<Rightarrow>
                   (case ensure_store_parent fs store_path w of
                      (Inl _, w1) \<Rightarrow> ((Internal_Error, None), w1)
                    | (Inr _, w1) \<Rightarrow>
                        ((case required_string (cf_device_name cf) MAX_DEVICE_NAME_BYTES of
                            Inl status \<Rightarrow> (status, None)
                          | Inr device_name \<Rightarrow>
                              (case (case sockets of Inl e \<Rightarrow> Inl e | Inr _ \<Rightarrow> event_queue_new EVENT_QUEUE_CAPACITY) of
                                 Inl _ \<Rightarrow> (Internal_Error, None)
                               | Inr events \<Rightarrow>
                                   (case required_store_passphrase (cf_passphrase cf) MAX_PASSPHRASE_BYTES of
                                      Inl status \<Rightarrow> (status, None)
                                    | Inr passphrase \<Rightarrow>
                                        if \<not> spawned then (Internal_Error, None)
                                        else
                                          (Status_Ok,
                                           Some (new_core events,
                                             \<lparr>wc_store_path = store_path, wc_device_name = device_name,
                                              wc_passphrase = passphrase\<rparr>))))), w1))))"

subsection \<open>The calls together\<close>

text \<open>
  A core used by the plugin, while the worker takes commands from the channel, sets and clears the ready flag, and
  finally drops the receiver.
\<close>

datatype ffi_call =
    Call_Send_Message u64 "string ptr" "string ptr"
  | Call_Send_Group_Message u64 "string ptr" "string ptr"
  | Call_Leave_Group u64 "string ptr"
  | Call_Send_Attachment u64 attachment_input bool
  | Call_Send_File u64 "string ptr" "string ptr" "string ptr" "string ptr" bool
  | Call_Cancel u64
  | Call_Set_Typing u64 "string ptr" int
  | Call_Ack u64
  | Call_Accept_Identity u64 "string ptr"
  | Call_Dismiss_Identity u64 "string ptr"
  | Call_Reset_Session u64 "string ptr"
  | Call_Mark_Read u64 "string ptr" u64

primrec ffi_exec :: "file_metadata \<Rightarrow> ffi_call \<Rightarrow> signal_core ptr \<Rightarrow> signal_status \<times> signal_core ptr" where
  "ffi_exec md (Call_Send_Message i r m) core = signal_core_send_message core i r m"
| "ffi_exec md (Call_Send_Group_Message i g m) core = signal_core_send_group_message core i g m"
| "ffi_exec md (Call_Leave_Group i g) core = signal_core_leave_group core i g"
| "ffi_exec md (Call_Send_Attachment i input to_group) core = send_attachment core i input to_group"
| "ffi_exec md (Call_Send_File i r f t path to_group) core = send_file_attachment md core i r f t path to_group"
| "ffi_exec md (Call_Cancel i) core = signal_core_cancel_attachment core i"
| "ffi_exec md (Call_Set_Typing i r n) core = signal_core_set_typing core i r n"
| "ffi_exec md (Call_Ack i) core = signal_core_ack_message core i"
| "ffi_exec md (Call_Accept_Identity i r) core = signal_core_accept_identity core i r"
| "ffi_exec md (Call_Dismiss_Identity i r) core = signal_core_dismiss_identity core i r"
| "ffi_exec md (Call_Reset_Session i r) core = signal_core_reset_session core i r"
| "ffi_exec md (Call_Mark_Read i r n) core = signal_core_mark_read core i r n"

text \<open>The identifier of the request a call queues, if it queues one.\<close>

primrec call_request :: "ffi_call \<Rightarrow> u64 option" where
  "call_request (Call_Send_Message i r m) = Some i"
| "call_request (Call_Send_Group_Message i g m) = Some i"
| "call_request (Call_Leave_Group i g) = Some i"
| "call_request (Call_Send_Attachment i input to_group) = Some i"
| "call_request (Call_Send_File i r f t path to_group) = Some i"
| "call_request (Call_Cancel i) = None"
| "call_request (Call_Set_Typing i r n) = Some i"
| "call_request (Call_Ack i) = None"
| "call_request (Call_Accept_Identity i r) = Some i"
| "call_request (Call_Dismiss_Identity i r) = Some i"
| "call_request (Call_Reset_Session i r) = Some i"
| "call_request (Call_Mark_Read i r n) = Some i"

primrec command_request :: "command \<Rightarrow> u64" where
  "command_request (Send_Message i r m) = i"
| "command_request (Send_Group_Message i g m) = i"
| "command_request (Leave_Group i g) = i"
| "command_request (Send_Attachment i r f t d to_group p) = i"
| "command_request (Set_Typing i r b) = i"
| "command_request (Accept_Identity i r) = i"
| "command_request (Dismiss_Identity i r) = i"
| "command_request (Reset_Session i r) = i"
| "command_request (Mark_Read i r n) = i"

text \<open>What the worker may rely on of a command it takes from the channel.\<close>

definition text_ok :: "usize \<Rightarrow> string \<Rightarrow> bool" where
  "text_ok maximum s \<longleftrightarrow> s \<noteq> [] \<and> length s \<le> maximum \<and> utf8_valid s \<and> NUL \<notin> set s"

primrec payload_ok :: "attachment_payload \<Rightarrow> bool" where
  "payload_ok (Payload_Data d) = (0 < length d \<and> length d \<le> MAX_ATTACHMENT_BYTES)"
| "payload_ok (Payload_Path p) = text_ok MAX_STORE_PATH_BYTES p"

primrec command_ok :: "command \<Rightarrow> bool" where
  "command_ok (Send_Message i r m) = (text_ok MAX_RECIPIENT_BYTES r \<and> text_ok MAX_MESSAGE_BYTES m)"
| "command_ok (Send_Group_Message i g m) = (valid_group_key g \<and> text_ok MAX_MESSAGE_BYTES m)"
| "command_ok (Leave_Group i g) = (i \<noteq> 0 \<and> valid_group_key g)"
| "command_ok (Send_Attachment i r f t d to_group p) =
     (i \<noteq> 0 \<and> pm_request_id p = i \<and> pm_registration p \<and> text_ok MAX_RECIPIENT_BYTES r \<and> (if to_group then valid_group_key r else True) \<and>
      text_ok MAX_ATTACHMENT_FILENAME_BYTES f \<and> text_ok MAX_CONTENT_TYPE_BYTES t \<and> payload_ok d)"
| "command_ok (Set_Typing i r b) = text_ok MAX_RECIPIENT_BYTES r"
| "command_ok (Accept_Identity i r) = text_ok MAX_RECIPIENT_BYTES r"
| "command_ok (Dismiss_Identity i r) = text_ok MAX_RECIPIENT_BYTES r"
| "command_ok (Reset_Session i r) = text_ok MAX_RECIPIENT_BYTES r"
| "command_ok (Mark_Read i r n) = (text_ok MAX_RECIPIENT_BYTES r \<and> n \<noteq> 0)"

section \<open>Lemmas\<close>

lemma required_string_ok: "required_string v n = Inr s \<Longrightarrow> text_ok n s"
  by (auto simp: required_string_def text_ok_def c_bytes_def Let_def dest: set_takeWhileD split: option.splits if_splits)

text \<open>What a call may do: refuse and keep the core, queue one good command, or change no command.\<close>

definition call_effect :: "u64 option \<Rightarrow> signal_core \<Rightarrow> signal_status \<times> signal_core \<Rightarrow> bool" where
  "call_effect request c r \<longleftrightarrow>
     (case r of (status, c1) \<Rightarrow>
        if status = Status_Ok then
          (case request of
             None \<Rightarrow> co_commands c1 = co_commands c
           | Some i \<Rightarrow> \<exists>command. co_commands c1 = slot_send command (co_commands c) \<and> command_ok command \<and>
               command_request command = i \<and> channel_try_reserve (co_commands c) = Send_Ok)
        else co_commands c1 = co_commands c \<and> co_acknowledgments c1 = co_acknowledgments c \<and>
          ad_requests (co_attachments c1) = ad_requests (co_attachments c) \<and>
          ad_bytes (co_attachments c1) = ad_bytes (co_attachments c)) \<and>
     co_ready (snd r) = co_ready c \<and> co_events (snd r) = co_events c \<and> co_shutdown (snd r) = co_shutdown c \<and>
     co_join (snd r) = co_join c \<and> ai_open (co_acknowledgments (snd r)) = ai_open (co_acknowledgments c)"

lemma slot_send_grows: "ch_queue (slot_send command ch) = ch_queue ch @ [command]" "slot_send command ch \<noteq> ch" "ch \<noteq> slot_send command ch"
proof -
  show q: "ch_queue (slot_send command ch) = ch_queue ch @ [command]" by (simp add: slot_send_def)
  have "ch_queue (slot_send command ch) \<noteq> ch_queue ch" by (simp add: q)
  then show "slot_send command ch \<noteq> ch" "ch \<noteq> slot_send command ch" by metis+
qed

lemma refused [simp]: "call_effect request c (status, c) \<longleftrightarrow> status \<noteq> Status_Ok \<or> request = None"
  by (auto simp: call_effect_def slot_send_grows split: option.split)

lemma status_try_effect:
  "(\<And>s. r = Inl s \<Longrightarrow> s \<noteq> Status_Ok) \<Longrightarrow> (\<And>v. r = Inr v \<Longrightarrow> call_effect request c (f v)) \<Longrightarrow>
     call_effect request c (status_try r c f)"
  by (cases r) (simp_all add: status_try_def)

lemma required_string_effect:
  assumes "\<And>s. text_ok n s \<Longrightarrow> call_effect request c (f s)"
  shows "call_effect request c (status_try (required_string v n) c f)"
proof (rule status_try_effect)
  show "s \<noteq> Status_Ok" if "required_string v n = Inl s" for s
    using that by (auto simp: required_string_def Let_def split: option.splits if_splits)
qed (use assms required_string_ok in blast)

lemma queue_effect:
  "command_ok command \<Longrightarrow> command_request command = i \<Longrightarrow> call_effect (Some i) c (queue_control_command command c)"
  "command_ok command \<Longrightarrow> command_request command = i \<Longrightarrow> call_effect (Some i) c (queue_command command c)"
  by (auto simp: queue_command_def queue_control_command_def call_effect_def split: send_result.split)

text \<open>A permit that is dropped at once leaves the admission as it was, but for the control.\<close>

lemma reserve_and_drop:
  assumes "try_reserve i n a = (Inr permit, b)"
  shows "ad_requests (permit_drop permit b) = ad_requests a \<and> ad_bytes (permit_drop permit b) = ad_bytes a"
proof -
  note r = try_reserve_Inr [OF assms]
  from r(4) have "map_of (ad_requests a) i = None" by (simp add: map_of_eq_None_iff)
  with r(4) show ?thesis
    by (simp add: r(8,9) permit_drop_def release_def map_add_def AList.delete_eq filter_id_conv) force
qed

lemma admit_effect:
  assumes "\<And>permit. pm_request_id permit = i \<Longrightarrow> pm_registration permit \<Longrightarrow> i \<noteq> 0 \<Longrightarrow>
      command_ok (command permit) \<and> command_request (command permit) = i"
  shows "call_effect (Some i) c (admit_attachment i n command c)"
proof (cases "try_reserve i n (co_attachments c)")
  case (Pair r a)
  show ?thesis
  proof (cases r)
    case (Inl e)
    then have "a = co_attachments c" using Pair try_reserve_Inl by blast
    then show ?thesis using Inl Pair by (cases e) (simp_all add: admit_attachment_def)
  next
    case (Inr permit)
    then have "pm_request_id permit = i \<and> pm_registration permit \<and> i \<noteq> 0"
      using Pair by (auto simp: try_reserve_def control_new_def Let_def split: if_splits)
    then have "command_ok (command permit) \<and> command_request (command permit) = i" using assms by blast
    then show ?thesis
      using Inr Pair reserve_and_drop [of i n "co_attachments c" permit a]
      by (auto simp: admit_attachment_def call_effect_def split: send_result.split)
  qed
qed

lemma ffi_exec_null [simp]: "ffi_exec md call None = (Invalid_Argument, None)"
  by (cases call) (simp_all add: signal_core_send_message_def signal_core_send_group_message_def signal_core_leave_group_def
      send_attachment_def send_file_attachment_def signal_core_cancel_attachment_def signal_core_set_typing_def
      signal_core_ack_message_def signal_core_accept_identity_def signal_core_dismiss_identity_def
      signal_core_reset_session_def signal_core_mark_read_def with_core_def)

lemma through_pointer [simp]: "apsnd the (apsnd Some r) = r"
  by (cases r) simp

lemma ffi_exec_effect:
  "snd (ffi_exec md call (Some c)) \<noteq> None \<and> call_effect (call_request call) c (apsnd the (ffi_exec md call (Some c)))"
proof -
  note defs = signal_core_send_message_def signal_core_send_group_message_def signal_core_leave_group_def
    send_attachment_def send_file_attachment_def signal_core_cancel_attachment_def signal_core_set_typing_def
    signal_core_ack_message_def signal_core_accept_identity_def signal_core_dismiss_identity_def
    signal_core_reset_session_def signal_core_mark_read_def with_core_def
  show ?thesis
  proof (cases call)
    case (Call_Send_Message i r m)
    then show ?thesis by (auto simp: defs intro!: required_string_effect queue_effect)
  next
    case (Call_Send_Group_Message i g m)
    then show ?thesis by (auto simp: defs intro!: required_string_effect queue_effect)
  next
    case (Call_Leave_Group i g)
    then show ?thesis by (auto simp: defs intro!: required_string_effect queue_effect)
  next
    case (Call_Send_Attachment i input to_group)
    then show ?thesis
      by (auto simp: defs read_raw_parts_def split: option.split intro!: required_string_effect admit_effect)
  next
    case (Call_Send_File i r f t path to_group)
    then show ?thesis by (auto simp: defs split: option.split intro!: required_string_effect admit_effect)
  next
    case (Call_Cancel i)
    then show ?thesis by (auto simp: defs call_effect_def)
  next
    case (Call_Ack i)
    then show ?thesis by (auto simp: defs call_effect_def ack_submit_def)
  qed (auto simp: defs intro!: required_string_effect queue_effect)
qed

subsection \<open>A core in use\<close>

datatype core_op =
    Core_Call ffi_call
  | Core_Poll "read_outcome list"
  | Core_Take
  | Core_Ready bool
  | Core_Receiver_Gone

primrec core_exec :: "file_metadata \<Rightarrow> core_op \<Rightarrow> signal_core \<Rightarrow> signal_core" where
  "core_exec md (Core_Call call) c = the (snd (ffi_exec md call (Some c)))"
| "core_exec md (Core_Poll rs) c =
     (case signal_core_poll_event rs True (Some c) of Some (_, _, Some c1) \<Rightarrow> c1 | _ \<Rightarrow> c)"
| "core_exec md Core_Take c = c\<lparr>co_commands := (co_commands c)\<lparr>ch_queue := tl (ch_queue (co_commands c))\<rparr>\<rparr>"
| "core_exec md (Core_Ready flag) c = c\<lparr>co_ready := flag\<rparr>"
| "core_exec md Core_Receiver_Gone c = c\<lparr>co_commands := (co_commands c)\<lparr>ch_receiver := False, ch_queue := []\<rparr>\<rparr>"

definition channel_ok :: "command_channel \<Rightarrow> bool" where
  "channel_ok ch \<longleftrightarrow>
     list_all command_ok (ch_queue ch) \<and> length (ch_queue ch) \<le> ch_capacity ch \<and> ch_capacity ch = COMMAND_CHANNEL_CAPACITY"

lemma call_channel_ok:
  assumes "channel_ok (co_commands c)" "call_effect request c r"
  shows "channel_ok (co_commands (snd r))"
proof (cases "co_commands (snd r) = co_commands c")
  case False
  then obtain command where r: "co_commands (snd r) = slot_send command (co_commands c)" "command_ok command"
      "channel_try_reserve (co_commands c) = Send_Ok"
    using assms(2) by (auto simp: call_effect_def split: prod.splits option.splits if_splits)
  then show ?thesis
    using assms(1) by (auto simp: channel_ok_def slot_send_def channel_try_reserve_def split: if_splits)
qed (use assms in simp)

lemma poll_channel: "co_commands (core_exec md (Core_Poll rs) c) = co_commands c"
  by (auto simp: signal_core_poll_event_def Let_def split: option.split prod.split event_poll.split)

lemma core_exec_ok:
  assumes "channel_ok (co_commands c)"
  shows "channel_ok (co_commands (core_exec md x c))"
proof (cases x)
  case (Core_Call call)
  then show ?thesis
    using call_channel_ok [OF assms conjunct2 [OF ffi_exec_effect]] by simp
next
  case (Core_Poll rs)
  then show ?thesis using assms by (simp add: poll_channel del: core_exec.simps)
next
  case Core_Take
  then show ?thesis using assms by (cases "ch_queue (co_commands c)") (auto simp: channel_ok_def)
qed (use assms in \<open>simp_all add: channel_ok_def\<close>)

interpretation plugin_core: op_system "core_exec md" "\<lambda>c. channel_ok (co_commands c)"
  by unfold_locales (rule core_exec_ok)

text \<open>
  C11. Whatever the plugin passes, every command that waits for the worker is well formed: its texts
  are non-empty UTF-8 without NUL bytes and within their limits, a group is named by the 64 hexadecimal
  digits of its identifier, leaving and attachments carry a request id, a read receipt carries a
  timestamp, an attachment holds an unused permit of its own request, and inline data is neither empty
  nor larger than an attachment may be. At most 128 commands wait.
\<close>

theorem queued_commands_well_formed:
  "let c = fold (core_exec md) ops (new_core events)
   in list_all command_ok (ch_queue (co_commands c)) \<and> length (ch_queue (co_commands c)) \<le> 128"
proof -
  have "channel_ok (co_commands (fold (core_exec md) ops (new_core events)))"
    by (rule plugin_core.run_inv_all) (simp add: new_core_def channel_ok_def COMMAND_CHANNEL_CAPACITY_def)
  then show ?thesis by (simp add: Let_def channel_ok_def COMMAND_CHANNEL_CAPACITY_def)
qed

text \<open>
  C10. A call takes effect exactly when it returns OK: on a null core it is refused; on a live core
  it either returns OK, and then has queued exactly one well-formed command with the request id it was given (a cancellation and an
  acknowledgment queue none), or returns another status, and then the channel, the acknowledgments and
  the requests and bytes of the attachment admission are what they were, also when an admitted attachment found the channel full.
\<close>

theorem call_takes_effect_iff_ok:
  "ffi_exec md call None = (Invalid_Argument, None) \<and>
   (case ffi_exec md call (Some c) of
      (status, Some c1) \<Rightarrow>
        if status = Status_Ok then
          (case call_request call of
             None \<Rightarrow> co_commands c1 = co_commands c
           | Some i \<Rightarrow>
               \<exists>command. ch_queue (co_commands c1) = ch_queue (co_commands c) @ [command] \<and>
                 command_ok command \<and> command_request command = i)
        else co_commands c1 = co_commands c \<and> co_acknowledgments c1 = co_acknowledgments c \<and>
          ad_requests (co_attachments c1) = ad_requests (co_attachments c) \<and>
          ad_bytes (co_attachments c1) = ad_bytes (co_attachments c)
    | (status, None) \<Rightarrow> False)"
proof -
  obtain status c1 where r: "ffi_exec md call (Some c) = (status, Some c1)"
    using ffi_exec_effect [of md call c] by (cases "ffi_exec md call (Some c)") auto
  have "call_effect (call_request call) c (status, c1)" using ffi_exec_effect [of md call c] r by simp
  then show ?thesis
    by (auto simp: r call_effect_def slot_send_grows(1) split: option.splits if_splits)
qed

end
