(* ===== verification/Launch.thy ===== *)
theory Launch
  imports Worker Ffi
begin

section \<open>The life of the worker thread (backend/worker.rs)\<close>

text \<open>
  What happens before and after the connection loop: opening the encrypted store, loading or linking
  the device, and the end of the thread, which closes what the plugin shares with it. The store, the
  protocol library and the encoders are parameters; when the shutdown arrives is given as the number of
  operations completed before it.
\<close>

subsection \<open>The avatar cache\<close>

text \<open>\<^verbatim>\<open>Path::join\<close> with a relative name.\<close>

definition path_join :: "string \<Rightarrow> string \<Rightarrow> string" where
  "path_join p name = (if p = [] \<or> last p = CHR ''/'' then p @ name else p @ [CHR ''/''] @ name)"

text \<open>
  Without a directory the cache lives in memory only. The files a directory already holds are given by
  \<open>disk\<close>; the result of setting its permissions is ignored.
\<close>

definition avatar_cache_new :: "'w file_system \<Rightarrow> (string \<Rightarrow> string \<rightharpoonup> bytes) \<Rightarrow> string option \<Rightarrow> ('w, avatar_cache) io" where
  "avatar_cache_new fs disk store_path w =
     (let memory_only = \<lparr>av_cache_dir = False, av_mem_cache = Map.empty, av_disk = Map.empty\<rparr>
      in case Option.bind store_path (fs_parent fs) of
           None \<Rightarrow> (memory_only, w)
         | Some parent \<Rightarrow>
             let dir = path_join parent ''avatar_cache''
             in (case fs_create_dir_all fs dir w of
                   (Inl _, w1) \<Rightarrow> (memory_only, w1)
                 | (Inr _, w1) \<Rightarrow>
                     (\<lparr>av_cache_dir = True, av_mem_cache = Map.empty, av_disk = disk dir\<rparr>,
                      snd (fs_set_permissions fs dir STORE_DIRECTORY_MODE w1))))"

subsection \<open>Before the connection loop\<close>

record ('w, 'img) launch_services =
  la_worker :: "('w, 'img) worker_services"
  la_files :: "'w file_system"
  la_disk :: "string \<Rightarrow> string \<rightharpoonup> bytes"
  la_open :: "string \<Rightarrow> string \<Rightarrow> ('w, unit rresult) io"
  la_is_registered :: "('w, bool) io"
  la_load_registered :: "('w, unit rresult) io"
  la_encode_qr :: "bytes \<Rightarrow> qr_code rresult"
  la_encode_png :: "u32 \<Rightarrow> bytes \<Rightarrow> bytes rresult"

text \<open>\<^verbatim>\<open>await_or_shutdown\<close> of one operation: \<open>None\<close> when the shutdown has arrived.\<close>

definition await_or_shutdown :: "nat option \<Rightarrow> ('w, 'a) io \<Rightarrow> 'w \<Rightarrow> 'a option \<times> nat option \<times> 'w" where
  "await_or_shutdown limit f w =
     (case limit of
        Some 0 \<Rightarrow> (None, limit, w)
      | _ \<Rightarrow> (case f w of (r, w1) \<Rightarrow> (Some r, map_option (\<lambda>n. n - 1) limit, w1)))"

definition open_encrypted_store ::
  "('w, 'img) launch_services \<Rightarrow> nat option \<Rightarrow> string \<Rightarrow> string \<Rightarrow> 'w \<Rightarrow> bool rresult \<times> nat option \<times> 'w" where
  "open_encrypted_store la limit store_path passphrase w =
     (case await_or_shutdown limit (la_open la store_path passphrase) w of
        (None, rest) \<Rightarrow> (Inr False, rest)
      | (Some (Inr _), rest) \<Rightarrow> (Inr True, rest)
      | (Some (Inl error), rest) \<Rightarrow> (Inl (''Could not open encrypted Signal store: '' @ error), rest))"

text \<open>
  The turns of the linking loop: the address to show arrives, or its sender is dropped; the library
  finishes; the shutdown arrives. The outer \<open>None\<close> is a loop that has not returned.
\<close>

datatype link_turn = Link_Url "string option" | Link_Finished "unit rresult" | Link_Shutdown

datatype launch_flow = Launch_Loop | Launch_End "unit rresult" | Launch_Panic

definition link_code_event :: "string \<Rightarrow> bytes rresult \<Rightarrow> event" where
  "link_code_event uri rendered =
     (case rendered of
        Inr data \<Rightarrow> event_default\<lparr>ev_kind := EVENT_LINK_QR, ev_text := Some uri, ev_data := data\<rparr>
      | Inl error \<Rightarrow> event_error (''Could not render the linking QR code: '' @ error) True)"

fun link_device ::
  "('w, 'img) launch_services \<Rightarrow> link_turn list \<Rightarrow> bool \<Rightarrow> event list \<Rightarrow> (launch_flow \<times> event list) option" where
  "link_device la [] qr_finished events = None"
| "link_device la (Link_Finished (Inr _) # turns) qr_finished events = Some (Launch_Loop, events)"
| "link_device la (Link_Finished (Inl error) # turns) qr_finished events =
     Some (Launch_End (Inl (''Signal device linking failed: '' @ error)), events)"
| "link_device la (Link_Shutdown # turns) qr_finished events = Some (Launch_End (Inr ()), events)"
| "link_device la (Link_Url url # turns) qr_finished events =
     (if qr_finished then link_device la turns True events
      else
        case url of
          None \<Rightarrow> link_device la turns True events
        | Some uri \<Rightarrow>
            (case qr_png (la_encode_qr la) (la_encode_png la) (ascii_bytes uri) of
               None \<Rightarrow> Some (Launch_Panic, events)
             | Some rendered \<Rightarrow> link_device la turns True (events @ [link_code_event uri rendered])))"

definition run_launch ::
  "('w, 'img) launch_services \<Rightarrow> nat option \<Rightarrow> link_turn list \<Rightarrow> worker_config \<Rightarrow> 'w \<Rightarrow>
     (launch_flow \<times> event list) option \<times> 'w" where
  "run_launch la limit turns config w =
     (case open_encrypted_store la limit (wc_store_path config) (wc_passphrase config) w of
        (Inl error, _, w1) \<Rightarrow> (Some (Launch_End (Inl error), []), w1)
      | (Inr False, _, w1) \<Rightarrow> (Some (Launch_End (Inr ()), []), w1)
      | (Inr True, limit1, w1) \<Rightarrow>
          (case await_or_shutdown limit1 (la_is_registered la) w1 of
             (None, _, w2) \<Rightarrow> (Some (Launch_End (Inr ()), []), w2)
           | (Some False, _, w2) \<Rightarrow> (link_device la turns False [], w2)
           | (Some True, limit2, w2) \<Rightarrow>
               (case await_or_shutdown limit2 (la_load_registered la) w2 of
                  (None, _, w3) \<Rightarrow> (Some (Launch_End (Inr ()), []), w3)
                | (Some (Inl error), _, w3) \<Rightarrow>
                    (Some (Launch_End (Inl (''Could not load linked Signal device: '' @ error)), []), w3)
                | (Some (Inr _), _, w3) \<Rightarrow> (Some (Launch_Loop, []), w3))))"

text \<open>
  \<^verbatim>\<open>run\<close> up to the first wait of the connection loop: \<open>limit\<close> says when the shutdown arrives during the
  launch, \<open>lim\<close> during the start of the loop. The events of the launch precede those of the loop.
\<close>

definition run_start ::
  "('w, 'img) launch_services \<Rightarrow> nat option \<Rightarrow> turn_limits \<Rightarrow> link_turn list \<Rightarrow> worker_config \<Rightarrow> ack_inbox \<Rightarrow>
     attachment_admission \<Rightarrow> 'w \<Rightarrow> 'w worker option" where
  "run_start la limit lim turns config inbox admission w =
     (case avatar_cache_new (la_files la) (la_disk la) (Some (wc_store_path config)) w of
        (avatars, w1) \<Rightarrow>
          (case run_launch la limit turns config w1 of
             (None, _) \<Rightarrow> None
           | (Some (flow, events), w2) \<Rightarrow>
               let ended = (\<lambda>pos. \<lparr>wk_position = pos, wk_connection = connection_new inbox admission avatars w2\<rparr>);
                   wk = (case flow of
                           Launch_Loop \<Rightarrow>
                             receive_and_command_loop (la_worker la) lim inbox admission avatars w2
                         | Launch_End r \<Rightarrow> ended (At_End r)
                         | Launch_Panic \<Rightarrow> ended At_Panic)
               in Some (wk\<lparr>wk_connection :=
                     on_backend (\<lambda>b. b\<lparr>bk_events := events @ bk_events b\<rparr>) (wk_connection wk)\<rparr>)))"

subsection \<open>The end of the thread\<close>

text \<open>
  Dropping the session drops the permits of the tasks and of the commands that were never served.
\<close>

definition drop_command :: "command \<Rightarrow> 'w attachment_tasks \<Rightarrow> 'w attachment_tasks" where
  "drop_command command s = (case command of Send_Attachment _ _ _ _ _ _ permit \<Rightarrow> at_drop permit s | _ \<Rightarrow> s)"

definition drop_session :: "'w connection \<Rightarrow> 'w connection" where
  "drop_session c =
     c\<lparr>cn_tasks := drop_tasks (fold drop_command (cn_deferred c @ cn_commands c) (cn_tasks c)),
       cn_deferred := [], cn_commands := []\<rparr>"

definition BACKEND_PANICKED :: string where
  "BACKEND_PANICKED = ''The Signal backend panicked''"

definition run_worker_end :: "'w worker \<Rightarrow> 'w worker" where
  "run_worker_end w =
     (let c = (close_acknowledgments (drop_session (wk_connection w)))\<lparr>cn_ready := False\<rparr>
      in w\<lparr>wk_connection :=
           (case wk_position w of
              At_End (Inl error) \<Rightarrow> on_backend (emit (event_error error True)) c
            | At_Panic \<Rightarrow> on_backend (emit (event_error BACKEND_PANICKED True)) c
            | _ \<Rightarrow> c)\<rparr>)"

end
