(* ===== verification/Attachment_Answers.thy ===== *)
theory Attachment_Answers
  imports Attachment_Tasks
begin

section \<open>Every attachment request is answered once\<close>

text \<open>
  The steps that report results and stop the tasks settle the requests, and with the other steps of the system so
  does every run: a request that ends is answered exactly once, or the plugin cancelled it.
\<close>

subsection \<open>Reporting results\<close>

text \<open>The event that reports the result of a task.\<close>

definition task_events :: "attachment_task \<Rightarrow> event list" where
  "task_events t =
     (case tk_result t of
        Some (Task_Finished (Inr _)) \<Rightarrow>
          [event_default\<lparr>ev_kind := EVENT_ATTACHMENT_SENT, ev_request_id := pm_request_id (tk_permit t)\<rparr>]
      | Some (Task_Finished (Inl error)) \<Rightarrow> [request_error (pm_request_id (tk_permit t)) error]
      | _ \<Rightarrow> [])"

lemma task_result_cases:
  obtains "r = None" | "r = Some Task_Cancelled" | m where "r = Some (Task_Finished (Inr m))"
  | e where "r = Some (Task_Finished (Inl e))"
  by (metis attachment_task_result.exhaust option.exhaust sum.exhaust)

lemma task_events_ids: "e \<in> set (task_events t) \<Longrightarrow> ev_request_id e = fst (task_pair t)"
  by (cases "tk_result t" rule: task_result_cases) (auto simp: task_events_def task_pair_def)

lemma task_events_settle:
  assumes "task_ok st t" "tk_result t \<noteq> None"
  shows "length (task_events t) = 1 \<or> task_events t = [] \<and> is_cancelled (snd (task_pair t)) st"
  using assms by (cases "tk_result t" rule: task_result_cases) (auto simp: task_events_def task_ok_def task_pair_def)

lemma finish_task:
  "finish_attachment_completion (task_completion t) aborts b = (sent, aborts1, b1) \<Longrightarrow>
     aborts1 = filter (\<lambda>ic. tk_result t = None \<or> fst ic \<noteq> fst (task_pair t)) aborts \<and>
     bk_events b1 = bk_events b @ task_events t"
  by (cases "tk_result t" rule: task_result_cases)
     (auto simp: finish_attachment_completion_def task_completion_def task_events_def task_pair_def Let_def delete_filter)

lemma identity_changes_calm: "calm b (emit_identity_changes st b)"
proof (cases "perform (sq_identity_change_notices st) b")
  case (Pair r b1)
  have "calm b1 (fold (\<lambda>change. emit (identity_change_event change)) changes b1)" for changes
  proof (induction changes arbitrary: b1)
    case (Cons c cs)
    have "ev_request_id (identity_change_event c) = 0" by (simp add: identity_change_event_def event_default_def)
    then have "calm b1 (emit (identity_change_event c) b1)" by (intro calm_emit) auto
    with Cons.IH show ?case using calm_trans by fastforce
  qed simp
  then show ?thesis
    using calm_trans [OF calm_same [OF perform_same [OF Pair]]]
    by (auto simp: emit_identity_changes_def Pair split: sum.split intro!: calm_emit)
qed

lemma mark_sent_fold_calm: "calm b (fold (mark_sent_message_projected_or_report sv) ms b)"
  by (induction ms arbitrary: b) (auto intro: calm_trans mark_sent_calm)

lemma calm_events: "calm b c \<Longrightarrow> \<exists>zs. bk_events c = bk_events b @ zs \<and> list_all (\<lambda>e. ev_request_id e = 0) zs"
  by (auto simp: calm_def quiet_def)

lemma events_for_absent: "i \<notin> set (map ev_request_id es) \<Longrightarrow> events_for i es = []"
  by (induction es) (auto simp: events_for_def)

text \<open>Removing some tasks, each with its own events, settles the requests.\<close>

lemma remove_tasks:
  assumes inv: "att_inv s" and "gone = (\<lambda>t. \<not> keep t)"
    and s1: "at_queue s1 = at_queue s" "at_tasks s1 = filter keep (at_tasks s)" "at_aborts s1 = map task_pair (at_tasks s1)"
      "keeps (snd ` task_pair ` {t \<in> set (at_tasks s). gone t}) (controls s) (controls s1)"
      "request_ids (at_admission s1) = request_ids (at_admission s) - fst ` task_pair ` {t \<in> set (at_tasks s). gone t}"
    and ev: "at_events s1 = at_events s @ new"
      "\<And>t. t \<in> set (at_tasks s) \<Longrightarrow> gone t \<Longrightarrow> length (events_for (fst (task_pair t)) new) = 1 \<or>
         events_for (fst (task_pair t)) new = [] \<and> is_cancelled (snd (task_pair t)) (controls s1)"
      "set (map ev_request_id new) \<subseteq> insert 0 (fst ` task_pair ` {t \<in> set (at_tasks s). gone t})"
  shows "att_inv s1 \<and> settles s s1"
proof
  let ?gone = "{t \<in> set (at_tasks s). gone t}"
  have "distinct (map (fst \<circ> task_pair) (at_tasks s))" "distinct (map (snd \<circ> task_pair) (at_tasks s))"
    using inv by (simp_all add: att_inv_def pending_def)
  then have inj: "inj_on (fst \<circ> task_pair) (set (at_tasks s))" "inj_on (snd \<circ> task_pair) (set (at_tasks s))"
    by (simp_all add: distinct_map)
  have dist: "distinct (map fst (pending s1))" "distinct (map snd (pending s1))"
    using inv by (auto simp: att_inv_def pending_def s1(1,2) distinct_map_filter)
  have apart: "fst ic \<notin> fst ` task_pair ` ?gone" "snd ic \<notin> snd ` task_pair ` ?gone" if ic: "ic \<in> set (pending s1)" for ic
  proof -
    consider t where "t \<in> set (at_tasks s)" "keep t" "ic = task_pair t" | "ic \<in> queue_pair ` set (at_queue s)"
      using ic s1(1,2) by (auto simp: pending_def)
    then have "fst ic \<notin> fst ` task_pair ` ?gone \<and> snd ic \<notin> snd ` task_pair ` ?gone"
    proof cases
      case 1
      then show ?thesis using inj(1,2) assms(2) by (auto simp: inj_on_def)
    next
      case 2
      have "set (map fst (map queue_pair (at_queue s))) \<inter> set (map fst (map task_pair (at_tasks s))) = {}"
        "set (map snd (map queue_pair (at_queue s))) \<inter> set (map snd (map task_pair (at_tasks s))) = {}"
        using inv by (simp_all add: att_inv_def pending_def)
      then show ?thesis using 2 by (auto simp: image_iff)
    qed
    then show "fst ic \<notin> fst ` task_pair ` ?gone" "snd ic \<notin> snd ` task_pair ` ?gone" by auto
  qed
  have sub: "set (pending s1) \<subseteq> set (pending s)" using s1(1,2) by (auto simp: pending_def)
  have ids: "fst ` set (pending s1) \<subseteq> request_ids (at_admission s1)"
  proof (rule image_subsetI)
    fix ic assume ic: "ic \<in> set (pending s1)"
    then have "fst ic \<in> request_ids (at_admission s)" using inv sub unfolding att_inv_def by blast
    then show "fst ic \<in> request_ids (at_admission s1)" using apart(1) [OF ic] unfolding s1(5) by (rule DiffI)
  qed
  have free: "snd ` task_pair ` ?gone \<inter> snd ` set (pending s1) = {}"
  proof (rule equals0I)
    fix c assume c: "c \<in> snd ` task_pair ` ?gone \<inter> snd ` set (pending s1)"
    then obtain ic where ic: "ic \<in> set (pending s1)" "c = snd ic" by (elim IntE imageE) simp
    from c have "snd ic \<in> snd ` task_pair ` ?gone" unfolding ic(2) by (rule IntD1)
    with apart(2) [OF ic(1)] show False by (rule notE)
  qed
  show "att_inv s1"
    by (rule att_inv_step [OF inv _ _ dist s1(3) s1(4) free ids]) (simp_all add: s1(1,2))
  have "settled_by new s1 ic" if "ic \<in> set (pending s1)" for ic
  proof -
    have "fst ic \<noteq> 0" using inv sub that unfolding att_inv_def by blast
    then have "fst ic \<notin> set (map ev_request_id new)" using ev(3) apart(1) [OF that] by blast
    then show ?thesis using that events_for_absent by (simp add: settled_by_def)
  qed
  moreover have "settled_by new s1 (task_pair t)" if "t \<in> ?gone" for t
    using ev(2) [of t] apart(1) [of "task_pair t"] that by (auto simp: settled_by_def)
  moreover have "set (pending s) = set (pending s1) \<union> task_pair ` ?gone"
    using s1(1,2) assms(2) by (auto simp: pending_def)
  ultimately have "list_all (settled_by new s1) (pending s)" by (auto simp: list_all_iff)
  moreover have "set (map ev_request_id new) \<subseteq> insert 0 (fst ` set (pending s))"
    using ev(3) by (auto simp: pending_def)
  ultimately show "settles s s1" unfolding settles_def using ev(1) by blast
qed

lemma task_events_for:
  "events_for i (task_events t) = (if i = fst (task_pair t) then task_events t else [])"
  using task_events_ids [of _ t] by (auto simp: events_for_def filter_id_conv filter_empty_conv)

lemma events_for_tasks:
  assumes "distinct (map (fst \<circ> task_pair) ts)"
  shows "t \<in> set ts \<Longrightarrow> events_for (fst (task_pair t)) (concat (map task_events ts)) = task_events t"
    and "i \<notin> (fst \<circ> task_pair) ` set ts \<Longrightarrow> events_for i (concat (map task_events ts)) = []"
proof -
  show absent: "i \<notin> (fst \<circ> task_pair) ` set us \<Longrightarrow> events_for i (concat (map task_events us)) = []" for i us
    by (induction us) (auto simp: task_events_for, simp add: events_for_def)
  show "t \<in> set ts \<Longrightarrow> events_for (fst (task_pair t)) (concat (map task_events ts)) = task_events t"
    using assms
  proof (induction ts)
    case (Cons u us)
    show ?case
    proof (cases "t = u")
      case True
      then show ?thesis using Cons.prems absent [of "fst (task_pair u)" us] by (simp add: task_events_for)
    next
      case False
      then have t: "t \<in> set us" using Cons.prems by simp
      then have "fst (task_pair t) \<noteq> fst (task_pair u)" using Cons.prems by (auto simp: image_iff)
      then show ?thesis using Cons.IH [OF t] Cons.prems by (simp add: task_events_for)
    qed
  qed simp
qed

lemma join_ok:
  assumes inv: "att_inv s"
  shows "att_inv (attachment_exec sv st (Att_Join i) s) \<and> settles s (attachment_exec sv st (Att_Join i) s)"
proof (cases "find (\<lambda>t. pm_request_id (tk_permit t) = i \<and> tk_result t \<noteq> None) (at_tasks s)")
  case None
  then show ?thesis using inv by (simp add: join_task_def settles_quiet)
next
  case (Some t)
  then have t: "t \<in> set (at_tasks s)" "fst (task_pair t) = i" "tk_result t \<noteq> None"
    by (auto dest!: find_SomeD simp: task_pair_def)
  obtain sent aborts b1 where f: "finish_attachment_completion (task_completion t) (at_aborts s) (at_backend s) = (sent, aborts, b1)"
    by (cases "finish_attachment_completion (task_completion t) (at_aborts s) (at_backend s)")
  let ?b2 = "case sent of Some m \<Rightarrow> mark_sent_message_projected_or_report sv m b1 | None \<Rightarrow> b1"
  have "calm b1 ?b2" using mark_sent_calm by (auto split: option.split)
  then have "calm b1 (emit_identity_changes st ?b2)" by (rule calm_trans [OF _ identity_changes_calm])
  then obtain zs where zs: "bk_events (emit_identity_changes st ?b2) = bk_events b1 @ zs" "list_all (\<lambda>e. ev_request_id e = 0) zs"
    using calm_events by blast
  have "distinct (map (fst \<circ> task_pair) (at_tasks s))" using inv by (simp add: att_inv_def pending_def)
  then have "inj_on (fst \<circ> task_pair) (set (at_tasks s))" by (simp add: distinct_map)
  then have gone: "{u \<in> set (at_tasks s). pm_request_id (tk_permit u) = i} = {t}"
    using t by (auto simp: inj_on_def task_pair_def)
  have i: "i \<noteq> 0" using inv t by (auto simp: att_inv_def pending_def)
  have ev: "events_for i (task_events t @ zs) = task_events t"
    using events_for_unrelated [OF zs(2) i] t(2) by (simp add: task_events_for)
  show ?thesis
  proof (rule remove_tasks [OF inv refl, of _ "\<lambda>u. pm_request_id (tk_permit u) \<noteq> i" "task_events t @ zs"])
    let ?s1 = "attachment_exec sv st (Att_Join i) s"
    have s1: "?s1 = at_drop (tk_permit t) (s\<lparr>at_aborts := aborts, at_backend := emit_identity_changes st ?b2,
        at_tasks := filter (\<lambda>u. pm_request_id (tk_permit u) \<noteq> i) (at_tasks s)\<rparr>)"
      using Some f by (simp add: join_task_def handle_attachment_completion_def split: option.split)
    show "at_queue ?s1 = at_queue s" "at_tasks ?s1 = filter (\<lambda>u. pm_request_id (tk_permit u) \<noteq> i) (at_tasks s)"
      unfolding s1 by (simp_all add: at_drop_def)
    show "at_aborts ?s1 = map task_pair (at_tasks ?s1)"
      using finish_task [OF f] t inv unfolding s1 by (simp add: at_drop_def att_inv_def filter_map comp_def task_pair_def)
    show "keeps (snd ` task_pair ` {u \<in> set (at_tasks s). \<not> pm_request_id (tk_permit u) \<noteq> i}) (controls s) (controls ?s1)"
      unfolding s1 by (simp add: at_drop_def)
    show "request_ids (at_admission ?s1) = request_ids (at_admission s) -
        fst ` task_pair ` {u \<in> set (at_tasks s). \<not> pm_request_id (tk_permit u) \<noteq> i}"
      using gone unfolding s1 by (simp add: at_drop_def task_pair_def)
    show "at_events ?s1 = at_events s @ task_events t @ zs" using finish_task [OF f] zs(1) unfolding s1 by (simp add: at_drop_def)
    show "set (map ev_request_id (task_events t @ zs)) \<subseteq>
        insert 0 (fst ` task_pair ` {u \<in> set (at_tasks s). \<not> pm_request_id (tk_permit u) \<noteq> i})"
      using task_events_ids [of _ t] zs(2) gone by (auto simp: list_all_iff)
    fix u assume "u \<in> set (at_tasks s)" "\<not> pm_request_id (tk_permit u) \<noteq> i"
    then have "u = t" using gone by auto
    moreover have "task_ok (controls ?s1) t" using inv t unfolding s1 by (simp add: at_drop_def att_inv_def)
    ultimately show "length (events_for (fst (task_pair u)) (task_events t @ zs)) = 1 \<or>
        events_for (fst (task_pair u)) (task_events t @ zs) = [] \<and> is_cancelled (snd (task_pair u)) (controls ?s1)"
      using task_events_settle [of _ t] t ev by metis
  qed
qed

subsection \<open>Stopping the tasks\<close>

lemma keeps_mono: "keeps X st st1 \<Longrightarrow> X \<subseteq> Y \<Longrightarrow> keeps Y st st1"
  unfolding keeps_def by blast

definition interruptions :: "control_store \<Rightarrow> (u64 \<times> control_ref) list \<Rightarrow> event list" where
  "interruptions st ics =
     map (\<lambda>ic. request_error (fst ic) ATTACHMENT_INTERRUPTED) (filter (\<lambda>ic. \<not> is_cancelled (snd ic) st) ics)"

lemma interrupt_attachment_state:
  "at_events (interrupt_attachment ic s) = at_events s @ interruptions (controls s) [ic]"
  "is_cancelled d (controls (interrupt_attachment ic s)) = is_cancelled d (controls s)"
  "keeps {snd ic} (controls s) (controls (interrupt_attachment ic s))"
  "ad_requests (at_admission (interrupt_attachment ic s)) = ad_requests (at_admission s)"
  "at_queue (interrupt_attachment ic s) = at_queue s" "at_tasks (interrupt_attachment ic s) = at_tasks s"
  using claim_cancelled [of d "snd ic" "controls s"] keeps_claim [of "snd ic" "controls s"]
  by (simp_all add: interrupt_attachment_def interrupted_attachment_event_def interruptions_def at_emit_def)

lemma interrupt_fold:
  "at_events (fold interrupt_attachment ics s) = at_events s @ interruptions (controls s) ics \<and>
   (\<forall>d. is_cancelled d (controls (fold interrupt_attachment ics s)) = is_cancelled d (controls s)) \<and>
   keeps (snd ` set ics) (controls s) (controls (fold interrupt_attachment ics s)) \<and>
   ad_requests (at_admission (fold interrupt_attachment ics s)) = ad_requests (at_admission s) \<and>
   at_queue (fold interrupt_attachment ics s) = at_queue s \<and> at_tasks (fold interrupt_attachment ics s) = at_tasks s"
proof (induction ics arbitrary: s)
  case (Cons ic ics)
  note one = interrupt_attachment_state [where ic = ic and s = s]
  have same: "interruptions (controls (interrupt_attachment ic s)) ics = interruptions (controls s) ics"
    by (simp add: interruptions_def one)
  have "keeps (snd ` set (ic # ics)) (controls s) (controls (interrupt_attachment ic s))"
    using one(3) by (rule keeps_mono) simp
  moreover have "keeps (snd ` set (ic # ics)) (controls (interrupt_attachment ic s))
      (controls (fold interrupt_attachment (ic # ics) s))"
    by (rule keeps_mono [of "snd ` set ics"]) (use Cons.IH [of "interrupt_attachment ic s"] in auto)
  ultimately have "keeps (snd ` set (ic # ics)) (controls s) (controls (fold interrupt_attachment (ic # ics) s))"
    by (rule keeps_trans)
  moreover have "interruptions (controls s) (ic # ics) = interruptions (controls s) [ic] @ interruptions (controls s) ics"
    by (simp add: interruptions_def)
  ultimately show ?case
    using Cons.IH [of "interrupt_attachment ic s"] by (simp add: one same)
qed (simp add: interruptions_def)

lemma interruptions_for:
  assumes "distinct (map fst ics)"
  shows "(i, c) \<in> set ics \<Longrightarrow> length (events_for i (interruptions st ics)) = 1 \<or>
      events_for i (interruptions st ics) = [] \<and> is_cancelled c st"
    and "i \<notin> fst ` set ics \<Longrightarrow> events_for i (interruptions st ics) = []"
proof -
  show absent: "i \<notin> fst ` set jcs \<Longrightarrow> events_for i (interruptions st jcs) = []" for jcs
    by (rule events_for_absent) (auto simp: interruptions_def)
  show "(i, c) \<in> set ics \<Longrightarrow> length (events_for i (interruptions st ics)) = 1 \<or>
      events_for i (interruptions st ics) = [] \<and> is_cancelled c st"
    using assms
  proof (induction ics)
    case (Cons jd ics)
    have split: "interruptions st (jd # ics) = interruptions st [jd] @ interruptions st ics" by (simp add: interruptions_def)
    show ?case
    proof (cases "jd = (i, c)")
      case True
      then show ?thesis
        using Cons.prems absent [of ics] unfolding split by (auto simp: interruptions_def events_for_def)
    next
      case False
      then have "(i, c) \<in> set ics" using Cons.prems by simp
      moreover from this have "i \<in> set (map fst ics)" by force
      moreover have "fst jd \<notin> set (map fst ics)" using Cons.prems(2) by simp
      ultimately have "(i, c) \<in> set ics" "i \<noteq> fst jd" by metis+
      then show ?thesis
        using Cons.IH Cons.prems(2) absent [of "[jd]"] unfolding split by auto
    qed
  qed simp
qed

lemma task_ids: "(\<lambda>t. pm_request_id (tk_permit t)) ` A = fst ` task_pair ` A"
  by (simp add: task_pair_def image_image)

lemma abandon_ok:
  assumes inv: "att_inv s"
  shows "att_inv (abandon_timed_out_attachments s) \<and> settles s (abandon_timed_out_attachments s)"
proof -
  let ?d = "drop_tasks s" and ?s1 = "abandon_timed_out_attachments s"
  have d: "controls ?d = controls s" "at_queue ?d = at_queue s" "at_aborts ?d = at_aborts s" "at_events ?d = at_events s"
    "request_ids (at_admission ?d) = request_ids (at_admission s) - fst ` task_pair ` set (at_tasks s)"
    unfolding drop_tasks_def fold_drop by (simp_all add: fold_permit_drop task_ids)
  have s1: "?s1 = (fold interrupt_attachment (at_aborts s) ?d)\<lparr>at_aborts := []\<rparr>"
    by (simp add: abandon_timed_out_attachments_def interrupt_remaining_attachments_def d)
  note int = interrupt_fold [of "at_aborts s" ?d, unfolded d]
  have pairs: "at_aborts s = map task_pair (at_tasks s)" "distinct (map fst (at_aborts s))"
    using inv by (auto simp: att_inv_def pending_def)
  show ?thesis
  proof (rule remove_tasks [OF inv refl, of _ "\<lambda>_. False" "interruptions (controls s) (at_aborts s)"])
    show "at_queue ?s1 = at_queue s" "at_tasks ?s1 = filter (\<lambda>_. False) (at_tasks s)" "at_aborts ?s1 = map task_pair (at_tasks ?s1)"
      "at_events ?s1 = at_events s @ interruptions (controls s) (at_aborts s)"
      using int by (simp_all add: s1 drop_tasks_def)
    show "keeps (snd ` task_pair ` {t \<in> set (at_tasks s). \<not> False}) (controls s) (controls ?s1)"
      using int pairs(1) by (simp add: s1)
    show "request_ids (at_admission ?s1) = request_ids (at_admission s) - fst ` task_pair ` {t \<in> set (at_tasks s). \<not> False}"
      using int d(5) by (simp add: s1)
    show "set (map ev_request_id (interruptions (controls s) (at_aborts s))) \<subseteq>
        insert 0 (fst ` task_pair ` {t \<in> set (at_tasks s). \<not> False})"
      using pairs(1) by (auto simp: interruptions_def)
    fix t assume "t \<in> set (at_tasks s)"
    then have "(fst (task_pair t), snd (task_pair t)) \<in> set (at_aborts s)" unfolding pairs(1) by simp
    then show "length (events_for (fst (task_pair t)) (interruptions (controls s) (at_aborts s))) = 1 \<or>
        events_for (fst (task_pair t)) (interruptions (controls s) (at_aborts s)) = [] \<and>
        is_cancelled (snd (task_pair t)) (controls ?s1)"
      using interruptions_for(1) [OF pairs(2), of _ _ "controls s"] int by (simp add: s1)
  qed
qed

lemma finish_fold:
  assumes "fold finish_completion (map task_completion ts) (ms, s) = (ms1, s1)"
  shows "at_aborts s1 = filter (\<lambda>ic. fst ic \<notin> fst ` task_pair ` {t \<in> set ts. tk_result t \<noteq> None}) (at_aborts s) \<and>
    at_events s1 = at_events s @ concat (map task_events ts) \<and> controls s1 = controls s \<and>
    request_ids (at_admission s1) = request_ids (at_admission s) - fst ` task_pair ` {t \<in> set ts. tk_result t \<noteq> None} \<and>
    at_queue s1 = at_queue s \<and> at_tasks s1 = at_tasks s"
  using assms
proof (induction ts arbitrary: ms s)
  case (Cons t ts)
  obtain sent aborts b1 where f: "finish_attachment_completion (task_completion t) (at_aborts s) (at_backend s) = (sent, aborts, b1)"
    by (cases "finish_attachment_completion (task_completion t) (at_aborts s) (at_backend s)")
  let ?s0 = "s\<lparr>at_aborts := aborts, at_backend := b1\<rparr>"
  let ?s2 = "case task_completion t of Some c \<Rightarrow> at_drop (ac_permit c) ?s0 | None \<Rightarrow> ?s0"
  let ?one = "if tk_result t = None then {} else {t}"
  have "finish_completion (task_completion t) (ms, s) = (ms @ (case sent of Some m \<Rightarrow> [m] | None \<Rightarrow> []), ?s2)"
    using f by (simp add: finish_completion_def Let_def)
  with Cons.prems have step: "fold finish_completion (map task_completion ts)
      (ms @ (case sent of Some m \<Rightarrow> [m] | None \<Rightarrow> []), ?s2) = (ms1, s1)" by simp
  have one: "at_aborts ?s2 = filter (\<lambda>ic. fst ic \<notin> fst ` task_pair ` ?one) (at_aborts s) \<and>
      at_events ?s2 = at_events s @ task_events t \<and> controls ?s2 = controls s \<and>
      request_ids (at_admission ?s2) = request_ids (at_admission s) - fst ` task_pair ` ?one \<and>
      at_queue ?s2 = at_queue s \<and> at_tasks ?s2 = at_tasks s"
  proof (cases "tk_result t")
    case None
    then have "?s2 = ?s0" by (simp add: task_completion_def)
    then show ?thesis using finish_task [OF f] None by simp
  next
    case (Some r)
    then have "?s2 = at_drop (tk_permit t) ?s0" by (simp add: task_completion_def)
    then show ?thesis using finish_task [OF f] Some by (simp add: at_drop_def task_pair_def)
  qed
  have ids: "fst ` task_pair ` {u \<in> set (t # ts). tk_result u \<noteq> None} =
      fst ` task_pair ` ?one \<union> fst ` task_pair ` {u \<in> set ts. tk_result u \<noteq> None}" by auto
  show ?case
    using Cons.IH [OF step] one unfolding ids by (auto intro!: filter_cong)
qed auto

text \<open>The state after an orderly stop, and the events it has emitted.\<close>

lemma abort_in_flight_state:
  assumes inv: "att_inv s"
  defines "running \<equiv> filter (\<lambda>t. tk_result t = None) (at_tasks s)"
  shows "\<exists>zs. list_all (\<lambda>e. ev_request_id e = 0) zs \<and>
      at_events (abort_in_flight_attachments sv s) =
        at_events s @ concat (map task_events (at_tasks s)) @ zs @ interruptions (controls s) (map task_pair running) \<and>
      (\<forall>d. is_cancelled d (controls (abort_in_flight_attachments sv s)) = is_cancelled d (controls s)) \<and>
      keeps (snd ` task_pair ` set (at_tasks s)) (controls s) (controls (abort_in_flight_attachments sv s)) \<and>
      request_ids (at_admission (abort_in_flight_attachments sv s)) =
        request_ids (at_admission s) - fst ` task_pair ` set (at_tasks s) \<and>
      at_queue (abort_in_flight_attachments sv s) = at_queue s \<and>
      at_tasks (abort_in_flight_attachments sv s) = [] \<and> at_aborts (abort_in_flight_attachments sv s) = []"
proof -
  let ?a0 = "fold (permit_drop \<circ> tk_permit) running (at_admission s)"
  let ?s1 = "s\<lparr>at_admission := ?a0, at_tasks := []\<rparr>"
  obtain ms s2 where f: "fold finish_completion (map task_completion (at_tasks s)) ([], ?s1) = (ms, s2)"
    by (cases "fold finish_completion (map task_completion (at_tasks s)) ([], ?s1)")
  let ?b3 = "fold (mark_sent_message_projected_or_report sv) ms (at_backend s2)"
  let ?s3 = "s2\<lparr>at_backend := ?b3\<rparr>"
  note fin = finish_fold [OF f]
  obtain zs where zs: "bk_events ?b3 = at_events s2 @ zs" "list_all (\<lambda>e. ev_request_id e = 0) zs"
    using calm_events [OF mark_sent_fold_calm] by blast
  have inj: "inj_on (fst \<circ> task_pair) (set (at_tasks s))"
    using inv by (auto simp: att_inv_def pending_def distinct_map)
  have left: "at_aborts s2 = map task_pair running"
  proof -
    have "at_aborts s2 = map task_pair (filter (\<lambda>t. fst (task_pair t) \<notin> fst ` task_pair ` {t \<in> set (at_tasks s). tk_result t \<noteq> None}) (at_tasks s))"
      using fin inv by (simp add: att_inv_def filter_map comp_def)
    also have "\<dots> = map task_pair running"
      unfolding running_def using inj by (intro arg_cong [where f = "map task_pair"] filter_cong) (auto simp: inj_on_def)
    finally show ?thesis .
  qed
  have run: "abort_in_flight_attachments sv s = (fold interrupt_attachment (map task_pair running) ?s3)\<lparr>at_aborts := []\<rparr>"
    using f by (simp add: abort_in_flight_attachments_def abort_and_drain_tasks_def fold_drop running_def [symmetric]
        interrupt_remaining_attachments_def left)
  note int = interrupt_fold [of "map task_pair running" ?s3]
  have parts: "set (at_tasks s) = set running \<union> {t \<in> set (at_tasks s). tk_result t \<noteq> None}"
    by (auto simp: running_def)
  have ids: "fst ` task_pair ` set (at_tasks s) =
      fst ` task_pair ` set running \<union> fst ` task_pair ` {t \<in> set (at_tasks s). tk_result t \<noteq> None}"
    by (subst parts) (simp only: image_Un)
  have c: "controls s2 = controls s" using fin by (simp add: fold_permit_drop)
  have "keeps (snd ` task_pair ` set (at_tasks s)) (controls s) (controls (abort_in_flight_attachments sv s))"
    by (rule keeps_mono [of "snd ` set (map task_pair running)"]) (use int in \<open>auto simp: run c running_def\<close>)
  moreover have "request_ids (at_admission (abort_in_flight_attachments sv s)) =
      request_ids (at_admission s) - fst ` task_pair ` set (at_tasks s)"
  proof -
    have "request_ids (at_admission (abort_in_flight_attachments sv s)) = request_ids (at_admission s2)"
      using int by (simp add: run)
    also have "\<dots> = request_ids ?a0 - fst ` task_pair ` {t \<in> set (at_tasks s). tk_result t \<noteq> None}" using fin by simp
    also have "request_ids ?a0 = request_ids (at_admission s) - fst ` task_pair ` set running"
      by (simp add: fold_permit_drop task_ids)
    finally show ?thesis unfolding ids by (simp only: Diff_Un [symmetric] set_diff_eq Un_iff de_Morgan_disj mem_Collect_eq conj_assoc)
  qed
  ultimately show ?thesis
    using int fin zs by (intro exI [of _ zs]) (simp add: run c)
qed

lemma stop_ok:
  assumes inv: "att_inv s"
  shows "att_inv (abort_in_flight_attachments sv s) \<and> settles s (abort_in_flight_attachments sv s)"
proof -
  let ?s1 = "abort_in_flight_attachments sv s"
  let ?running = "filter (\<lambda>t. tk_result t = None) (at_tasks s)"
  obtain zs where st: "list_all (\<lambda>e. ev_request_id e = 0) zs"
      "at_events ?s1 = at_events s @ concat (map task_events (at_tasks s)) @ zs @ interruptions (controls s) (map task_pair ?running)"
      "\<forall>d. is_cancelled d (controls ?s1) = is_cancelled d (controls s)"
      "keeps (snd ` task_pair ` set (at_tasks s)) (controls s) (controls ?s1)"
      "request_ids (at_admission ?s1) = request_ids (at_admission s) - fst ` task_pair ` set (at_tasks s)"
      "at_queue ?s1 = at_queue s" "at_tasks ?s1 = []" "at_aborts ?s1 = []"
    using abort_in_flight_state [OF inv] by blast
  have dist: "distinct (map (fst \<circ> task_pair) (at_tasks s))" using inv by (simp add: att_inv_def pending_def)
  then have drun: "distinct (map fst (map task_pair ?running))" by (simp add: distinct_map_filter)
  let ?new = "concat (map task_events (at_tasks s)) @ zs @ interruptions (controls s) (map task_pair ?running)"
  show ?thesis
  proof (rule remove_tasks [OF inv refl, of _ "\<lambda>_. False" ?new])
    show "set (map ev_request_id ?new) \<subseteq> insert 0 (fst ` task_pair ` {t \<in> set (at_tasks s). \<not> False})"
      using st(1) task_events_ids by (force simp: list_all_iff interruptions_def)
    fix t assume t: "t \<in> set (at_tasks s)"
    have i: "fst (task_pair t) \<noteq> 0" using inv t by (auto simp: att_inv_def pending_def)
    have ev: "events_for (fst (task_pair t)) ?new =
        task_events t @ events_for (fst (task_pair t)) (interruptions (controls s) (map task_pair ?running))"
      using events_for_tasks(1) [OF dist t] events_for_unrelated [OF st(1) i] by simp
    show "length (events_for (fst (task_pair t)) ?new) = 1 \<or>
        events_for (fst (task_pair t)) ?new = [] \<and> is_cancelled (snd (task_pair t)) (controls ?s1)"
    proof (cases "tk_result t")
      case None
      then have "(fst (task_pair t), snd (task_pair t)) \<in> set (map task_pair ?running)" using t by simp
      from interruptions_for(1) [OF drun this, of "controls s"] show ?thesis
        unfolding ev using None st(3) by (simp add: task_events_def)
    next
      case (Some r)
      have "inj_on (fst \<circ> task_pair) (set (at_tasks s))" using dist by (simp add: distinct_map)
      then have "fst (task_pair t) \<notin> fst ` set (map task_pair ?running)"
        using t Some by (auto simp: inj_on_def)
      moreover have "task_ok (controls s) t" using inv t by (simp add: att_inv_def)
      ultimately show ?thesis
        unfolding ev using task_events_settle [of "controls s" t] Some st(3) interruptions_for(2) [OF drun] by simp
    qed
  qed (use st in auto)
qed

section \<open>Properties\<close>

lemma attachment_step_ok:
  assumes inv: "att_inv s"
  shows "att_inv (attachment_exec sv st x s) \<and> settles s (attachment_exec sv st x s)"
proof (cases x)
  case (Att_Cancel i)
  then show ?thesis
    using cancel_step_ok [OF inv, of "snd (admission_cancel i (at_admission s))"] admission_cancel_state(1,2) by simp
next
  case Att_Cancel_All
  then show ?thesis
    using cancel_step_ok [OF inv, of "cancel_all (at_admission s)"] admission_cancel_state(3,4) by simp
next
  case Att_Stop
  then show ?thesis using stop_ok [OF inv] by simp
next
  case Att_Abandon
  then show ?thesis using abandon_ok [OF inv] by simp
qed (simp_all only: submit_ok [OF inv] dispatch_ok [OF inv] fail_ok [OF inv] end_ok [OF inv] join_ok [OF inv])

interpretation attachments: op_system "attachment_exec sv st" att_inv for sv :: "'w services" and st
  by unfold_locales (simp add: attachment_step_ok)

lemma attachment_init_inv: "att_inv (attachment_init b)"
  by (simp add: att_inv_def attachment_init_def pending_def store_ok_def admission_new_def admission_with_limits_def)

text \<open>
  C5. Every admitted attachment request is answered exactly once, or the plugin cancelled it: after any sequence of submissions, cancellations, dispatches, failures of deferred commands, ends and reports of tasks and stops of the worker, the next step adds one event for each request it ends, unless its
  control is cancelled and it adds none, and no event for a request it does not end or that was not pending.
\<close>

theorem attachments_answered_once:
  "let s = fold (attachment_exec sv st) xs (attachment_init b); s1 = attachment_exec sv st x s
   in \<exists>new. at_events s1 = at_events s @ new \<and> distinct (map fst (pending s)) \<and>
        list_all (\<lambda>(i, c).
          if (i, c) \<in> set (pending s1) then events_for i new = []
          else length (events_for i new) = 1 \<or> events_for i new = [] \<and> is_cancelled c (controls s1)) (pending s) \<and>
        set (map ev_request_id new) \<subseteq> insert 0 (fst ` set (pending s))"
proof -
  define s where "s = fold (attachment_exec sv st) xs (attachment_init b)"
  have inv: "att_inv s" unfolding s_def by (rule attachments.run_inv_all) (rule attachment_init_inv)
  then obtain new where new: "at_events (attachment_exec sv st x s) = at_events s @ new"
      "list_all (settled_by new (attachment_exec sv st x s)) (pending s)"
      "set (map ev_request_id new) \<subseteq> insert 0 (fst ` set (pending s))"
    using attachment_step_ok [OF inv, of sv st x] unfolding settles_def by blast
  moreover have "distinct (map fst (pending s))" using inv by (simp add: att_inv_def)
  ultimately show ?thesis
    unfolding s_def [symmetric] Let_def
    by (intro exI [of _ new]) (auto simp: list_all_iff settled_by_def split: if_splits)
qed

end
