(* ===== verification/Event_Log.thy ===== *)
theory Event_Log
  imports Launch Attachment_Answers
begin

section \<open>The events of the worker are a log\<close>

text \<open>
  Whatever the worker does, it adds events at the end and takes none back. This is what makes the order
  in which the worker emits its events meaningful to the queue that carries them to the plugin.
\<close>

definition grows :: "'w backend \<Rightarrow> 'w backend \<Rightarrow> bool" where
  "grows b c \<longleftrightarrow> prefix (bk_events b) (bk_events c)"

named_theorems grows_intros

lemma grows_refl [simp, grows_intros]: "grows b b"
  by (simp add: grows_def)

lemma grows_trans [trans]: "grows a b \<Longrightarrow> grows b c \<Longrightarrow> grows a c"
  unfolding grows_def by (rule prefix_order.trans)

lemma grows_emit [grows_intros]: "grows b c \<Longrightarrow> grows b (emit e c)"
  by (simp add: grows_def)

lemma grows_update [simp]:
  "grows b (c\<lparr>bk_cache := m\<rparr>) = grows b c" "grows b (c\<lparr>bk_latest := l\<rparr>) = grows b c"
  "grows b (c\<lparr>bk_departed := d\<rparr>) = grows b c" "grows b (c\<lparr>bk_world := w\<rparr>) = grows b c"
  by (simp_all add: grows_def)

lemma grows_same: "bk_events c = bk_events b \<Longrightarrow> grows b c"
  by (simp add: grows_def)

lemma grows_append: "\<exists>es. bk_events c = bk_events b @ es \<and> P es \<Longrightarrow> grows b c"
  by (auto simp: grows_def)

lemma quiet_grows: "quiet b c \<Longrightarrow> grows b c"
  unfolding quiet_def by (rule grows_append)

lemma same_reports_grows: "same_reports b c \<Longrightarrow> grows b c"
  by (simp add: same_reports_def grows_def)

lemma perform_grows: "perform f b = (r, b1) \<Longrightarrow> grows b b1"
  by (rule grows_same) (rule perform_events)

lemma fold_grows: "(\<And>x b. grows b (f x b)) \<Longrightarrow> grows b (fold f xs b)"
  by (induction xs arbitrary: b) (auto intro: grows_trans)

subsection \<open>Messages\<close>

lemma emit_data_message_grows:
  assumes "emit_data_message sv te mid dp b = (d, b1)"
  shows "grows b b1"
  using assms
proof (cases rule: emit_data_message_cases)
  case (shown b0 gk title)
  from emit_projected_events [OF shown(4), of sv te gk title b0] show ?thesis using shown(2,3) by (auto simp: grows_def)
qed (simp add: grows_def)

lemma handle_content_grows:
  assumes "handle_content sv te mid c i receipts b = Some (d, receipts1, b1)"
  shows "grows b b1"
proof (cases "\<exists>m. ct_body c = Body_Data m")
  case True
  then obtain m where m: "ct_body c = Body_Data m" ..
  obtain d0 b0 where e: "emit_data_message sv te mid (bare_projection sv c m i) b = (d0, b0)"
    by (cases "emit_data_message sv te mid (bare_projection sv c m i) b")
  have r: "enqueue_receipt sv c receipts b0 = Some (receipts1, b1)" using assms m e by (auto simp: handle_content_def)
  have "grows b b0" using e by (rule emit_data_message_grows)
  also have "grows b0 b1" using enqueue_receipt_events [OF r] by (rule grows_append)
  finally show ?thesis .
next
  case False
  then show ?thesis using handle_content_other [OF assms] by (auto intro: emit_data_message_grows grows_intros)
qed

lemma settle_projection_grows: "settle_projection sv c i d p b = (p1, b1) \<Longrightarrow> grows b b1"
  by (auto simp: settle_projection_def Let_def split: if_splits prod.splits sum.splits dest: perform_grows intro: grows_emit)

lemma project_content_grows: "project_content sv te mid c auth p b = Some (p1, b1) \<Longrightarrow> grows b b1"
  by (auto simp: project_content_def split: if_splits prod.splits option.splits
      intro: grows_trans dest!: handle_content_grows settle_projection_grows [OF sym] settle_projection_grows)

lemma acknowledge_message_grows: "acknowledge_message sv i p b = (ok, p1, b1) \<Longrightarrow> grows b b1"
  by (auto simp: acknowledge_message_def split: option.splits prod.splits sum.splits if_splits dest: perform_grows intro: grows_emit)

lemma acknowledge_all_grows: "acknowledge_all sv retry ids p b = (p1, b1) \<Longrightarrow> grows b b1"
  by (induction ids arbitrary: p b) (auto split: prod.splits dest!: acknowledge_message_grows intro: grows_trans)

lemma process_acknowledgments_grows: "process_acknowledgments sv retry p b = (n, p1, b1) \<Longrightarrow> grows b b1"
  by (auto simp: process_acknowledgments_def split: prod.splits dest: acknowledge_all_grows)

lemma drain_loop_grows: "drain_loop sv p b = (p1, b1) \<Longrightarrow> grows b b1"
proof (induction sv p b rule: drain_loop.induct)
  case (1 sv p b)
  obtain n q c where s: "process_acknowledgments sv False p b = (n, q, c)" by (cases "process_acknowledgments sv False p b")
  show ?case
    using 1(2) 1(1) [OF s [symmetric] refl] process_acknowledgments_grows [OF s]
    by (subst (asm) drain_loop.simps) (auto simp: s split: if_splits intro: grows_trans)
qed

lemma finish_delivery_receipt_grows: "finish_delivery_receipt_attempt completion q b = (e, q1, b1) \<Longrightarrow> grows b b1"
  by (auto simp: finish_delivery_receipt_attempt_def Let_def split: sum.splits receipt_failure_action.splits
      intro: grows_emit)

subsection \<open>Commands\<close>

lemma report_failure_grows: "grows b (report_failure what r b)"
  by (rule quiet_grows) (rule report_failure_quiet)

lemma accepted_leave_grows: "grows b (accepted_leave sv auth i gk outcome b)"
  using accepted_leave_state [of sv auth i gk outcome b] by (auto simp: grows_def)

lemma handle_leave_grows: "grows b (handle_leave_group sv auth i gk b)"
proof (cases rule: leave_cases [of b sv auth i gk])
  case (1 error b1)
  then show ?thesis by (simp add: grows_def refuse_leave_state)
next
  case (2 outcome b2)
  have "grows b2 (accepted_leave sv auth i gk outcome b2)" by (rule accepted_leave_grows)
  then show ?thesis using 2 grows_trans [OF same_reports_grows] by simp
qed

lemma retry_outbox_grows: "grows b (retry_outbox sv auth b)"
  by (rule quiet_grows) (rule calm_quiet [OF retry_outbox_calm])

lemma handle_accept_identity_grows: "grows b (handle_accept_identity sv auth i r b)"
proof -
  have "grows b1 (retry_outbox sv auth (emit e (report_failure what x b1)))" for b1 e what x
    using grows_trans [OF grows_emit [OF report_failure_grows] retry_outbox_grows] .
  then have sent: "grows b (retry_outbox sv auth (emit e (report_failure what x b2)))" if "grows b b1" "grows b1 b2" for b1 b2 e what x
    using that grows_trans by blast
  show ?thesis
    by (auto simp: handle_accept_identity_def split: prod.splits sum.splits bool.splits
        intro: grows_emit sent dest!: perform_grows)
qed

lemma handle_dismiss_identity_grows: "grows b (handle_dismiss_identity sv i r b)"
  by (auto simp: handle_dismiss_identity_def split: prod.splits sum.splits dest!: perform_grows intro: grows_emit)

lemma handle_reset_session_grows: "grows b (handle_reset_session sv i r b)"
  by (auto simp: handle_reset_session_def split: prod.splits sum.splits option.splits dest!: perform_grows intro: grows_emit)

lemma send_at_new_timestamp_grows:
  assumes "send_at_new_timestamp sv i r m b = Some b1"
  shows "grows b b1"
proof (cases "parse_recipient (sv_ext sv) r")
  case None
  then show ?thesis using assms by (auto simp: send_at_new_timestamp_def intro: grows_emit)
next
  case (Some sid)
  obtain t b2 where t: "next_timestamp sv b = Some (t, b2)" using assms Some by (auto simp: send_at_new_timestamp_def)
  obtain x b3 where p: "perform (sp_send_message (sv_manager sv) sid (m t) t) b2 = (x, b3)"
    by (cases "perform (sp_send_message (sv_manager sv) sid (m t) t) b2")
  have "grows b b3" using same_reports_grows [OF next_timestamp_events [OF t]] perform_grows [OF p] by (rule grows_trans)
  then show ?thesis using assms Some t p by (auto simp: send_at_new_timestamp_def split: sum.splits intro: grows_emit)
qed

lemma enqueue_and_send_grows: "enqueue_and_send sv request b = Some (r, b1) \<Longrightarrow> grows b b1"
  by (rule quiet_grows) (rule calm_quiet [OF enqueue_and_send_calm])

lemma report_send_grows:
  assumes "map_option (\<lambda>(result, b1). case result of Inr _ \<Rightarrow> b1 | Inl e \<Rightarrow> if P e then emit (f e) b1 else emit (g e) b1) r = Some b9"
    and "\<And>x b1. r = Some (x, b1) \<Longrightarrow> grows b b1"
  shows "grows b b9"
proof (cases r)
  case (Some xb)
  then have "grows b (snd xb)" using assms(2) by (cases xb) simp
  then show ?thesis using assms(1) Some by (cases "fst xb") (auto simp: case_prod_unfold split: if_splits intro: grows_emit)
qed (use assms in simp)

lemma handle_send_message_grows: "handle_send_message sv i r m b = Some b1 \<Longrightarrow> grows b b1"
  unfolding handle_send_message_def
  by (erule report_send_grows) (auto split: if_splits dest: enqueue_and_send_grows)

lemma handle_send_group_message_grows: "handle_send_group_message sv auth i r m b = Some b1 \<Longrightarrow> grows b b1"
  unfolding handle_send_group_message_def
  by (erule report_send_grows) (auto split: if_splits prod.splits sum.splits option.splits
      dest!: enqueue_and_send_grows resolve_events(1) same_reports_grows intro: grows_trans)

lemma handle_command_grows: "handle_command sv auth command b = Some b1 \<Longrightarrow> grows b b1"
  by (cases command) (auto simp: handle_command_def handle_mark_read_def handle_set_typing_def
      intro: handle_accept_identity_grows handle_dismiss_identity_grows handle_reset_session_grows send_at_new_timestamp_grows
        handle_send_message_grows handle_send_group_message_grows handle_leave_grows)

subsection \<open>Snapshots and tasks\<close>

lemma emit_account_identity_grows: "grows b (emit_account_identity sv retrieve b)"
  by (auto simp: emit_account_identity_def split: prod.splits dest!: perform_grows intro: grows_emit)

lemma emit_identity_changes_grows: "grows b (emit_identity_changes st b)"
proof -
  have "grows a (fold (\<lambda>change. emit (identity_change_event change)) changes a)" for a :: "'a backend" and changes
    by (rule fold_grows) (simp add: grows_emit)
  then have "grows b (fold (\<lambda>change. emit (identity_change_event change)) changes a)" if "grows b a" for a changes
    using that grows_trans by blast
  then show ?thesis
    by (auto simp: emit_identity_changes_def split: prod.splits sum.splits dest!: perform_grows intro: grows_emit)
qed

lemma emit_group_snapshot_grows: "emit_group_snapshot sn mid auth s = (r, s1) \<Longrightarrow> grows (snd s) (snd s1)"
proof -
  assume run: "emit_group_snapshot sn mid auth s = (r, s1)"
  obtain gs b1 where p: "perform (repo_groups (sn_store sn)) (snd s) = (gs, b1)" by (cases "perform (repo_groups (sn_store sn)) (snd s)")
  note same = perform_grows [OF p]
  show ?thesis
  proof (cases gs)
    case (Inr groups)
    obtain body where "bk_events (snd (fold (emit_group sn mid) groups (fst s, emit (event_default\<lparr>ev_kind := EVENT_GROUP_SYNC_BEGIN\<rparr>) b1))) =
        bk_events (emit (event_default\<lparr>ev_kind := EVENT_GROUP_SYNC_BEGIN\<rparr>) b1) @ body"
      using emit_groups_events [of sn mid groups "(fst s, emit (event_default\<lparr>ev_kind := EVENT_GROUP_SYNC_BEGIN\<rparr>) b1)"] by auto
    then have "grows b1 (snd (fold (emit_group sn mid) groups (fst s, emit (event_default\<lparr>ev_kind := EVENT_GROUP_SYNC_BEGIN\<rparr>) b1)))"
      by (auto simp: grows_def)
    from grows_trans [OF same this] show ?thesis
      using run p Inr by (auto simp: emit_group_snapshot_def split: prod.splits intro: grows_emit)
  qed (use run p same in \<open>auto simp: emit_group_snapshot_def\<close>)
qed

lemma synchronize_grows: "synchronize_and_emit_group_snapshot sn sync mid s = (r, s1) \<Longrightarrow> grows (snd s) (snd s1)"
  by (auto simp: synchronize_and_emit_group_snapshot_def split: prod.splits sum.splits
      dest!: perform_grows emit_group_snapshot_grows intro: grows_trans)

lemma emit_contact_snapshot_grows: "grows (snd s) (snd (emit_contact_snapshot sn s))"
proof -
  have "grows b (snd (fold (emit_contact sn) contacts (c, b)))" for contacts c b
    using emit_contacts_events [of sn contacts "(c, b)"] by (auto simp: grows_def)
  then have contacts: "grows a (snd (fold (emit_contact sn) contacts (c, emit e b)))" if "grows a b" for a contacts c e b
    using that grows_trans grows_emit by metis
  obtain r b1 where p: "perform (repo_contacts (sn_store sn)) (snd s) = (r, b1)" by (cases "perform (repo_contacts (sn_store sn)) (snd s)")
  show ?thesis
    using contacts [OF perform_grows [OF p]] perform_grows [OF p]
    by (cases r) (auto simp: emit_contact_snapshot_def p case_prod_unfold intro!: grows_emit)
qed

lemma emit_avatar_grows: "grows (snd s) (snd (emit_avatar sn p c a s))"
  using emit_avatar_events [of sn p c a s] by (auto simp: grows_def)

fun flow_state :: "'s task_flow \<Rightarrow> 's" where
  "flow_state (Task_Continue s) = s"
| "flow_state (Task_Stop s) = s"

lemma fetch_avatar_grows: "grows (snd s) (snd (flow_state (fetch_avatar sn peer chat fetch s)))"
proof (cases "perform fetch (snd s)")
  case (Pair r b1)
  have "grows b1 (snd (emit_avatar sn peer chat a (c, b1)))" for a c using emit_avatar_grows [of "(c, b1)"] by simp
  then show ?thesis
    using Pair perform_grows [OF Pair]
    by (auto simp: fetch_avatar_def split: option.splits sum.splits intro: grows_trans)
qed

lemma read_optional_grows: "read_optional f b = (r, b1) \<Longrightarrow> grows b b1"
  by (rule grows_same) (rule read_optional_events)

lemma fetch_contact_avatar_grows: "grows (snd s) (snd (flow_state (fetch_contact_avatar sn src contact s)))"
proof -
  obtain k b1 where k: "contact_key_of (sn_store sn) contact (snd s) = (k, b1)" by (cases "contact_key_of (sn_store sn) contact (snd s)")
  have g1: "grows (snd s) b1"
    using k by (auto simp: contact_key_of_def split: option.splits if_splits prod.splits dest!: read_optional_grows)
  show ?thesis
  proof (cases k)
    case (Some key)
    obtain a b2 where a: "read_optional (sq_profile_avatar (sn_store sn) (co_uuid contact) key) b1 = (a, b2)"
      by (cases "read_optional (sq_profile_avatar (sn_store sn) (co_uuid contact) key) b1")
    have "grows (snd s) b2" using g1 read_optional_grows [OF a] by (rule grows_trans)
    then show ?thesis
      using Some k a fetch_avatar_grows [of "(fst s, b2)" sn] by (auto simp: fetch_contact_avatar_def split: option.splits intro: grows_trans)
  qed (use k g1 in \<open>simp add: fetch_contact_avatar_def\<close>)
qed

lemma fetch_group_avatar_grows: "grows (snd s) (snd (flow_state (fetch_group_avatar sn src kg s)))"
proof (cases kg)
  case (Pair key g)
  let ?b = "(snd s)\<lparr>bk_cache := index_group (group_identifier (sn_ext sn) key) key (bk_cache (snd s))\<rparr>"
  obtain a b2 where a: "read_optional (sq_group_avatar (sn_store sn) key) ?b = (a, b2)"
    by (cases "read_optional (sq_group_avatar (sn_store sn) key) ?b")
  have "grows (snd s) b2" using grows_trans [OF _ read_optional_grows [OF a], of "snd s"] by simp
  then show ?thesis
    using Pair a fetch_avatar_grows [of "(fst s, b2)" sn]
    by (auto simp: fetch_group_avatar_def Let_def split: option.splits intro: grows_trans)
qed

lemma task_loop_grows:
  "(\<And>x s. grows (snd s) (snd (flow_state (f x s)))) \<Longrightarrow> grows (snd s) (snd (flow_state (task_loop f xs s)))"
proof (induction xs arbitrary: s)
  case (Cons x xs)
  show ?case using Cons.prems [of s x] Cons.IH [OF Cons.prems] by (cases "f x s") (auto intro: grows_trans)
qed simp

lemma loop_over_grows:
  assumes "\<And>x s. grows (snd s) (snd (flow_state (f x s)))"
  shows "grows (snd s) (snd (flow_state (loop_over xs f s)))"
proof (cases "perform xs (snd s)")
  case (Pair r b1)
  then show ?thesis
    using task_loop_grows [of f, OF assms, of "(fst s, b1)"] perform_grows [OF Pair]
    by (auto simp: loop_over_def split: sum.splits intro: grows_trans)
qed

lemma fetch_missing_avatars_grows: "grows (snd s) (snd (fetch_missing_avatars sn src s))"
proof -
  have 1: "grows (snd s) (snd (flow_state (loop_over (repo_contacts (sn_store sn)) (fetch_contact_avatar sn src) s)))"
    by (rule loop_over_grows) (rule fetch_contact_avatar_grows)
  have 2: "grows (snd t) (snd (flow_state (loop_over (repo_groups (sn_store sn)) (fetch_group_avatar sn src) t)))" for t
    by (rule loop_over_grows) (rule fetch_group_avatar_grows)
  show ?thesis
    using 1 grows_trans [OF 1 2] unfolding fetch_missing_avatars_def
    by (auto split: task_flow.splits)
qed

lemma request_contacts_grows: "request_contacts_with_retries turns backoff b = (waited, ended, b1) \<Longrightarrow> grows b b1"
proof (induction turns arbitrary: backoff b waited)
  case (Cons turn turns)
  show ?case
  proof (cases turn)
    case (Request_Failed error shut)
    obtain delay backoff1 where d: "next_delay backoff = (delay, backoff1)" by (cases "next_delay backoff")
    let ?b = "emit (transient_error (request_contacts_failure error)) b"
    have "grows ?b b1"
    proof (cases "delay \<noteq> 0 \<and> shut")
      case False
      obtain w e c where r: "request_contacts_with_retries turns backoff1 ?b = (w, e, c)"
        by (cases "request_contacts_with_retries turns backoff1 ?b")
      then have "e = ended" "c = b1" using Cons.prems Request_Failed d False by (auto simp: Let_def)
      then show ?thesis using Cons.IH r by blast
    qed (use Cons.prems Request_Failed d in \<open>simp add: Let_def\<close>)
    then show ?thesis using grows_trans [OF grows_emit [OF grows_refl]] by blast
  qed (use Cons.prems in auto)
qed simp

lemma mark_sent_grows: "grows b (mark_sent_message_projected_or_report sv sent b)"
  by (rule quiet_grows) (rule calm_quiet [OF mark_sent_calm])

lemma finish_completion_grows: "finish_attachment_completion completed aborts b = (sent, aborts1, b1) \<Longrightarrow> grows b b1"
  by (auto simp: finish_attachment_completion_def Let_def split: option.splits attachment_task_result.splits sum.splits intro: grows_emit)

lemma load_unprojected_grows: "load_unprojected_messages sv auth replay b = (replay1, b1) \<Longrightarrow> grows b b1"
  by (auto simp: load_unprojected_messages_def split: prod.splits sum.splits if_splits dest!: perform_grows intro: grows_emit)

lemma handle_attachment_completion_grows:
  assumes "handle_attachment_completion sv st completed aborts b = (aborts1, b1)"
  shows "grows b b1"
proof -
  obtain sent al b2 where f: "finish_attachment_completion completed aborts b = (sent, al, b2)"
    by (cases "finish_attachment_completion completed aborts b")
  have "grows b b2" using f by (rule finish_completion_grows)
  also have "grows b2 (case sent of Some m \<Rightarrow> mark_sent_message_projected_or_report sv m b2 | None \<Rightarrow> b2)"
    by (simp add: mark_sent_grows split: option.split)
  also have "grows \<dots> b1" using assms f emit_identity_changes_grows by (auto simp: handle_attachment_completion_def)
  finally show ?thesis .
qed

subsection \<open>Attachment tasks\<close>

abbreviation task_grows :: "'w attachment_tasks \<Rightarrow> 'w attachment_tasks \<Rightarrow> bool" where
  "task_grows s t \<equiv> grows (at_backend s) (at_backend t)"

lemma at_drop_backend [simp]: "at_backend (at_drop p s) = at_backend s"
  by (simp add: at_drop_def)

lemma fold_drop_backend [simp]: "at_backend (fold (at_drop \<circ> tk_permit) ts s) = at_backend s"
  by (induction ts arbitrary: s) simp_all

lemma dispatch_grows: "task_grows s (dispatch_attachment auth permit to_group s)"
  by (auto simp: dispatch_attachment_def at_emit_def Let_def split: prod.split intro: grows_emit)

lemma interrupt_grows: "task_grows s (interrupt_remaining_attachments s)"
proof -
  have one: "task_grows t (interrupt_attachment ic t)" for ic and t :: "'a attachment_tasks"
    by (auto simp: interrupt_attachment_def at_emit_def split: prod.split option.split intro: grows_emit)
  have "task_grows t (fold interrupt_attachment ics t)" for ics and t :: "'a attachment_tasks"
    by (induction ics arbitrary: t) (auto intro: grows_trans [OF one])
  then show ?thesis by (simp add: interrupt_remaining_attachments_def)
qed

lemma abandon_grows: "task_grows s (abandon_timed_out_attachments s)"
  using interrupt_grows [of "drop_tasks s"] by (simp add: abandon_timed_out_attachments_def drop_tasks_def)

lemma finish_completions_grow: "task_grows (snd acc) (snd (fold finish_completion completions acc))"
proof (induction completions arbitrary: acc)
  case (Cons c completions)
  have "task_grows (snd acc) (snd (finish_completion c acc))"
    by (cases acc) (auto simp: finish_completion_def Let_def split: prod.splits option.splits dest!: finish_completion_grows)
  then show ?case using Cons.IH [of "finish_completion c acc"] by (auto intro: grows_trans)
qed simp

lemma abort_grows: "task_grows s (abort_in_flight_attachments sv s)"
proof -
  obtain cs s1 where 1: "abort_and_drain_tasks s = (cs, s1)" by (cases "abort_and_drain_tasks s")
  obtain ms s2 where 2: "fold finish_completion cs ([], s1) = (ms, s2)" by (cases "fold finish_completion cs ([], s1)")
  have "task_grows s s1" using 1 by (auto simp: abort_and_drain_tasks_def)
  also have "grows (at_backend s1) (at_backend s2)" using finish_completions_grow [of "([], s1)" cs] 2 by simp
  also have "grows (at_backend s2) (fold (mark_sent_message_projected_or_report sv) ms (at_backend s2))"
    by (rule fold_grows) (rule mark_sent_grows)
  also have "grows \<dots> (at_backend (abort_in_flight_attachments sv s))"
    using interrupt_grows [of "s2\<lparr>at_backend := fold (mark_sent_message_projected_or_report sv) ms (at_backend s2)\<rparr>"] 1 2
    by (simp add: abort_in_flight_attachments_def)
  finally show ?thesis .
qed

lemma join_grows: "task_grows s (join_task sv st i s)"
  by (auto simp: join_task_def split: option.splits prod.splits dest!: handle_attachment_completion_grows)

lemma end_task_backend: "at_backend (end_task i outcome s) = at_backend s"
  by (auto simp: end_task_def split: option.splits)

subsection \<open>The connection\<close>

definition logs :: "'w connection \<Rightarrow> 'w connection \<Rightarrow> bool" where
  "logs c d \<longleftrightarrow> grows (cn_backend c) (cn_backend d)"

lemma logs_refl [simp]: "logs c c"
  by (simp add: logs_def)

lemma logs_trans [trans]: "logs a b \<Longrightarrow> logs b c \<Longrightarrow> logs a c"
  unfolding logs_def by (rule grows_trans)

lemma logs_update [simp]:
  "logs c (d\<lparr>cn_projection := p\<rparr>) = logs c d" "logs c (d\<lparr>cn_replay := q\<rparr>) = logs c d"
  "logs c (d\<lparr>cn_session := s\<rparr>) = logs c d" "logs c (d\<lparr>cn_ready := r\<rparr>) = logs c d"
  "logs c (d\<lparr>cn_avatars := v\<rparr>) = logs c d" "logs c (d\<lparr>cn_generation := n\<rparr>) = logs c d"
  "logs c (d\<lparr>cn_group_sync := g\<rparr>) = logs c d" "logs c (d\<lparr>cn_contact_sync := g1\<rparr>) = logs c d"
  "logs c (d\<lparr>cn_avatar_fetch := g2\<rparr>) = logs c d" "logs c (d\<lparr>cn_deferred := q1\<rparr>) = logs c d"
  "logs c (d\<lparr>cn_commands := q2\<rparr>) = logs c d" "logs c (d\<lparr>cn_closed := f\<rparr>) = logs c d"
  by (simp_all add: logs_def)

lemma logs_backend:
  "logs c (set_backend b d) = grows (cn_backend c) b" "logs c (d\<lparr>cn_tasks := t\<rparr>) = grows (cn_backend c) (at_backend t)"
  by (simp_all add: logs_def set_backend_def)

lemma logs_on_backend: "(\<And>b. grows b (f b)) \<Longrightarrow> logs c (on_backend f c)"
  by (simp add: on_backend_def logs_backend)

lemma logs_emit: "logs c d \<Longrightarrow> logs c (on_backend (emit e) d)"
  by (simp add: on_backend_def set_backend_def grows_emit logs_def)

lemma logs_on_snapshot: "(\<And>s. grows (snd s) (snd (f s))) \<Longrightarrow> logs c (on_snapshot f c)"
proof -
  assume "\<And>s. grows (snd s) (snd (f s))"
  from this [of "(cn_avatars c, cn_backend c)"] show ?thesis
    by (cases "f (cn_avatars c, cn_backend c)") (simp add: on_snapshot_def logs_backend)
qed

lemma logs_on_projection: "(\<And>p b. grows b (snd (f p b))) \<Longrightarrow> logs c (on_projection f c)"
proof -
  assume "\<And>p b. grows b (snd (f p b))"
  from this [of "cn_backend c" "cn_projection c"] show ?thesis
    by (cases "f (cn_projection c) (cn_backend c)") (simp add: on_projection_def logs_backend)
qed

lemma run_phases_logs: "list_all (\<lambda>f. \<forall>c. logs c (f c)) fs \<Longrightarrow> logs c (snd (run_phases limit fs c))"
proof (induction limit fs c rule: run_phases.induct)
  case (3 n f fs c)
  then show ?case using logs_trans by fastforce
next
  case (4 f fs c)
  then show ?case using logs_trans by fastforce
qed simp_all

lemma cleanup_logs:
  "logs c (close_acknowledgments c)" "logs c (abort_receipts c)" "logs c (abort_attachments ws c)" "logs c (drain_acks ws c)"
  by (auto simp: close_acknowledgments_def abort_receipts_def abort_attachments_def logs_backend abort_grows drain_acks_def
      drain_acknowledgments_def intro!: logs_on_projection drain_loop_grows [OF surjective_pairing])

lemma finish_cleanup_logs:
  assumes "list_all (\<lambda>f. \<forall>c. logs c (f c)) fs"
  shows "logs c (finish_cleanup limit fs c)"
proof -
  obtain ok d where r: "run_phases limit fs c = (ok, d)" by (cases "run_phases limit fs c")
  have "logs c d" using run_phases_logs [OF assms, of c limit] r by simp
  then show ?thesis
    using abandon_grows [of "cn_tasks d"] r
    by (cases ok) (auto simp: finish_cleanup_def logs_def intro: grows_trans)
qed

lemma stop_logs:
  "logs c (stop_attachments_and_drain_acknowledgments ws limit c)"
  "logs c (stop_receive_tasks ws limit [] c)" "logs c (stop_active_receive_loop ws limit c)"
proof -
  have "logs c (finish_cleanup limit fs (close_acknowledgments c))" if "list_all (\<lambda>f. \<forall>c. logs c (f c)) fs" for fs
    using logs_trans [OF cleanup_logs(1) finish_cleanup_logs [OF that]] .
  then show "logs c (stop_attachments_and_drain_acknowledgments ws limit c)"
    by (simp add: stop_attachments_and_drain_acknowledgments_def cleanup_logs)
  have stop: "logs d (stop_receive_tasks ws limit fs d)" if "list_all (\<lambda>f. \<forall>c. logs c (f c)) fs" for fs d
  proof -
    have "logs (d\<lparr>cn_group_sync := Sync_Absent, cn_contact_sync := Gated_Absent, cn_avatar_fetch := Gated_Absent\<rparr>)
        (stop_receive_tasks ws limit fs d)"
      unfolding stop_receive_tasks_def by (rule finish_cleanup_logs) (use that in \<open>simp add: cleanup_logs\<close>)
    then show ?thesis by (simp add: logs_def)
  qed
  then show "logs c (stop_receive_tasks ws limit [] c)" by simp
  have "logs (close_acknowledgments c) (stop_active_receive_loop ws limit c)"
    unfolding stop_active_receive_loop_def by (rule stop) (simp add: cleanup_logs)
  then show "logs c (stop_active_receive_loop ws limit c)" using logs_trans cleanup_logs(1) by blast
qed

lemma phase_logs:
  "logs c (serve_acknowledgments ws c)" "logs c (activate_ack_retries c)" "logs c (serve_join ws i c)"
  "logs c (identity_changes ws c)" "logs c (outbox_round ws auth c)" "logs c (startup_group_snapshot ws c)"
  "logs c (load_unprojected ws c)" "logs c (refresh_groups ws c)"
  "logs c (on_snapshot (emit_contact_snapshot (ws_snapshots ws)) c)"
  "logs c (on_backend (emit_account_identity (ws_sv ws) (ws_retrieve_profile ws)) c)"
proof -
  have snapshot: "logs c d" if "group_snapshot ws auth c = (r, d)" for auth r d
    using that by (auto simp: group_snapshot_def logs_backend split: prod.splits dest!: emit_group_snapshot_grows)
  show "logs c (serve_acknowledgments ws c)"
    unfolding serve_acknowledgments_def
    by (rule logs_on_projection) (metis process_acknowledgments_grows surjective_pairing)
  show "logs c (startup_group_snapshot ws c)" "logs c (refresh_groups ws c)"
    by (auto simp: startup_group_snapshot_def refresh_groups_def split: prod.splits sum.splits intro!: logs_emit dest: snapshot)
qed (auto simp: activate_ack_retries_def serve_join_def logs_backend join_grows identity_changes_def outbox_round_def load_unprojected_def
    split: prod.splits dest: load_unprojected_grows
    intro!: logs_on_backend logs_on_snapshot emit_identity_changes_grows retry_outbox_grows emit_contact_snapshot_grows emit_account_identity_grows)

text \<open>The states a flow carries on.\<close>

definition flow_logs :: "'w connection \<Rightarrow> 'w connection flow \<Rightarrow> bool" where
  "flow_logs c flow \<longleftrightarrow>
     (case flow of Flow_Next d \<Rightarrow> logs c d | Flow_Recover _ d \<Rightarrow> logs c d | Flow_Exit d \<Rightarrow> logs c d | Flow_Panic \<Rightarrow> True)"

lemma flow_logs_simps [simp]:
  "flow_logs c (Flow_Next d) = logs c d" "flow_logs c (Flow_Recover e d) = logs c d" "flow_logs c (Flow_Exit d) = logs c d"
  "flow_logs c Flow_Panic"
  by (simp_all add: flow_logs_def)

lemma flow_logs_trans: "logs c d \<Longrightarrow> flow_logs d flow \<Longrightarrow> flow_logs c flow"
  by (cases flow) (auto intro: logs_trans)

lemma phases_or_stop_logs:
  assumes "list_all (\<lambda>f. \<forall>c. logs c (f c)) fs" "logs c d"
  shows "flow_logs c (phases_or_stop ws lim fs d)"
proof -
  have "logs c (snd (run_phases (tl_shutdown lim) fs d))" using assms(2) run_phases_logs [OF assms(1)] by (rule logs_trans)
  then show ?thesis by (auto simp: phases_or_stop_def split: prod.split bool.split intro: logs_trans stop_logs)
qed

lemma run_startup_logs: "flow_logs c (run_startup_phases ws lim c)"
proof -
  obtain ok d where r: "run_phases (tl_shutdown lim) (startup_phases ws (groups_authoritative (cn_session c))) c = (ok, d)"
    by (cases "run_phases (tl_shutdown lim) (startup_phases ws (groups_authoritative (cn_session c))) c")
  have "logs c (snd (run_phases (tl_shutdown lim) (startup_phases ws (groups_authoritative (cn_session c))) c))"
    by (rule run_phases_logs) (simp add: startup_phases_def phase_logs)
  then have "logs c d" by (simp add: r)
  then show ?thesis
    by (cases ok) (auto simp: run_startup_phases_def r split: option.split intro!: logs_emit intro: logs_trans [OF _ stop_logs(1)])
qed

lemma serve_received_logs: "flow_logs c (serve_received ws lim item c)"
  by (cases item) (auto simp: serve_received_def serve_queue_empty_def Let_def phase_logs intro!: phases_or_stop_logs logs_emit)

lemma serve_command_logs: "flow_logs c (serve_command ws lim command c)"
proof -
  have leave: "logs c (begin_leave_for auth command c)" for auth
    by (auto simp: begin_leave_for_def split: command.split intro!: logs_on_backend)
  have handled: "flow_logs c (phases_or_stop ws l [identity_changes ws] (set_backend b (begin_leave_for auth command c)))"
    if "handle_command sv auth command (cn_backend (begin_leave_for auth command c)) = Some b" for auth sv b l
  proof (rule phases_or_stop_logs)
    show "logs c (set_backend b (begin_leave_for auth command c))"
      using grows_trans [OF leave [unfolded logs_def, of auth] handle_command_grows [OF that]] by (simp add: logs_backend)
  qed (simp add: phase_logs)
  have stop: "flow_logs c (Flow_Exit (stop_active_receive_loop ws n (begin_leave_for auth command c)))" for auth n
    using logs_trans [OF leave stop_logs(3)] by simp
  show ?thesis
    using handled stop
    by (cases command) (auto simp: serve_command_def Let_def logs_backend dispatch_grows split: option.split nat.split)
qed

lemma serve_next_command_logs: "flow_logs c (serve_next_command ws lim c)"
proof -
  obtain command d where n: "next_command c = (command, d)" by (cases "next_command c")
  have "logs c d" using n by (auto simp: next_command_def split: prod.splits bool.splits list.splits)
  then show ?thesis
    using n flow_logs_trans [OF _ serve_command_logs] logs_trans [OF _ stop_logs(3)]
    by (auto simp: serve_next_command_def split: option.split)
qed

lemma serve_receipt_logs: "flow_logs c (serve_receipt ended c)"
  by (auto simp: serve_receipt_def Let_def logs_backend split: sum.splits prod.splits option.splits
      intro!: logs_emit dest: finish_delivery_receipt_grows)

lemma show_ready_logs:
  assumes "logs c d"
  shows "flow_logs c (show_ready ws lim content d)"
proof -
  have "grows (cn_backend c) b" if "project_content sv te mid content auth p (cn_backend d) = Some (q, b)" for sv te mid auth p q b
    using assms [unfolded logs_def] project_content_grows [OF that] by (rule grows_trans)
  then show ?thesis
    using logs_trans [OF assms stop_logs(3)] by (auto simp: show_ready_def logs_backend split: option.splits)
qed

lemma select_turn_logs: "flow_logs c (select_turn ws lim turn c)"
  by (cases turn) (auto simp: select_turn_def serve_received_logs serve_next_command_logs serve_receipt_logs phase_logs stop_logs
      serve_retry_tick_def serve_group_sync_def split: group_sync.split sum.split intro!: phases_or_stop_logs logs_emit)

lemma dispatch_logs: "flow_logs c (dispatch_iteration ws lim turn c)"
proof -
  have 1: "logs c (activate_replay c)" and 2: "logs d (start_receipt d)" for d
    by (auto simp: activate_replay_def start_receipt_def Let_def split: prod.split option.split)
  show ?thesis
    using show_ready_logs [of c "activate_replay c\<lparr>cn_replay := _\<rparr>"] flow_logs_trans [OF logs_trans [OF 1 2] select_turn_logs] 1
    by (auto simp: dispatch_iteration_def Let_def split: prod.split option.split)
qed

lemma wait_turn_logs: "flow_logs c (wait_turn ws lim serving turn c)"
proof -
  have phase: "flow_logs c (case run_phases limit [f] c of
      (True, d) \<Rightarrow> Flow_Next d | (False, d) \<Rightarrow> Flow_Exit (stop_attachments_and_drain_acknowledgments ws n d))"
    if "\<And>c. logs c (f c)" for f limit n
  proof -
    have "logs c (snd (run_phases limit [f] c))" by (rule run_phases_logs) (simp add: that)
    then show ?thesis by (auto split: prod.split bool.split intro: logs_trans [OF _ stop_logs(1)])
  qed
  show ?thesis
    using phase [OF phase_logs(1)] phase [OF phase_logs(3)]
    by (cases turn) (auto simp: wait_turn_def phase_logs stop_logs split: list.split)
qed

lemma note_recovery_logs: "logs c (note_recovery error c)"
  by (auto simp: note_recovery_def Let_def split: prod.split intro!: logs_emit)

abbreviation worker_logs :: "'w connection \<Rightarrow> 'w worker \<Rightarrow> bool" where
  "worker_logs c w \<equiv> logs c (wk_connection w)"

lemma begin_iteration_logs: "logs c d \<Longrightarrow> worker_logs c (begin_iteration ws lim d)"
  by (auto simp: begin_iteration_def drain_recovery_commands_def split: option.split bool.split intro: logs_trans [OF _ stop_logs(1)])

lemma fail_deferred_logs: "logs c (fail_deferred_commands message c)"
proof -
  have one: "logs d (fail_deferred_command message command d)" for command and d :: "'a connection"
    by (auto simp: fail_deferred_command_def Let_def logs_backend split: prod.split option.split intro!: logs_emit)
  have "logs d (fold (fail_deferred_command message) commands d)" for commands and d :: "'a connection"
    by (induction commands arbitrary: d) (auto intro: logs_trans [OF one])
  from this [of "c\<lparr>cn_deferred := []\<rparr>"] show ?thesis by (simp add: fail_deferred_commands_def logs_def)
qed

lemma start_failed_logs: "worker_logs c (start_failed ws lim error transient c)"
proof (cases transient)
  case True
  then show ?thesis by (auto simp: start_failed_def intro!: begin_iteration_logs logs_emit note_recovery_logs)
next
  case False
  have "logs (c\<lparr>cn_ready := False\<rparr>) (stop_attachments_and_drain_acknowledgments ws (tl_cleanup lim)
      (fail_deferred_commands RECOVERY_STOPPED (c\<lparr>cn_ready := False\<rparr>)))"
    using fail_deferred_logs stop_logs(1) by (rule logs_trans)
  then show ?thesis using False by (simp add: start_failed_def logs_def)
qed

lemma receive_started_logs: "worker_logs c (receive_started ws lim c)"
proof -
  let ?c = "c\<lparr>cn_generation := max (cn_generation c + 1) 1, cn_contact_sync := Gated_Waiting,
      cn_avatar_fetch := Gated_Waiting, cn_group_sync := Sync_Absent\<rparr>"
  have "flow_logs ?c (run_startup_phases ws lim ?c)" by (rule run_startup_logs)
  then show ?thesis by (auto simp: receive_started_def logs_def flow_logs_def split: flow.splits)
qed

lemma connection_lost_logs: "logs c d \<Longrightarrow> worker_logs c (connection_lost ws lim error d)"
  unfolding connection_lost_def
  by (intro begin_iteration_logs logs_emit) (rule logs_trans [OF _ logs_trans [OF note_recovery_logs stop_logs(2)]])

lemma follow_flow_logs: "flow_logs (wk_connection w) flow \<Longrightarrow> worker_logs (wk_connection w) (follow_flow ws lim w flow)"
  by (cases flow) (simp_all add: follow_flow_def connection_lost_logs)

lemma worker_turn_logs: "worker_logs (wk_connection w) (worker_turn ws lim turn w)"
  by (auto simp: worker_turn_def Let_def receive_started_logs start_failed_logs
      split: worker_position.split turn.split sum.split intro!: follow_flow_logs wait_turn_logs dispatch_logs)

lemma task_logs:
  "logs c (synchronize_groups_task ws sync c)" "logs c (request_contacts_task request c)" "logs c (fetch_avatars_task ws source c)"
  by (auto simp: synchronize_groups_task_def request_contacts_task_def fetch_avatars_task_def logs_backend
      simp del: request_contacts_with_retries.simps split: prod.splits gated_task.splits
      dest!: synchronize_grows request_contacts_grows intro!: logs_on_snapshot fetch_missing_avatars_grows)

lemma plugin_step_logs: "logs c (plugin_step ws op c)"
  by (cases op) (simp_all add: task_logs logs_backend end_task_backend)

lemma worker_exec_logs: "worker_logs (wk_connection w) (worker_exec ws op w)"
  by (simp add: worker_exec_def worker_turn_logs plugin_step_logs del: plugin_step.simps split: worker_op.split)

lemma run_worker_end_logs: "worker_logs (wk_connection w) (run_worker_end w)"
proof -
  have "at_backend (fold drop_command commands s) = at_backend s" for commands and s :: "'a attachment_tasks"
    by (induction commands arbitrary: s) (simp_all add: drop_command_def split: command.split)
  then have "logs c (drop_session c)" for c :: "'a connection" by (simp add: drop_session_def logs_def drop_tasks_def)
  then have "logs c (close_acknowledgments (drop_session c))" for c :: "'a connection" using cleanup_logs(1) logs_trans by blast
  then show ?thesis
    by (auto simp: run_worker_end_def Let_def split: worker_position.split sum.split intro!: logs_emit)
qed

end
