(* ===== verification/Worker_Order.thy ===== *)
theory Worker_Order
  imports Worker
begin

section \<open>Readiness and the order of commands\<close>

text \<open>
  What the worker promises the plugin about its session and its commands: it dispatches only while ready, its assertions hold, and it
  serves the commands in the order they arrived, forgetting only typing notices, and those only while it is not connected. The
  promise is an abstract link with a phase and a queue, which the worker refines.
\<close>

subsection \<open>What the phases leave alone\<close>

definition frame :: "'w connection \<Rightarrow> 'w connection \<Rightarrow> bool" where
  "frame c c1 \<longleftrightarrow>
     ss_phase (cn_session c1) = ss_phase (cn_session c) \<and> cn_ready c1 = cn_ready c \<and>
     cn_deferred c1 = cn_deferred c \<and> cn_commands c1 = cn_commands c \<and> cn_closed c1 = cn_closed c"

lemma frame_refl [simp]: "frame c c"
  by (simp add: frame_def)

lemma frame_trans: "frame c c1 \<Longrightarrow> frame c1 c2 \<Longrightarrow> frame c c2"
  by (simp add: frame_def)

lemma frame_update [simp]:
  "frame c (set_backend b c1) = frame c c1"
  "frame c (on_backend f c1) = frame c c1"
  "frame c (c1\<lparr>cn_tasks := t\<rparr>) = frame c c1"
  "frame c (c1\<lparr>cn_projection := p\<rparr>) = frame c c1"
  "frame c (c1\<lparr>cn_replay := q\<rparr>) = frame c c1"
  "frame c (c1\<lparr>cn_avatars := v\<rparr>) = frame c c1"
  "frame c (c1\<lparr>cn_group_sync := g\<rparr>) = frame c c1"
  "frame c (c1\<lparr>cn_generation := n\<rparr>) = frame c c1"
  "frame c (c1\<lparr>cn_contact_sync := g1\<rparr>) = frame c c1"
  "frame c (c1\<lparr>cn_avatar_fetch := g2\<rparr>) = frame c c1"
  by (simp_all add: frame_def set_backend_def on_backend_def)

lemma phase_kept [simp]:
  "ss_phase (mark_groups_authoritative s) = ss_phase s" "ss_phase (mark_groups_pending s) = ss_phase s"
  "ss_phase (reset_recovery_backoff s) = ss_phase s" "ss_phase (note_group_content g s) = ss_phase s"
  by (simp_all add: session_defs)

lemma backend_fields [simp]:
  "cn_session (set_backend b c) = cn_session c" "cn_ready (set_backend b c) = cn_ready c"
  "cn_deferred (set_backend b c) = cn_deferred c" "cn_commands (set_backend b c) = cn_commands c"
  "cn_closed (set_backend b c) = cn_closed c"
  "cn_session (on_backend f c) = cn_session c" "cn_ready (on_backend f c) = cn_ready c"
  "cn_deferred (on_backend f c) = cn_deferred c" "cn_commands (on_backend f c) = cn_commands c"
  "cn_closed (on_backend f c) = cn_closed c"
  by (simp_all add: set_backend_def on_backend_def)

lemma frame_session [simp]:
  "frame c (c1\<lparr>cn_session := s\<rparr>) \<longleftrightarrow>
     ss_phase s = ss_phase (cn_session c) \<and> cn_ready c1 = cn_ready c \<and>
     cn_deferred c1 = cn_deferred c \<and> cn_commands c1 = cn_commands c \<and> cn_closed c1 = cn_closed c"
  by (simp add: frame_def)

lemma frame_on [simp]: "frame c (on_snapshot f c)" "frame c (on_projection g c)"
  by (simp_all add: on_snapshot_def on_projection_def split: prod.split)

lemma run_phases_frame: "list_all (\<lambda>f. \<forall>c. frame c (f c)) fs \<Longrightarrow> frame c (snd (run_phases limit fs c))"
proof (induction limit fs c rule: run_phases.induct)
  case (3 n f fs c)
  then show ?case using frame_trans by fastforce
next
  case (4 f fs c)
  then show ?case using frame_trans by fastforce
qed simp_all

lemma finish_cleanup_frame:
  assumes "list_all (\<lambda>f. \<forall>c. frame c (f c)) fs"
  shows "frame c (finish_cleanup limit fs c)"
  using run_phases_frame [OF assms, of c limit] by (auto simp: finish_cleanup_def split: prod.split bool.split)

lemma cleanup_frames [simp]:
  "frame c (abort_receipts c)" "frame c (abort_attachments ws c)" "frame c (drain_acks ws c)"
  "frame c (close_acknowledgments c)" "frame c (activate_ack_retries c)" "frame c (serve_acknowledgments ws c)"
  "frame c (serve_join ws i c)" "frame c (identity_changes ws c)" "frame c (outbox_round ws a c)"
  by (simp_all add: abort_receipts_def abort_attachments_def drain_acks_def close_acknowledgments_def
      activate_ack_retries_def serve_acknowledgments_def serve_join_def identity_changes_def outbox_round_def)

lemma stop_frames [simp]:
  "frame c (stop_attachments_and_drain_acknowledgments ws limit c)"
  "frame c (stop_receive_tasks ws limit [] c)"
  "frame c (stop_active_receive_loop ws limit c)"
proof -
  have close: "frame c (finish_cleanup limit fs (close_acknowledgments c))" if "list_all (\<lambda>f. \<forall>c. frame c (f c)) fs" for fs
    using frame_trans [OF cleanup_frames(4) finish_cleanup_frame [OF that]] .
  show "frame c (stop_attachments_and_drain_acknowledgments ws limit c)"
    unfolding stop_attachments_and_drain_acknowledgments_def by (rule close) simp
  have stop: "frame c (stop_receive_tasks ws limit fs c)" if "list_all (\<lambda>f. \<forall>c. frame c (f c)) fs" for fs c
  proof -
    have "frame (c\<lparr>cn_group_sync := Sync_Absent, cn_contact_sync := Gated_Absent, cn_avatar_fetch := Gated_Absent\<rparr>)
        (stop_receive_tasks ws limit fs c)"
      unfolding stop_receive_tasks_def by (rule finish_cleanup_frame) (use that in simp)
    then show ?thesis by (simp add: frame_def)
  qed
  then show "frame c (stop_receive_tasks ws limit [] c)" by simp
  show "frame c (stop_active_receive_loop ws limit c)"
    unfolding stop_active_receive_loop_def
    using frame_trans [OF cleanup_frames(4) stop, of "[abort_receipts, drain_acks ws]" c] by simp
qed

lemma startup_frame [simp]: "frame c (startup_group_snapshot ws c)" "frame c (load_unprojected ws c)" "frame c (refresh_groups ws c)"
  by (simp_all add: startup_group_snapshot_def load_unprojected_def refresh_groups_def group_snapshot_def
      split: prod.split sum.split)

lemma startup_phases_frame: "frame c (snd (run_phases limit (startup_phases ws a) c))"
  by (rule run_phases_frame) (simp add: startup_phases_def)

subsection \<open>The abstract link\<close>

datatype link_phase = Link_Down | Link_Up | Link_Over

record link =
  lk_phase :: link_phase
  lk_queue :: "command list"

fun is_typing :: "command \<Rightarrow> bool" where
  "is_typing (Set_Typing _ _ _) = True"
| "is_typing _ = False"

definition lasting :: "command list \<Rightarrow> command list" where
  "lasting q = filter (\<lambda>c. \<not> is_typing c) q"

text \<open>
  A command arrives at the end of the queue; a connected link serves the one at its front; a link
  that is down, or goes down, forgets typing notices; and a link that is over has at most let go of a
  front part of the queue.
\<close>

inductive link_step :: "command list \<Rightarrow> link \<Rightarrow> link \<Rightarrow> bool" where
  Link_Stay: "link_step [] l l"
| Link_Arrive: "lk_phase l \<noteq> Link_Over \<Longrightarrow> link_step [c] l (l\<lparr>lk_queue := lk_queue l @ [c]\<rparr>)"
| Link_Serve: "lk_phase l = Link_Up \<Longrightarrow> lk_queue l = c # q \<Longrightarrow> link_step [] l (l\<lparr>lk_queue := q\<rparr>)"
| Link_Rise: "lk_phase l = Link_Down \<Longrightarrow> link_step [] l (l\<lparr>lk_phase := Link_Up\<rparr>)"
| Link_Forget: "lk_phase l \<noteq> Link_Over \<Longrightarrow> lasting q = lasting (lk_queue l) \<Longrightarrow>
    link_step [] l \<lparr>lk_phase = Link_Down, lk_queue = q\<rparr>"
| Link_End: "lk_phase l \<noteq> Link_Over \<Longrightarrow> lasting (lk_queue l) = xs @ lasting q \<Longrightarrow>
    link_step [] l \<lparr>lk_phase = Link_Over, lk_queue = q\<rparr>"

inductive_cases link_overE: "link_step cs \<lparr>lk_phase = Link_Over, lk_queue = q\<rparr> l"

definition waiting :: "'w connection \<Rightarrow> command list" where
  "waiting c = cn_deferred c @ cn_commands c"

primrec link_phase_of :: "worker_position \<Rightarrow> link_phase" where
  "link_phase_of At_Recovery = Link_Down"
| "link_phase_of At_Start = Link_Down"
| "link_phase_of At_Dispatch = Link_Up"
| "link_phase_of (At_End r) = Link_Over"
| "link_phase_of At_Panic = Link_Over"

definition link_of :: "'w worker \<Rightarrow> link" where
  "link_of w = \<lparr>lk_phase = link_phase_of (wk_position w), lk_queue = waiting (wk_connection w)\<rparr>"

definition position_ok :: "worker_position \<Rightarrow> 'w connection \<Rightarrow> bool" where
  "position_ok pos c \<longleftrightarrow>
     (case pos of
        At_Recovery \<Rightarrow> is_recovering (cn_session c) \<and> \<not> cn_ready c
      | At_Start \<Rightarrow> \<not> is_ready (cn_session c) \<and> \<not> cn_ready c
      | At_Dispatch \<Rightarrow> is_ready (cn_session c)
      | _ \<Rightarrow> True)"

definition worker_inv :: "'w worker \<Rightarrow> bool" where
  "worker_inv w \<longleftrightarrow> position_ok (wk_position w) (wk_connection w)"

lemma frame_position: "frame c c1 \<Longrightarrow> position_ok pos c1 = position_ok pos c"
  by (simp add: frame_def position_ok_def is_recovering_def is_ready_def split: worker_position.split)

lemma frame_waiting: "frame c c1 \<Longrightarrow> waiting c1 = waiting c"
  by (simp add: frame_def waiting_def)

lemma waiting_backend [simp]: "waiting (on_backend f c) = waiting c"
  by (simp add: waiting_def)

lemma lasting_simps [simp]:
  "lasting (xs @ ys) = lasting xs @ lasting ys" "lasting [] = []"
  "lasting (c # q) = (if is_typing c then lasting q else c # lasting q)"
  by (simp_all add: lasting_def)

lemma recovery_command_lasting: "lasting (handle_recovery_command c q) = lasting (q @ [c])"
  by (cases c) (simp_all add: handle_recovery_command_def)

lemma recovery_commands_lasting: "lasting (fold handle_recovery_command cs q) = lasting (q @ cs)"
  by (induction cs arbitrary: q) (simp_all add: recovery_command_lasting)

subsection \<open>Flows\<close>

text \<open>A flow that leaves the queue and the readiness alone.\<close>

definition calm_flow :: "'w connection \<Rightarrow> 'w connection flow \<Rightarrow> bool" where
  "calm_flow c flow \<longleftrightarrow>
     (case flow of Flow_Next c1 \<Rightarrow> frame c c1 | Flow_Recover _ c1 \<Rightarrow> frame c c1 | Flow_Exit c1 \<Rightarrow> frame c c1
      | Flow_Panic \<Rightarrow> True)"

lemma phases_or_stop_calm:
  assumes "list_all (\<lambda>f. \<forall>c. frame c (f c)) fs" "frame c c0"
  shows "calm_flow c (phases_or_stop ws lim fs c0)"
proof -
  have "frame c (snd (run_phases (tl_shutdown lim) fs c0))"
    using run_phases_frame [OF assms(1)] assms(2) by (rule frame_trans [rotated])
  then show ?thesis
    by (auto simp: calm_flow_def phases_or_stop_def split: prod.split bool.split intro: frame_trans)
qed

lemma serve_received_calm: "calm_flow c (serve_received ws lim item c)"
proof (cases item)
  case Received_Queue_Empty
  then show ?thesis
    by (auto simp: serve_received_def serve_queue_empty_def Let_def intro!: phases_or_stop_calm)
next
  case (Received_Content content)
  then show ?thesis
    by (auto simp: serve_received_def Let_def intro!: phases_or_stop_calm) (simp add: calm_flow_def)
qed (auto simp: serve_received_def intro!: phases_or_stop_calm, simp add: calm_flow_def)

lemma serve_receipt_calm: "calm_flow c (serve_receipt ended c)"
  by (auto simp: serve_receipt_def Let_def calm_flow_def split: sum.split prod.split option.split)

lemma serve_retry_tick_calm: "calm_flow c (serve_retry_tick ws lim c)"
  by (auto simp: serve_retry_tick_def intro!: phases_or_stop_calm) (simp add: calm_flow_def)

lemma serve_group_sync_calm: "calm_flow c (serve_group_sync ws lim c)"
  by (auto simp: serve_group_sync_def Let_def calm_flow_def [of _ "Flow_Next _"] split: group_sync.split sum.split intro!: phases_or_stop_calm)

lemma show_ready_calm: "frame c c0 \<Longrightarrow> calm_flow c (show_ready ws lim content c0)"
  by (auto simp: show_ready_def calm_flow_def split: option.split intro: frame_trans)

lemma start_receipt_frame: "frame c (start_receipt c)" "frame c (activate_replay c)"
  by (auto simp: start_receipt_def activate_replay_def Let_def split: prod.split option.split)

text \<open>A flow that serves the command at the front of the queue.\<close>

definition serving_flow :: "'w connection \<Rightarrow> 'w connection flow \<Rightarrow> bool" where
  "serving_flow c flow \<longleftrightarrow>
     (case flow of
        Flow_Next c1 \<Rightarrow> (\<exists>command. waiting c = command # waiting c1) \<and> position_ok At_Dispatch c1
      | Flow_Exit c1 \<Rightarrow> (\<exists>command. waiting c = command # waiting c1)
      | Flow_Recover _ _ \<Rightarrow> False
      | Flow_Panic \<Rightarrow> True)"

lemma calm_after_pop:
  assumes "calm_flow c1 flow" "\<And>e c2. flow \<noteq> Flow_Recover e c2" "waiting c = command # waiting c1" "position_ok At_Dispatch c1"
  shows "serving_flow c flow"
proof -
  have kept: "waiting c2 = waiting c1 \<and> position_ok At_Dispatch c2" if "frame c1 c2" for c2
    using frame_waiting [OF that] frame_position [OF that] assms(4) by simp
  show ?thesis using assms(1-3) by (cases flow) (auto simp: calm_flow_def serving_flow_def dest: kept)
qed

lemma begin_leave_frame [simp]: "frame c (begin_leave_for a command c1) = frame c c1"
  by (cases command) (simp_all add: begin_leave_for_def)

lemma phases_never_recover: "phases_or_stop ws lim fs c \<noteq> Flow_Recover e c2"
  by (simp add: phases_or_stop_def split: prod.split bool.split)

lemma serve_command_calm: "calm_flow c (serve_command ws lim command c)" "serve_command ws lim command c \<noteq> Flow_Recover e c2"
proof -
  have "calm_flow c (phases_or_stop ws l [identity_changes ws] (set_backend b (begin_leave_for a command c)))" for l b a
    by (rule phases_or_stop_calm) simp_all
  moreover have "frame c (stop_active_receive_loop ws n (begin_leave_for a command c))" for a n
    by (rule frame_trans [OF _ stop_frames(3)]) simp
  ultimately show "calm_flow c (serve_command ws lim command c)"
    by (cases command) (auto simp: serve_command_def Let_def calm_flow_def [of _ Flow_Panic] calm_flow_def [of _ "Flow_Exit _"]
        calm_flow_def [of _ "Flow_Next _"] split: option.split nat.split)
  show "serve_command ws lim command c \<noteq> Flow_Recover e c2"
    by (cases command) (auto simp: serve_command_def Let_def phases_never_recover split: option.split nat.split)
qed

lemma next_command_pop:
  assumes "is_ready (cn_session c)" "waiting c = command # q"
  shows "\<exists>c1. next_command c = (Some command, c1) \<and> waiting c1 = q \<and> cn_session c1 = cn_session c \<and> cn_ready c1 = cn_ready c"
  using assms by (cases "cn_deferred c"; cases "cn_commands c") (auto simp: next_command_def waiting_def)

lemma serve_next_command_flow:
  assumes "position_ok At_Dispatch c"
  shows "calm_flow c (serve_next_command ws lim c) \<or> serving_flow c (serve_next_command ws lim c)"
proof -
  have ready: "is_ready (cn_session c)" using assms by (simp add: position_ok_def)
  show ?thesis
  proof (cases "waiting c")
    case Nil
    then have "next_command c = (None, c)" using ready by (simp add: next_command_def waiting_def)
    then show ?thesis by (simp add: serve_next_command_def calm_flow_def)
  next
    case (Cons command q)
    then obtain c1 where 2: "next_command c = (Some command, c1)" "waiting c = command # waiting c1"
        "cn_session c1 = cn_session c" "cn_ready c1 = cn_ready c"
      using next_command_pop [OF ready Cons] by auto
    then have "position_ok At_Dispatch c1" using assms by (simp add: position_ok_def)
    then have "serving_flow c (serve_command ws lim command c1)"
      using calm_after_pop [OF serve_command_calm] 2(2) by blast
    then show ?thesis using 2 ready by (simp add: serve_next_command_def)
  qed
qed

lemma select_turn_flow:
  assumes "position_ok At_Dispatch c"
  shows "calm_flow c (select_turn ws lim turn c) \<or> serving_flow c (select_turn ws lim turn c)"
proof (cases turn)
  case Turn_Command
  then show ?thesis using serve_next_command_flow [OF assms] by (simp add: select_turn_def)
qed (auto simp: select_turn_def serve_received_calm serve_receipt_calm serve_retry_tick_calm serve_group_sync_calm
      calm_flow_def [of _ "Flow_Next _"] calm_flow_def [of _ "Flow_Exit _"] calm_flow_def [of _ "Flow_Recover _ _"]
      intro!: phases_or_stop_calm)

lemma flow_trans:
  assumes "frame c c1" and "calm_flow c1 flow \<or> serving_flow c1 flow"
  shows "calm_flow c flow \<or> serving_flow c flow"
  using assms(2) frame_waiting [OF assms(1)]
  by (cases flow) (auto simp: calm_flow_def serving_flow_def intro: frame_trans [OF assms(1)])

lemma dispatch_flow:
  assumes "position_ok At_Dispatch c"
  shows "calm_flow c (dispatch_iteration ws lim turn c) \<or> serving_flow c (dispatch_iteration ws lim turn c)"
proof -
  let ?c1 = "activate_replay c"
  have f1: "frame c ?c1" by (rule start_receipt_frame)
  then have f2: "frame c (start_receipt ?c1)" using frame_trans start_receipt_frame(1) by blast
  then have "position_ok At_Dispatch (start_receipt ?c1)" using assms frame_position by blast
  moreover have "calm_flow c (show_ready ws lim content (?c1\<lparr>cn_replay := q\<rparr>))" for content q
    using f1 by (intro show_ready_calm) simp
  ultimately show ?thesis
    using flow_trans [OF f2 select_turn_flow, of ws lim turn]
    by (auto simp: dispatch_iteration_def Let_def split: prod.split option.split)
qed

subsection \<open>The refinement\<close>

lemma begin_iteration_refines:
  assumes c: "is_recovering (cn_session c)" "\<not> cn_ready c"
    and l: "lk_phase l \<noteq> Link_Over" "lasting (waiting c) = lasting (lk_queue l)"
  shows "worker_inv (begin_iteration ws lim c) \<and> link_step [] l (link_of (begin_iteration ws lim c))"
proof -
  let ?c1 = "snd (drain_recovery_commands c)"
  have q: "lasting (waiting ?c1) = lasting (lk_queue l)"
    using l(2) by (simp add: drain_recovery_commands_def waiting_def recovery_commands_lasting)
  show ?thesis
  proof (cases "cn_closed c")
    case True
    let ?c2 = "stop_attachments_and_drain_acknowledgments ws (tl_cleanup lim) ?c1"
    have "lasting (lk_queue l) = [] @ lasting (waiting ?c2)" using q by (simp add: frame_waiting [OF stop_frames(1)])
    from Link_End [OF l(1) this] show ?thesis
      using True c by (simp add: begin_iteration_def drain_recovery_commands_def link_of_def worker_inv_def position_ok_def)
  next
    case False
    obtain d b where d: "next_delay (ss_recovery_backoff (cn_session c)) = (d, b)"
      by (cases "next_delay (ss_recovery_backoff (cn_session c))")
    have "link_step [] l \<lparr>lk_phase = Link_Down, lk_queue = waiting (?c1\<lparr>cn_session := s\<rparr>)\<rparr>" for s
      using q by (intro Link_Forget [OF l(1)]) (simp add: waiting_def)
    then show ?thesis
      using False c d
      by (simp add: begin_iteration_def drain_recovery_commands_def link_of_def worker_inv_def position_ok_def session_defs)
  qed
qed

lemma note_recovery_state:
  "is_recovering (cn_session (note_recovery error c))" "\<not> cn_ready (note_recovery error c)"
  "waiting (note_recovery error c) = waiting c"
  by (simp_all add: note_recovery_def enter_recovery_def is_recovering_def waiting_def Let_def)

lemma frame_recovering:
  "frame c c1 \<Longrightarrow> is_recovering (cn_session c1) = is_recovering (cn_session c) \<and> cn_ready c1 = cn_ready c"
  by (simp add: frame_def is_recovering_def)

lemma connection_lost_refines:
  assumes "lk_phase l \<noteq> Link_Over" "waiting c = lk_queue l"
  shows "worker_inv (connection_lost ws lim error c) \<and> link_step [] l (link_of (connection_lost ws lim error c))"
proof -
  let ?c1 = "stop_receive_tasks ws (tl_cleanup lim) [] (note_recovery error c)"
  have "frame (note_recovery error c) (on_backend f ?c1)" for f by simp
  from frame_recovering [OF this] frame_waiting [OF this] show ?thesis
    unfolding connection_lost_def
    by (intro begin_iteration_refines) (simp_all add: note_recovery_state assms)
qed

lemma fail_deferred_frame: "frame c (fail_deferred_command m command c)"
  by (auto simp: fail_deferred_command_def Let_def split: prod.split option.split)

lemma fail_deferred_commands_state:
  "cn_deferred (fail_deferred_commands m c) = [] \<and> cn_commands (fail_deferred_commands m c) = cn_commands c"
proof -
  have "frame c (fold (fail_deferred_command m) cs c)" for cs and c :: "'a connection"
    by (induction cs arbitrary: c) (auto intro: frame_trans fail_deferred_frame)
  from this [of "c\<lparr>cn_deferred := []\<rparr>" "cn_deferred c"] show ?thesis
    by (simp add: fail_deferred_commands_def frame_def)
qed

lemma start_failed_refines:
  assumes "lk_phase l \<noteq> Link_Over" "waiting c = lk_queue l"
  shows "worker_inv (start_failed ws lim error transient c) \<and> link_step [] l (link_of (start_failed ws lim error transient c))"
proof (cases transient)
  case True
  have "worker_inv (begin_iteration ws lim (on_backend f (note_recovery error c))) \<and>
      link_step [] l (link_of (begin_iteration ws lim (on_backend f (note_recovery error c))))" for f
    by (rule begin_iteration_refines) (simp_all add: note_recovery_state assms)
  then show ?thesis using True by (simp add: start_failed_def)
next
  case False
  let ?c1 = "fail_deferred_commands RECOVERY_STOPPED (c\<lparr>cn_ready := False\<rparr>)"
  let ?c2 = "stop_attachments_and_drain_acknowledgments ws (tl_cleanup lim) ?c1"
  have "waiting ?c2 = cn_commands c"
    using fail_deferred_commands_state [of RECOVERY_STOPPED "c\<lparr>cn_ready := False\<rparr>"]
    by (simp add: frame_waiting [OF stop_frames(1)] waiting_def [of ?c1])
  then have "lasting (lk_queue l) = lasting (cn_deferred c) @ lasting (waiting ?c2)"
    unfolding assms(2) [symmetric] by (simp add: waiting_def [of c])
  from Link_End [OF assms(1) this] show ?thesis
    using False by (simp add: start_failed_def link_of_def worker_inv_def position_ok_def)
qed

text \<open>While the connection is down, a wait keeps the lasting commands and the position.\<close>

definition waiting_flow :: "worker_position \<Rightarrow> 'w connection \<Rightarrow> 'w connection flow \<Rightarrow> bool" where
  "waiting_flow pos c flow \<longleftrightarrow>
     (case flow of
        Flow_Next c1 \<Rightarrow> lasting (waiting c1) = lasting (waiting c) \<and> position_ok pos c1
      | Flow_Exit c1 \<Rightarrow> lasting (waiting c1) = lasting (waiting c)
      | _ \<Rightarrow> False)"

lemma wait_phases:
  assumes "\<And>c. frame c (f c)" "position_ok pos c"
  shows "waiting_flow pos c (case run_phases limit [f] c of
      (True, c1) \<Rightarrow> Flow_Next c1 | (False, c1) \<Rightarrow> Flow_Exit (stop_attachments_and_drain_acknowledgments ws n c1))"
proof -
  obtain ok c1 where r: "run_phases limit [f] c = (ok, c1)" by (cases "run_phases limit [f] c")
  have "frame c (snd (run_phases limit [f] c))" by (rule run_phases_frame) (simp add: assms(1))
  then have f: "frame c c1" by (simp add: r)
  have "waiting c1 = waiting c" "position_ok pos c1"
    using frame_waiting [OF f] frame_position [OF f, of pos] assms(2) by simp_all
  then show ?thesis
    by (cases ok) (simp_all add: r waiting_flow_def frame_waiting [OF stop_frames(1)])
qed

lemma wait_turn_flow:
  assumes "position_ok pos c"
  shows "waiting_flow pos c (wait_turn ws lim serving turn c)"
proof (cases turn)
  case Turn_Command
  have "position_ok pos (c\<lparr>cn_commands := q, cn_deferred := d\<rparr>)" for q d
    using assms by (cases pos) (simp_all add: position_ok_def)
  moreover have "cn_deferred (stop_attachments_and_drain_acknowledgments ws n c) = cn_deferred c"
      "cn_commands (stop_attachments_and_drain_acknowledgments ws n c) = cn_commands c" for n
    using stop_frames(1) [of c ws n] by (simp_all add: frame_def)
  ultimately show ?thesis
    using Turn_Command assms
    by (auto simp: wait_turn_def waiting_flow_def waiting_def recovery_command_lasting split: list.split)
next
  case Turn_Acknowledgments
  then show ?thesis using wait_phases [of "serve_acknowledgments ws", OF cleanup_frames(6) assms, of ws "tl_cleanup lim" "tl_shutdown lim"]
    by (simp add: wait_turn_def)
next
  case (Turn_Joined i)
  then show ?thesis
    using wait_phases [of "serve_join ws i", OF cleanup_frames(7) assms, of ws "tl_cleanup lim" "tl_shutdown lim"] assms
    by (cases serving) (auto simp: wait_turn_def waiting_flow_def [of _ _ "Flow_Next _"])
next
  case Turn_Ack_Tick
  then show ?thesis
    using assms
    by (simp add: wait_turn_def waiting_flow_def frame_position [OF cleanup_frames(5)] frame_waiting [OF cleanup_frames(5)])
qed (use assms in \<open>auto simp: wait_turn_def waiting_flow_def frame_waiting [OF stop_frames(1)]\<close>)

lemma receive_started_refines:
  assumes "\<not> is_ready (cn_session c)" "\<not> cn_ready c" "lk_phase l = Link_Down" "lk_queue l = waiting c"
  shows "worker_inv (receive_started ws lim c) \<and> link_step [] l (link_of (receive_started ws lim c))"
proof -
  let ?c0 = "c\<lparr>cn_generation := max (cn_generation c + 1) 1, cn_contact_sync := Gated_Waiting,
      cn_avatar_fetch := Gated_Waiting, cn_group_sync := Sync_Absent\<rparr>"
  let ?phases = "startup_phases ws (groups_authoritative (cn_session ?c0))"
  obtain ok c1 where r: "run_phases (tl_shutdown lim) ?phases ?c0 = (ok, c1)"
    by (cases "run_phases (tl_shutdown lim) ?phases ?c0")
  have "frame ?c0 c1" using startup_phases_frame [of ?c0 "tl_shutdown lim" ws "groups_authoritative (cn_session ?c0)"] r by simp
  then have f: "\<not> is_ready (cn_session c1)" "waiting c1 = waiting c"
    using assms by (auto simp: frame_def is_ready_def waiting_def)
  have over: "link_step [] l \<lparr>lk_phase = Link_Over, lk_queue = waiting c\<rparr>"
    using assms(3,4) by (intro Link_End [of _ "[]"]) simp_all
  have "link_step [] l (l\<lparr>lk_phase := Link_Up\<rparr>)" by (rule Link_Rise [OF assms(3)])
  moreover have "l\<lparr>lk_phase := Link_Up\<rparr> = \<lparr>lk_phase = Link_Up, lk_queue = waiting c\<rparr>" using assms(4) by (cases l) simp
  ultimately have up: "link_step [] l \<lparr>lk_phase = Link_Up, lk_queue = waiting c\<rparr>" by simp
  have end_: "waiting (stop_attachments_and_drain_acknowledgments ws n c1) = waiting c" for n
    by (simp add: frame_waiting [OF stop_frames(1)] f(2))
  have "waiting (c1\<lparr>cn_session := s, cn_projection := p, cn_ready := True\<rparr>) = waiting c" for s p using f(2) by (simp add: waiting_def)
  then show ?thesis
    using assms(1) r f(1) over up
    by (cases ok) (simp_all add: receive_started_def run_startup_phases_def mark_ready_def link_of_def worker_inv_def
        position_ok_def is_ready_def end_)
qed

lemma follow_waiting_refines:
  assumes "link_phase_of (wk_position w) = Link_Down" "waiting_flow (wk_position w) (wk_connection w) flow"
  shows "worker_inv (follow_flow ws lim w flow) \<and> link_step [] (link_of w) (link_of (follow_flow ws lim w flow))"
proof (cases flow)
  case (Flow_Next c1)
  then have "lasting (waiting c1) = lasting (lk_queue (link_of w))" using assms(2) by (simp add: waiting_flow_def link_of_def)
  from Link_Forget [OF _ this] show ?thesis
    using Flow_Next assms by (simp add: follow_flow_def worker_inv_def waiting_flow_def link_of_def)
next
  case (Flow_Exit c1)
  then have "lasting (lk_queue (link_of w)) = [] @ lasting (waiting c1)" using assms(2) by (simp add: waiting_flow_def link_of_def)
  from Link_End [OF _ this] show ?thesis
    using Flow_Exit assms by (simp add: follow_flow_def worker_inv_def position_ok_def link_of_def)
qed (use assms in \<open>simp_all add: waiting_flow_def\<close>)

lemma follow_dispatch_refines:
  assumes "wk_position w = At_Dispatch" "worker_inv w"
    and "calm_flow (wk_connection w) flow \<or> serving_flow (wk_connection w) flow"
  shows "worker_inv (follow_flow ws lim w flow) \<and> link_step [] (link_of w) (link_of (follow_flow ws lim w flow))"
proof -
  let ?c = "wk_connection w"
  have pos: "position_ok At_Dispatch ?c" using assms(1,2) by (simp add: worker_inv_def)
  have l: "link_of w = \<lparr>lk_phase = Link_Up, lk_queue = waiting ?c\<rparr>" using assms(1) by (simp add: link_of_def)
  have stay: "worker_inv (w\<lparr>wk_connection := c1\<rparr>) \<and> link_step [] (link_of w) (link_of (w\<lparr>wk_connection := c1\<rparr>))"
    if "position_ok At_Dispatch c1" "waiting c1 = waiting ?c \<or> (\<exists>command. waiting ?c = command # waiting c1)" for c1
    using that Link_Stay [of "link_of w"] Link_Serve [of "link_of w"] assms(1)
    by (auto simp: l worker_inv_def link_of_def)
  have ended: "link_step [] (link_of w) \<lparr>lk_phase = Link_Over, lk_queue = q\<rparr>"
    if "waiting ?c = xs @ q" for xs q
    using that by (intro Link_End [of _ "lasting xs"]) (simp_all add: l)
  show ?thesis
  proof (cases flow)
    case (Flow_Next c1)
    have "position_ok At_Dispatch c1 \<and> (waiting c1 = waiting ?c \<or> (\<exists>command. waiting ?c = command # waiting c1))"
      using assms(3) Flow_Next pos by (auto simp: calm_flow_def serving_flow_def frame_waiting frame_position)
    then show ?thesis using stay Flow_Next by (simp add: follow_flow_def)
  next
    case (Flow_Recover e c1)
    then have "waiting c1 = waiting ?c" using assms(3) by (auto simp: calm_flow_def serving_flow_def frame_waiting)
    then show ?thesis using Flow_Recover connection_lost_refines [of "link_of w" c1] by (simp add: follow_flow_def l)
  next
    case (Flow_Exit c1)
    then have "waiting c1 = waiting ?c \<or> (\<exists>command. waiting ?c = command # waiting c1)"
      using assms(3) by (auto simp: calm_flow_def serving_flow_def frame_waiting)
    then have "link_step [] (link_of w) \<lparr>lk_phase = Link_Over, lk_queue = waiting c1\<rparr>"
      using ended [of "[]" "waiting c1"] ended [of "[_]" "waiting c1"] by auto
    then show ?thesis using Flow_Exit by (simp add: follow_flow_def worker_inv_def position_ok_def link_of_def)
  next
    case Flow_Panic
    then show ?thesis using ended [of "[]" "waiting ?c"] by (simp add: follow_flow_def worker_inv_def position_ok_def link_of_def)
  qed
qed

text \<open>One turn of the worker is one step of the link.\<close>

lemma worker_turn_refines:
  assumes "worker_inv w"
  shows "worker_inv (worker_turn ws lim turn w) \<and> link_step [] (link_of w) (link_of (worker_turn ws lim turn w))"
proof -
  let ?c = "wk_connection w"
  let ?goal = "\<lambda>w1. worker_inv w1 \<and> link_step [] (link_of w) (link_of w1)"
  have pos: "position_ok (wk_position w) ?c" using assms by (simp add: worker_inv_def)
  note waits = follow_waiting_refines [OF _ wait_turn_flow [OF pos], of ws lim ws lim _ turn]
  show ?thesis
  proof (cases "wk_position w")
    case At_Recovery
    have "?goal (w\<lparr>wk_position := At_Start\<rparr>)"
      using At_Recovery pos Link_Stay [of "link_of w"]
      by (auto simp: worker_inv_def position_ok_def link_of_def is_recovering_def is_ready_def)
    then show ?thesis using At_Recovery waits [of True] by (cases turn) (simp_all add: worker_turn_def Let_def)
  next
    case At_Start
    have l: "lk_phase (link_of w) = Link_Down" "lk_queue (link_of w) = waiting ?c"
      using At_Start by (simp_all add: link_of_def)
    have "?goal (receive_started ws lim ?c)" using receive_started_refines [of ?c "link_of w"] pos At_Start l by (simp add: position_ok_def)
    moreover have "?goal (start_failed ws lim e transient ?c)" for e transient
      using start_failed_refines [of "link_of w" ?c] l by simp
    ultimately show ?thesis using At_Start waits [of "is_recovering (cn_session ?c)"]
      by (cases turn) (auto simp: worker_turn_def Let_def split: sum.split)
  next
    case At_Dispatch
    then show ?thesis
      using follow_dispatch_refines [OF At_Dispatch assms dispatch_flow [of ?c ws lim turn], of ws lim] pos
      by (simp add: worker_turn_def Let_def)
  qed (use assms Link_Stay in \<open>simp_all add: worker_turn_def Let_def\<close>)
qed

subsection \<open>Every run of the worker is a run of the link\<close>

definition arrival :: "'w worker_op \<Rightarrow> 'w worker \<Rightarrow> command list" where
  "arrival op w =
     (case op of Op_Arrive command \<Rightarrow> if worker_over w \<or> cn_closed (wk_connection w) then [] else [command] | _ \<Rightarrow> [])"

lemma task_frame:
  "frame c (synchronize_groups_task ws sync c)" "frame c (request_contacts_task request c)" "frame c (fetch_avatars_task ws source c)"
  by (simp_all add: synchronize_groups_task_def request_contacts_task_def fetch_avatars_task_def split: prod.split gated_task.split)

lemma plugin_step_frame: "frame c (plugin_step ws op c) \<or> (\<exists>d. op = Op_Arrive d) \<or> op = Op_Hang_Up"
  by (cases op) (simp_all add: task_frame)

lemma plugin_step_position: "position_ok pos (plugin_step ws op c) = position_ok pos c"
proof (cases "frame c (plugin_step ws op c)")
  case True
  then show ?thesis by (rule frame_position)
next
  case False
  then have "(\<exists>d. op = Op_Arrive d) \<or> op = Op_Hang_Up" using plugin_step_frame by blast
  then show ?thesis by (elim disjE exE) (cases pos; simp add: position_ok_def)+
qed

lemma plugin_step_waiting:
  "\<not> worker_over w \<Longrightarrow> waiting (plugin_step ws op (wk_connection w)) = waiting (wk_connection w) @ arrival op w"
  using frame_waiting [OF task_frame(1)] frame_waiting [OF task_frame(2)] frame_waiting [OF task_frame(3)]
  by (cases op) (simp_all add: waiting_def arrival_def)

lemma worker_exec_refines:
  assumes "worker_inv w"
  shows "worker_inv (worker_exec ws op w) \<and> link_step (arrival op w) (link_of w) (link_of (worker_exec ws op w))"
proof (cases "worker_over w")
  case True
  then show ?thesis using assms Link_Stay by (cases op) (simp_all add: worker_exec_def arrival_def)
next
  case False
  let ?w1 = "w\<lparr>wk_connection := plugin_step ws op (wk_connection w)\<rparr>"
  have "lk_phase (link_of w) \<noteq> Link_Over" using False by (cases "wk_position w") (simp_all add: worker_over_def link_of_def)
  moreover have "arrival op w = [] \<or> (\<exists>command. arrival op w = [command])"
    by (simp add: arrival_def split: worker_op.split)
  moreover have "link_of ?w1 = (link_of w)\<lparr>lk_queue := lk_queue (link_of w) @ arrival op w\<rparr>"
    by (simp add: link_of_def plugin_step_waiting [OF False])
  ultimately have "link_step (arrival op w) (link_of w) (link_of ?w1)"
    using Link_Stay [of "link_of w"] Link_Arrive [of "link_of w"] by auto
  moreover have "worker_inv ?w1" using assms by (simp add: worker_inv_def plugin_step_position)
  ultimately show ?thesis
    using False worker_turn_refines [OF assms, of ws]
    by (cases op) (simp_all add: worker_exec_def arrival_def)
qed

interpretation worker: op_system "worker_exec ws" worker_inv
  by unfold_locales (simp add: worker_exec_refines)

lemma new_worker_inv: "worker_inv (receive_and_command_loop ws lim inbox admission avatars world)"
  by (auto simp: receive_and_command_loop_def begin_iteration_def connection_new_def session_default_def worker_inv_def
      position_ok_def is_recovering_def is_ready_def Let_def split: prod.split sum.split)

lemma new_worker_waiting: "waiting (wk_connection (receive_and_command_loop ws lim inbox admission avatars world)) = []"
  by (auto simp: receive_and_command_loop_def begin_iteration_def connection_new_def session_default_def waiting_def
      is_recovering_def Let_def split: prod.split sum.split)

primrec arrivals :: "('w, 'img) worker_services \<Rightarrow> 'w worker_op list \<Rightarrow> 'w worker \<Rightarrow> command list" where
  "arrivals ws [] w = []"
| "arrivals ws (op # ops) w = arrival op w @ arrivals ws ops (worker_exec ws op w)"

lemma link_step_order: "link_step cs l m \<Longrightarrow> suffix (lasting (lk_queue m)) (lasting (lk_queue l @ cs))"
  by (induction rule: link_step.induct) (auto simp: suffix_def)

lemma waiting_run_order:
  assumes "worker_inv w"
  shows "suffix (lasting (waiting (wk_connection (fold (worker_exec ws) ops w)))) (lasting (waiting (wk_connection w) @ arrivals ws ops w))"
  using assms
proof (induction ops arbitrary: w)
  case Nil
  then show ?case by simp
next
  case (Cons op ops)
  from worker_exec_refines [OF Cons.prems, of ws op]
  have inv: "worker_inv (worker_exec ws op w)"
    and "suffix (lasting (waiting (wk_connection (worker_exec ws op w)))) (lasting (waiting (wk_connection w) @ arrival op w))"
    by (auto dest: link_step_order simp: link_of_def)
  then have "suffix (lasting (waiting (wk_connection (worker_exec ws op w)) @ arrivals ws ops (worker_exec ws op w)))
      (lasting (waiting (wk_connection w) @ arrivals ws (op # ops) w))"
    by (auto simp: suffix_def)
  then show ?case using Cons.IH [OF inv] by (auto intro: suffix_order.trans)
qed

text \<open>
  C6. The connection loop refines the abstract link: whatever the plugin, the service and the
  attachment tasks do, each turn of the worker and each step of the plugin is one step of a link that
  is down, up or over, to which a command is added at the end of its queue, which takes the command at
  the front only while it is up, which forgets at most typing notices when it goes down or while it is
  down, and which never takes another step once it is over. In every state reached, the worker
  dispatches only with a session marked ready, and while it waits the session is not marked ready and the flag that the
  plugin's calls read is cleared.
\<close>

theorem worker_refines_link:
  "let w = fold (worker_exec ws) ops (receive_and_command_loop ws lim inbox admission avatars world)
   in link_step (arrival op w) (link_of w) (link_of (worker_exec ws op w)) \<and> position_ok (wk_position w) (wk_connection w)"
proof -
  have i: "worker_inv (fold (worker_exec ws) ops (receive_and_command_loop ws lim inbox admission avatars world))"
    by (rule worker.run_inv_all [OF new_worker_inv])
  from worker_exec_refines [OF this, of ws op] i show ?thesis by (simp add: Let_def worker_inv_def)
qed

text \<open>
  Across any number of reconnections the commands of the plugin keep their order: at every moment
  of a run, the commands still waiting to be served, typing notices aside, are a final part of those
  that arrived. None is overtaken, served twice or lost from the middle of the queue.
\<close>

lemma commands_wait_in_order:
  "let w = receive_and_command_loop ws lim inbox admission avatars world
   in suffix (lasting (waiting (wk_connection (fold (worker_exec ws) ops w)))) (lasting (arrivals ws ops w))"
  using waiting_run_order [OF new_worker_inv, of ws ops ws lim inbox admission avatars world]
  by (simp add: Let_def new_worker_waiting)

end
