(* ===== verification/Core_System.thy ===== *)
theory Core_System
  imports Event_Log Worker_Order
begin

section \<open>The plugin, the worker and the event queue together\<close>

text \<open>
  The core as the plugin sees it and the worker as it runs share the channel of commands, the ready flag,
  the attachment admission and the acknowledgment inbox; the events the worker emits pass through the
  bounded queue to the plugin. Here the calls of the C interface, the turns of the worker and the steps
  of the queue run in any order on one state.
\<close>

subsection \<open>The state both sides share\<close>

text \<open>
  \<open>sm_handed\<close> counts the events of the worker's log that its thread has handed to the queue; the thread goes on only when
  all are handed and none waits for room.
\<close>

record 'w core_system =
  sm_worker :: "'w worker"
  sm_queue :: queue_system
  sm_handed :: nat
  sm_shutdown :: bool
  sm_join :: bool

abbreviation sm_connection :: "'w core_system \<Rightarrow> 'w connection" where
  "sm_connection s \<equiv> wk_connection (sm_worker s)"

abbreviation sm_log :: "'w core_system \<Rightarrow> event list" where
  "sm_log s \<equiv> bk_events (cn_backend (sm_connection s))"

definition core_of :: "'w core_system \<Rightarrow> signal_core" where
  "core_of s =
     \<lparr>co_commands = \<lparr>ch_queue = cn_commands (sm_connection s), ch_capacity = COMMAND_CHANNEL_CAPACITY,
                     ch_receiver = \<not> worker_over (sm_worker s)\<rparr>,
      co_acknowledgments = mp_acknowledgments (cn_projection (sm_connection s)),
      co_shutdown = sm_shutdown s, co_events = qs_queue (sm_queue s), co_ready = cn_ready (sm_connection s),
      co_attachments = at_admission (cn_tasks (sm_connection s)), co_join = sm_join s\<rparr>"

definition put_core :: "signal_core \<Rightarrow> 'w core_system \<Rightarrow> 'w core_system" where
  "put_core k s =
     (let c = sm_connection s
      in s\<lparr>sm_worker := (sm_worker s)\<lparr>wk_connection :=
             c\<lparr>cn_commands := ch_queue (co_commands k), cn_ready := co_ready k,
               cn_projection := (cn_projection c)\<lparr>mp_acknowledgments := co_acknowledgments k\<rparr>,
               cn_tasks := (cn_tasks c)\<lparr>at_admission := co_attachments k\<rparr>\<rparr>\<rparr>,
           sm_queue := (sm_queue s)\<lparr>qs_queue := co_events k\<rparr>, sm_shutdown := co_shutdown k, sm_join := co_join k\<rparr>)"

subsection \<open>Steps\<close>

definition system_call :: "file_metadata \<Rightarrow> ffi_call \<Rightarrow> 'w core_system \<Rightarrow> signal_status \<times> 'w core_system" where
  "system_call md call s =
     (case ffi_exec md call (Some (core_of s)) of
        (status, Some k) \<Rightarrow> (status, put_core k s)
      | (status, None) \<Rightarrow> (status, s))"

text \<open>What the worker's thread does itself; the arrivals, acknowledgments and cancellations are calls.\<close>

fun own_step :: "'w worker_op \<Rightarrow> bool" where
  "own_step (Op_Arrive _) = False"
| "own_step Op_Hang_Up = False"
| "own_step (Op_Acknowledge _) = False"
| "own_step (Op_Cancel _) = False"
| "own_step _ = True"

definition worker_step :: "('w, 'img) worker_services \<Rightarrow> 'w worker_op \<Rightarrow> 'w worker \<Rightarrow> 'w worker" where
  "worker_step ws op w =
     (let w1 = worker_exec ws op w
      in if worker_over w1 \<and> \<not> worker_over w then run_worker_end w1 else w1)"

definition system_turn :: "('w, 'img) worker_services \<Rightarrow> 'w worker_op \<Rightarrow> 'w core_system \<Rightarrow> 'w core_system" where
  "system_turn ws op s =
     (if own_step op \<and> sm_handed s = length (sm_log s) \<and> qs_waiters (sm_queue s) = []
      then s\<lparr>sm_worker := worker_step ws op (sm_worker s)\<rparr> else s)"

text \<open>The thread hands its next event to the queue; a pass that has not returned is no step.\<close>

definition system_emit :: "write_outcome list \<Rightarrow> 'w core_system \<Rightarrow> 'w core_system" where
  "system_emit wo s =
     (if sm_handed s < length (sm_log s) \<and> qs_waiters (sm_queue s) = [] \<and>
         emit_pass wo (sm_log s ! sm_handed s) (qs_queue (sm_queue s)) \<noteq> None
      then s\<lparr>sm_queue := queue_exec (Q_Emit wo (sm_log s ! sm_handed s)) (sm_queue s), sm_handed := sm_handed s + 1\<rparr>
      else s)"

definition system_retry :: "write_outcome list \<Rightarrow> 'w core_system \<Rightarrow> 'w core_system" where
  "system_retry wo s =
     (case qs_waiters (sm_queue s) of
        [] \<Rightarrow> s
      | (e, _) # _ \<Rightarrow>
          if emit_pass wo e (producer_woken (qs_queue (sm_queue s))) = None then s
          else s\<lparr>sm_queue := queue_exec (Q_Retry wo 0) (sm_queue s)\<rparr>)"

definition system_shutdown :: "'w core_system \<Rightarrow> 'w core_system" where
  "system_shutdown s =
     (case signal_core_shutdown (\<lambda>k. k) (Some (core_of s)) of
        None \<Rightarrow> s
      | Some k \<Rightarrow> (put_core k s)\<lparr>sm_queue := queue_exec Q_Close (sm_queue s)\<rparr>)"

datatype 'w system_op =
    Sys_Call ffi_call
  | Sys_Poll "read_outcome list"
  | Sys_Shutdown
  | Sys_Turn "'w worker_op"
  | Sys_Emit "write_outcome list"
  | Sys_Spurious
  | Sys_Retry "write_outcome list"

primrec system_exec ::
  "file_metadata \<Rightarrow> ('w, 'img) worker_services \<Rightarrow> 'w system_op \<Rightarrow> 'w core_system \<Rightarrow> 'w core_system" where
  "system_exec md ws (Sys_Call call) s = snd (system_call md call s)"
| "system_exec md ws (Sys_Poll rs) s = s\<lparr>sm_queue := queue_exec (Q_Poll rs) (sm_queue s)\<rparr>"
| "system_exec md ws Sys_Shutdown s = system_shutdown s"
| "system_exec md ws (Sys_Turn op) s = system_turn ws op s"
| "system_exec md ws (Sys_Emit wo) s = system_emit wo s"
| "system_exec md ws Sys_Spurious s = s\<lparr>sm_queue := queue_exec (Q_Spurious 0) (sm_queue s)\<rparr>"
| "system_exec md ws (Sys_Retry wo) s = system_retry wo s"

text \<open>A new core, with the worker as the launch leaves it.\<close>

definition system_new :: "event_queue_state \<Rightarrow> 'w worker \<Rightarrow> 'w core_system" where
  "system_new events w =
     \<lparr>sm_worker = (if worker_over w then run_worker_end w else w), sm_queue = queue_system_init events, sm_handed = 0,
      sm_shutdown = False, sm_join = True\<rparr>"

text \<open>\<open>None\<close> while the launch has not returned.\<close>

definition system_start ::
  "('w, 'img) launch_services \<Rightarrow> nat option \<Rightarrow> turn_limits \<Rightarrow> link_turn list \<Rightarrow> worker_config \<Rightarrow> 'w \<Rightarrow> 'w core_system option" where
  "system_start la limit lim turns config w =
     (case event_queue_new EVENT_QUEUE_CAPACITY of
        Inl _ \<Rightarrow> None
      | Inr events \<Rightarrow>
          map_option (system_new events) (run_start la limit lim turns config ack_new admission_new w))"

section \<open>Events reach the plugin in order\<close>

subsection \<open>One pass of the producer\<close>

lemma notify_writes_frame:
  "notify_writes wo q = Some r \<Longrightarrow>
     eq_channel r = eq_channel q \<and> eq_closed r = eq_closed q \<and> eq_receiver_alive r = eq_receiver_alive q"
  by (induction wo q rule: notify_writes.induct) (auto split: if_splits)

lemma notify_locked_frame:
  "notify_locked wo q = Some r \<Longrightarrow>
     eq_channel r = eq_channel q \<and> eq_closed r = eq_closed q \<and> eq_receiver_alive r = eq_receiver_alive q"
  by (auto simp: notify_locked_def split: if_splits dest: notify_writes_frame)

lemma emit_pass_effect:
  assumes "emit_pass wo e q = Some (r, q1)" "eq_receiver_alive q"
  shows "eq_receiver_alive q1 \<and> eq_closed q1 = eq_closed q \<and>
    eq_channel q1 = eq_channel q @ (if r = Emit_Returned \<and> \<not> eq_closed q then [e] else []) \<and> (eq_closed q \<longrightarrow> r = Emit_Returned)"
  using assms
  by (auto simp: emit_pass_def try_send_def Let_def split: if_splits dest!: notify_locked_frame)

text \<open>
  What has entered the queue, followed by what waits to enter it, is what the worker handed over; after the
  queue is closed nothing enters any more.
\<close>

definition delivery_inv :: "event list \<Rightarrow> nat \<Rightarrow> queue_system \<Rightarrow> bool" where
  "delivery_inv log handed q \<longleftrightarrow>
     handed \<le> length log \<and> eq_receiver_alive (qs_queue q) \<and>
     qs_accepted q = qs_polled q @ eq_channel (qs_queue q) \<and> length (qs_waiters q) \<le> 1 \<and>
     (if eq_closed (qs_queue q) then prefix (qs_accepted q) (take handed log)
      else qs_accepted q @ map fst (qs_waiters q) = take handed log)"

lemma delivery_emit:
  assumes inv: "delivery_inv log n q" and n: "n < length log" "qs_waiters q = []"
    and pass: "emit_pass wo (log ! n) (qs_queue q) \<noteq> None"
  shows "delivery_inv log (n + 1) (queue_exec (Q_Emit wo (log ! n)) q)"
proof -
  obtain r q1 where p: "emit_pass wo (log ! n) (qs_queue q) = Some (r, q1)" using pass by auto
  have alive: "eq_receiver_alive (qs_queue q)" using inv by (simp add: delivery_inv_def)
  note e = emit_pass_effect [OF p alive]
  have t: "take (n + 1) log = take n log @ [log ! n]" using n(1) by (simp add: take_Suc_conv_app_nth)
  show ?thesis
    using inv e n p t
    by (cases r; cases "eq_closed (qs_queue q)") (auto simp: delivery_inv_def run_pass_def)
qed

lemma delivery_retry:
  assumes inv: "delivery_inv log n q" and w: "qs_waiters q = (e, woken) # ws"
    and pass: "emit_pass wo e (producer_woken (qs_queue q)) \<noteq> None"
  shows "delivery_inv log n (queue_exec (Q_Retry wo 0) q)"
proof -
  have ws: "ws = []" using inv w by (simp add: delivery_inv_def)
  obtain r q1 where p: "emit_pass wo e (producer_woken (qs_queue q)) = Some (r, q1)" using pass by auto
  have alive: "eq_receiver_alive (producer_woken (qs_queue q))" using inv by (simp add: delivery_inv_def producer_woken_def)
  note e = emit_pass_effect [OF p alive]
  show ?thesis
    using inv e p w ws
    by (cases r; cases woken; cases "eq_closed (qs_queue q)") (auto simp: delivery_inv_def run_pass_def producer_woken_def)
qed

lemma delivery_poll: "delivery_inv log n q \<Longrightarrow> delivery_inv log n (queue_exec (Q_Poll rs) q)"
  by (cases "eq_channel (qs_queue q)")
    (auto simp: delivery_inv_def poll_def wake_all_def comp_def case_prod_beta split: option.splits prod.splits event_poll.splits if_splits)

lemma delivery_close: "delivery_inv log n q \<Longrightarrow> delivery_inv log n (queue_exec Q_Close q)"
  by (auto simp: delivery_inv_def queue_close_def wake_all_def) (metis prefixI)

lemma delivery_spurious: "delivery_inv log n q \<Longrightarrow> delivery_inv log n (queue_exec (Q_Spurious 0) q)"
  by (cases "qs_waiters q") (auto simp: delivery_inv_def)

lemma delivery_log: "delivery_inv log n q \<Longrightarrow> prefix log log1 \<Longrightarrow> delivery_inv log1 n q"
  by (auto simp: delivery_inv_def prefix_def)

lemma delivery_prefix:
  assumes "delivery_inv log n q"
  shows "prefix (qs_polled q) log"
proof -
  have "prefix (qs_polled q) (qs_accepted q)" using assms by (simp add: delivery_inv_def)
  also have "prefix (qs_accepted q) (take n log)"
  proof (cases "eq_closed (qs_queue q)")
    case False
    then have "take n log = qs_accepted q @ map fst (qs_waiters q)" using assms unfolding delivery_inv_def by metis
    then show ?thesis by (rule prefixI)
  qed (use assms in \<open>auto simp: delivery_inv_def\<close>)
  also have "prefix (take n log) log" by (rule take_is_prefix)
  finally show ?thesis .
qed

subsection \<open>The invariant of the whole\<close>

definition ended :: "'w connection \<Rightarrow> bool" where
  "ended c \<longleftrightarrow> \<not> cn_ready c \<and> \<not> ai_open (mp_acknowledgments (cn_projection c)) \<and> waiting c = []"

definition core_inv :: "'w core_system \<Rightarrow> bool" where
  "core_inv s \<longleftrightarrow>
     delivery_inv (sm_log s) (sm_handed s) (sm_queue s) \<and> worker_inv (sm_worker s) \<and>
     (worker_over (sm_worker s) \<longrightarrow> ended (sm_connection s))"

lemma run_worker_end_state:
  "wk_position (run_worker_end w) = wk_position w" "worker_over (run_worker_end w) = worker_over w" "ended (wk_connection (run_worker_end w))"
proof -
  show pos: "wk_position (run_worker_end w) = wk_position w" by (simp add: run_worker_end_def Let_def)
  then show "worker_over (run_worker_end w) = worker_over w" by (simp add: worker_over_def)
  show "ended (wk_connection (run_worker_end w))"
    by (simp add: run_worker_end_def Let_def ended_def close_acknowledgments_def drop_session_def ack_close_def on_backend_def
        set_backend_def waiting_def split: worker_position.split sum.split)
qed

lemma ended_position_ok: "worker_over w \<Longrightarrow> worker_inv w"
  by (auto simp: worker_over_def worker_inv_def position_ok_def split: worker_position.splits)

lemma worker_step_ok:
  assumes "worker_inv w" "worker_over w \<longrightarrow> ended (wk_connection w)"
  shows "worker_inv (worker_step ws op w)" "worker_over (worker_step ws op w) \<longrightarrow> ended (wk_connection (worker_step ws op w))"
    "prefix (bk_events (cn_backend (wk_connection w))) (bk_events (cn_backend (wk_connection (worker_step ws op w))))"
proof -
  let ?w = "worker_exec ws op w"
  have inv: "worker_inv ?w" using worker_exec_refines [OF assms(1)] by blast
  have keep: "?w = w" if "worker_over w" using that by (simp add: worker_exec_def)
  show "worker_inv (worker_step ws op w)"
    using inv by (auto simp: worker_step_def Let_def intro: ended_position_ok simp: run_worker_end_state)
  show "worker_over (worker_step ws op w) \<longrightarrow> ended (wk_connection (worker_step ws op w))"
  proof (cases "worker_over w")
    case True
    then show ?thesis using assms(2) keep [OF True] by (simp add: worker_step_def)
  next
    case False
    then show ?thesis by (simp add: worker_step_def Let_def run_worker_end_state)
  qed
  have "logs (wk_connection w) (wk_connection (worker_step ws op w))"
    using worker_exec_logs [of w ws op] run_worker_end_logs [of ?w] by (auto simp: worker_step_def Let_def intro: logs_trans)
  then show "prefix (bk_events (cn_backend (wk_connection w))) (bk_events (cn_backend (wk_connection (worker_step ws op w))))"
    by (simp add: logs_def grows_def)
qed

text \<open>A call changes neither the worker's position nor the queue of events.\<close>

lemma system_call_effect:
  obtains status k where "ffi_exec md call (Some (core_of s)) = (status, Some k)" "system_call md call s = (status, put_core k s)"
    "call_effect (call_request call) (core_of s) (status, k)"
proof -
  obtain status k where r: "ffi_exec md call (Some (core_of s)) = (status, Some k)"
    using ffi_exec_effect [of md call "core_of s"] by (cases "ffi_exec md call (Some (core_of s))") auto
  moreover have "call_effect (call_request call) (core_of s) (status, k)" using ffi_exec_effect [of md call "core_of s"] r by simp
  ultimately show thesis using that by (simp add: system_call_def)
qed

lemma put_core_simps [simp]:
  "wk_position (sm_worker (put_core k s)) = wk_position (sm_worker s)" "sm_log (put_core k s) = sm_log s"
  "sm_handed (put_core k s) = sm_handed s" "cn_commands (sm_connection (put_core k s)) = ch_queue (co_commands k)"
  "cn_deferred (sm_connection (put_core k s)) = cn_deferred (sm_connection s)"
  "cn_session (sm_connection (put_core k s)) = cn_session (sm_connection s)"
  "cn_ready (sm_connection (put_core k s)) = co_ready k"
  "mp_acknowledgments (cn_projection (sm_connection (put_core k s))) = co_acknowledgments k"
  "sm_queue (put_core k s) = (sm_queue s)\<lparr>qs_queue := co_events k\<rparr>"
  "worker_over (sm_worker (put_core k s)) = worker_over (sm_worker s)"
  by (simp_all add: put_core_def Let_def worker_over_def)

lemma core_of_simps [simp]:
  "co_ready (core_of s) = cn_ready (sm_connection s)" "co_events (core_of s) = qs_queue (sm_queue s)"
  "ch_queue (co_commands (core_of s)) = cn_commands (sm_connection s)"
  "co_acknowledgments (core_of s) = mp_acknowledgments (cn_projection (sm_connection s))"
  "ch_receiver (co_commands (core_of s)) = (\<not> worker_over (sm_worker s))"
  "ch_capacity (co_commands (core_of s)) = COMMAND_CHANNEL_CAPACITY"
  by (simp_all add: core_of_def)

lemma call_commands:
  assumes "call_effect request (core_of s) (status, k)"
  shows "\<exists>new. ch_queue (co_commands k) = cn_commands (sm_connection s) @ new \<and> list_all command_ok new \<and>
    map command_request new = (if status = Status_Ok then (case request of Some i \<Rightarrow> [i] | None \<Rightarrow> []) else []) \<and>
    (worker_over (sm_worker s) \<longrightarrow> new = [])"
  using assms
  by (auto simp: call_effect_def slot_send_grows(1) channel_try_reserve_def split: option.splits if_splits)

lemma put_core_position:
  "position_ok pos (sm_connection (put_core k s)) \<longleftrightarrow>
     (case pos of At_Recovery \<Rightarrow> is_recovering (cn_session (sm_connection s)) \<and> \<not> co_ready k
      | At_Start \<Rightarrow> \<not> is_ready (cn_session (sm_connection s)) \<and> \<not> co_ready k
      | At_Dispatch \<Rightarrow> is_ready (cn_session (sm_connection s)) | _ \<Rightarrow> True)"
  by (simp add: position_ok_def split: worker_position.split)

lemma call_keeps_inv:
  assumes "core_inv s"
  shows "core_inv (snd (system_call md call s))"
proof (rule system_call_effect [of md call s])
  fix status k
  assume "system_call md call s = (status, put_core k s)" and e: "call_effect (call_request call) (core_of s) (status, k)"
  from call_commands [OF e] obtain new where new: "ch_queue (co_commands k) = cn_commands (sm_connection s) @ new"
      "worker_over (sm_worker s) \<longrightarrow> new = []" by blast
  have same: "co_ready k = cn_ready (sm_connection s)" "co_events k = qs_queue (sm_queue s)"
      "ai_open (co_acknowledgments k) = ai_open (mp_acknowledgments (cn_projection (sm_connection s)))"
    using e by (simp_all add: call_effect_def)
  have "core_inv (put_core k s)"
    using assms new same
    by (auto simp: core_inv_def worker_inv_def put_core_position ended_def waiting_def)
      (auto simp: position_ok_def split: worker_position.splits)
  then show ?thesis using \<open>system_call md call s = (status, put_core k s)\<close> by simp
qed

lemma shutdown_state:
  "system_shutdown s = (put_core (the (signal_core_shutdown (\<lambda>k. k) (Some (core_of s)))) s)\<lparr>sm_queue := queue_exec Q_Close (sm_queue s)\<rparr>"
  by (simp add: system_shutdown_def signal_core_shutdown_def Let_def)

lemma shutdown_keeps_inv:
  assumes "core_inv s"
  shows "core_inv (system_shutdown s)"
proof -
  let ?k = "the (signal_core_shutdown (\<lambda>k. k) (Some (core_of s)))"
  have k: "\<not> co_ready ?k" "ch_queue (co_commands ?k) = cn_commands (sm_connection s)"
      "co_acknowledgments ?k = mp_acknowledgments (cn_projection (sm_connection s))"
    by (simp_all add: signal_core_shutdown_def Let_def)
  have "worker_inv (sm_worker (put_core ?k s))"
    using assms k(1) by (auto simp: core_inv_def worker_inv_def put_core_position) (auto simp: position_ok_def split: worker_position.splits)
  moreover have "worker_over (sm_worker s) \<longrightarrow> ended (sm_connection (put_core ?k s))"
    using assms k by (auto simp: core_inv_def ended_def waiting_def)
  moreover have "delivery_inv (sm_log s) (sm_handed s) (queue_exec Q_Close (sm_queue s))"
    using assms by (intro delivery_close) (simp add: core_inv_def)
  ultimately show ?thesis by (simp add: shutdown_state core_inv_def del: queue_exec.simps)
qed

lemma system_exec_inv:
  assumes "core_inv s"
  shows "core_inv (system_exec md ws op s)"
proof -
  have d: "delivery_inv (sm_log s) (sm_handed s) (sm_queue s)" and w: "worker_inv (sm_worker s)"
      "worker_over (sm_worker s) \<longrightarrow> ended (sm_connection s)"
    using assms by (simp_all add: core_inv_def)
  have queue: "core_inv (s\<lparr>sm_queue := q, sm_handed := n\<rparr>)" if "delivery_inv (sm_log s) n q" for q n
    using that w by (simp add: core_inv_def)
  have requeue: "core_inv (s\<lparr>sm_queue := q\<rparr>)" if "delivery_inv (sm_log s) (sm_handed s) q" for q
    using that w by (simp add: core_inv_def)
  show ?thesis
  proof (cases op)
    case (Sys_Call call)
    then show ?thesis using call_keeps_inv [OF assms] by simp
  next
    case (Sys_Poll rs)
    then show ?thesis using requeue [OF delivery_poll [OF d]] by simp
  next
    case Sys_Shutdown
    then show ?thesis using shutdown_keeps_inv [OF assms] by simp
  next
    case (Sys_Turn wop)
    note step = worker_step_ok [OF w, of ws wop]
    have "core_inv (s\<lparr>sm_worker := worker_step ws wop (sm_worker s)\<rparr>)"
      using step delivery_log [OF d step(3)] by (simp add: core_inv_def)
    then show ?thesis using Sys_Turn assms by (simp add: system_turn_def)
  next
    case (Sys_Emit wo)
    then show ?thesis using assms queue [OF delivery_emit [OF d]] by (auto simp: system_emit_def)
  next
    case Sys_Spurious
    then show ?thesis using requeue [OF delivery_spurious [OF d]] by simp
  next
    case (Sys_Retry wo)
    show ?thesis
    proof (cases "qs_waiters (sm_queue s)")
      case Nil
      then show ?thesis using assms Sys_Retry by (simp add: system_retry_def)
    next
      case (Cons ew rest)
      then obtain e woken where "qs_waiters (sm_queue s) = (e, woken) # rest" by (cases ew) auto
      then show ?thesis
        using assms Sys_Retry requeue [OF delivery_retry [OF d]] by (simp add: system_retry_def del: queue_exec.simps)
    qed
  qed
qed

interpretation core_system: op_system "system_exec md ws" core_inv
  by unfold_locales (rule system_exec_inv)

subsection \<open>From the launch on\<close>

lemma run_start_inv:
  assumes "run_start la limit lim turns config inbox admission w = Some wk"
  shows "worker_inv wk" "waiting (wk_connection wk) = []"
proof -
  obtain avatars w1 where a: "avatar_cache_new (la_files la) (la_disk la) (Some (wc_store_path config)) w = (avatars, w1)"
    by (cases "avatar_cache_new (la_files la) (la_disk la) (Some (wc_store_path config)) w")
  obtain r w2 where l: "run_launch la limit turns config w1 = (r, w2)" by (cases "run_launch la limit turns config w1")
  obtain flow events where r: "r = Some (flow, events)" using assms a l by (cases r) (auto simp: run_start_def)
  let ?loop = "receive_and_command_loop (la_worker la) lim inbox admission avatars w2"
  have loop: "worker_inv ?loop" "waiting (wk_connection ?loop) = []" by (rule new_worker_inv, rule new_worker_waiting)
  have "worker_inv wk \<and> waiting (wk_connection wk) = []"
  proof (cases flow)
    case Launch_Loop
    have "position_ok pos (on_backend f c) = position_ok pos c" for pos f and c :: "'a connection"
      by (simp add: position_ok_def split: worker_position.split)
    then show ?thesis
      using assms a l r loop Launch_Loop by (auto simp: run_start_def Let_def worker_inv_def)
  qed (use assms a l r in \<open>auto simp: run_start_def Let_def worker_inv_def position_ok_def connection_new_def waiting_def\<close>)
  then show "worker_inv wk" "waiting (wk_connection wk) = []" by simp_all
qed

lemma system_new_inv:
  assumes "worker_inv wk" "event_queue_new capacity = Inr events"
  shows "core_inv (system_new events wk)"
proof -
  have "eq_receiver_alive events" "eq_channel events = []" "\<not> eq_closed events"
    using assms(2) by (auto simp: event_queue_new_def event_queue_with_byte_limit_def split: if_splits)
  then have "delivery_inv log 0 (queue_system_init events)" for log
    by (simp add: delivery_inv_def queue_system_init_def)
  then show ?thesis
    using assms(1) run_worker_end_state [of wk] ended_position_ok [of "run_worker_end wk"]
    by (simp add: core_inv_def system_new_def)
qed

lemma system_start_inv:
  assumes "system_start la limit lim turns config w = Some s"
  shows "core_inv s" "waiting (sm_connection s) = []"
proof -
  obtain events wk where e: "event_queue_new EVENT_QUEUE_CAPACITY = Inr events"
      "run_start la limit lim turns config ack_new admission_new w = Some wk" "s = system_new events wk"
    using assms by (auto simp: system_start_def split: sum.splits)
  show "core_inv s" using system_new_inv [OF run_start_inv(1) [OF e(2)] e(1)] e(3) by simp
  show "waiting (sm_connection s) = []"
    using run_start_inv(2) [OF e(2)] run_worker_end_state(3) [of wk] e(3) by (simp add: system_new_def ended_def)
qed

lemma system_run_inv:
  "system_start la limit lim turns config w = Some s \<Longrightarrow> core_inv (fold (system_exec md ws) ops s)"
  by (rule core_system.run_inv_all) (rule system_start_inv(1))

text \<open>
  C2. The plugin reads the worker's events in the order the worker emitted them, with none left out,
  repeated or changed: from the launch on, whatever calls, turns, waits of the full queue, wake-ups and shutdowns happen in
  whatever order, the events polled so far are an initial part of the events the worker has emitted; and
  until the shutdown the events polled, those in the queue and the one that waits for room are
  together exactly the events the worker has handed over.
\<close>

theorem events_polled_in_order:
  "case system_start la limit lim turns config w of
     None \<Rightarrow> True
   | Some s0 \<Rightarrow>
       let s = fold (system_exec md (la_worker la)) ops s0; q = sm_queue s
       in prefix (qs_polled q) (sm_log s) \<and>
          (if eq_closed (qs_queue q) then True
           else qs_polled q @ eq_channel (qs_queue q) @ map fst (qs_waiters q) = take (sm_handed s) (sm_log s))"
proof (cases "system_start la limit lim turns config w")
  case (Some s0)
  let ?s = "fold (system_exec md (la_worker la)) ops s0"
  have "delivery_inv (sm_log ?s) (sm_handed ?s) (sm_queue ?s)" using system_run_inv [OF Some, of md "la_worker la" ops] by (simp add: core_inv_def)
  then show ?thesis using Some delivery_prefix by (fastforce simp: Let_def delivery_inv_def)
qed simp

section \<open>Commands are served in order\<close>

text \<open>The commands a step of the system adds to the channel.\<close>

definition newly_queued :: "file_metadata \<Rightarrow> ('w, 'img) worker_services \<Rightarrow> 'w system_op \<Rightarrow> 'w core_system \<Rightarrow> command list" where
  "newly_queued md ws op s =
     (case op of
        Sys_Call call \<Rightarrow> drop (length (cn_commands (sm_connection s))) (cn_commands (sm_connection (system_exec md ws op s)))
      | _ \<Rightarrow> [])"

primrec accepted_commands ::
  "file_metadata \<Rightarrow> ('w, 'img) worker_services \<Rightarrow> 'w system_op list \<Rightarrow> 'w core_system \<Rightarrow> command list" where
  "accepted_commands md ws [] s = []"
| "accepted_commands md ws (op # ops) s = newly_queued md ws op s @ accepted_commands md ws ops (system_exec md ws op s)"

text \<open>The request ids of the calls that returned OK, in their order.\<close>

primrec granted_requests ::
  "file_metadata \<Rightarrow> ('w, 'img) worker_services \<Rightarrow> 'w system_op list \<Rightarrow> 'w core_system \<Rightarrow> u64 list" where
  "granted_requests md ws [] s = []"
| "granted_requests md ws (op # ops) s =
     (case op of
        Sys_Call call \<Rightarrow>
          if fst (system_call md call s) = Status_Ok then (case call_request call of Some i \<Rightarrow> [i] | None \<Rightarrow> []) else []
      | _ \<Rightarrow> []) @ granted_requests md ws ops (system_exec md ws op s)"

lemma newly_queued_granted:
  "map command_request (newly_queued md ws op s) =
     (case op of
        Sys_Call call \<Rightarrow>
          if fst (system_call md call s) = Status_Ok then (case call_request call of Some i \<Rightarrow> [i] | None \<Rightarrow> []) else []
      | _ \<Rightarrow> []) \<and>
   list_all command_ok (newly_queued md ws op s) \<and>
   suffix (lasting (waiting (sm_connection (system_exec md ws op s)))) (lasting (waiting (sm_connection s) @ newly_queued md ws op s))"
  if inv: "core_inv s"
proof (cases op)
  case (Sys_Call call)
  show ?thesis
  proof (rule system_call_effect [of md call s])
    fix status k
    assume c: "system_call md call s = (status, put_core k s)" and e: "call_effect (call_request call) (core_of s) (status, k)"
    from call_commands [OF e] show ?thesis
      by (auto simp: newly_queued_def Sys_Call c waiting_def)
  qed
next
  case (Sys_Turn wop)
  let ?w = "sm_worker s"
  have w: "worker_inv ?w" using inv by (simp add: core_inv_def)
  have "suffix (lasting (waiting (wk_connection (worker_step ws wop ?w)))) (lasting (waiting (wk_connection ?w)))" if "own_step wop"
  proof -
    have "arrival wop ?w = []" using that by (cases wop) (simp_all add: arrival_def)
    then have "suffix (lasting (waiting (wk_connection (worker_exec ws wop ?w)))) (lasting (waiting (wk_connection ?w)))"
      using worker_exec_refines [OF w, of ws wop] by (auto dest!: link_step_order simp: link_of_def)
    then show ?thesis
      using run_worker_end_state(3) [of "worker_exec ws wop ?w"] by (auto simp: worker_step_def Let_def ended_def)
  qed
  then show ?thesis by (simp add: Sys_Turn newly_queued_def system_turn_def)
next
  case Sys_Shutdown
  have "waiting (sm_connection (system_shutdown s)) = waiting (sm_connection s)"
    by (simp add: shutdown_state waiting_def signal_core_shutdown_def Let_def)
  then show ?thesis by (simp add: Sys_Shutdown newly_queued_def)
next
  case (Sys_Retry wo)
  then show ?thesis by (simp add: newly_queued_def system_retry_def split: list.split)
qed (simp_all add: newly_queued_def system_emit_def)

lemma accepted_in_order:
  assumes "core_inv s"
  shows "map command_request (accepted_commands md ws ops s) = granted_requests md ws ops s \<and>
    list_all command_ok (accepted_commands md ws ops s) \<and>
    suffix (lasting (waiting (sm_connection (fold (system_exec md ws) ops s))))
      (lasting (waiting (sm_connection s) @ accepted_commands md ws ops s))"
  using assms
proof (induction ops arbitrary: s)
  case (Cons op ops)
  let ?s1 = "system_exec md ws op s"
  note step = newly_queued_granted [OF Cons.prems, of md ws op]
  note rest = Cons.IH [OF system_exec_inv [OF Cons.prems, of md ws op]]
  have "suffix (lasting (waiting (sm_connection ?s1) @ accepted_commands md ws ops ?s1))
      (lasting (waiting (sm_connection s) @ accepted_commands md ws (op # ops) s))"
    using step by (auto simp: suffix_def)
  then have "suffix (lasting (waiting (sm_connection (fold (system_exec md ws) (op # ops) s))))
      (lasting (waiting (sm_connection s) @ accepted_commands md ws (op # ops) s))"
    using rest by (auto intro: suffix_order.trans)
  then show ?case using step rest by simp
qed simp

text \<open>
  C1. The commands of the plugin are queued exactly when their calls return OK and served in that order: from the launch on, across
  reconnections and until the end of the worker, the commands that entered the channel are well formed
  and are, in order, those of the requests whose calls returned OK, and the commands still waiting to be served,
  typing notices aside, are a final part of them.
\<close>

theorem commands_served_in_order:
  "case system_start la limit lim turns config w of
     None \<Rightarrow> True
   | Some s0 \<Rightarrow>
       let ws = la_worker la; s = fold (system_exec md ws) ops s0; accepted = accepted_commands md ws ops s0
       in map command_request accepted = granted_requests md ws ops s0 \<and> list_all command_ok accepted \<and>
          suffix (lasting (waiting (sm_connection s))) (lasting accepted)"
proof (cases "system_start la limit lim turns config w")
  case (Some s0)
  note start = system_start_inv [OF Some]
  show ?thesis using accepted_in_order [OF start(1), of md "la_worker la" ops] start(2) Some by (simp add: Let_def)
qed simp

lemma over_is_final:
  assumes "worker_over (sm_worker s)"
  shows "wk_position (sm_worker (system_exec md ws op s)) = wk_position (sm_worker s) \<and> sm_log (system_exec md ws op s) = sm_log s"
proof (cases op)
  case (Sys_Call call)
  obtain status k where "system_call md call s = (status, put_core k s)" by (rule system_call_effect)
  then show ?thesis using Sys_Call by simp
next
  case (Sys_Turn wop)
  have "worker_step ws wop (sm_worker s) = sm_worker s" using assms by (simp add: worker_step_def worker_exec_def)
  then show ?thesis using Sys_Turn by (simp add: system_turn_def)
next
  case Sys_Shutdown
  then show ?thesis by (simp add: shutdown_state)
next
  case (Sys_Retry wo)
  then show ?thesis by (simp add: system_retry_def split: list.split)
qed (simp_all add: system_emit_def)

text \<open>
  C7. The end of the worker is final and visible to the plugin: once it has ended, by a shutdown, an error or a panic, the ready flag is
  cleared, the acknowledgment inbox is closed, no command waits, every call that would queue a command is
  refused, every acknowledgment is refused, and no step of the system starts the worker again or adds to its log of events.
\<close>

theorem worker_end_is_final:
  "case system_start la limit lim turns config w of
     None \<Rightarrow> True
   | Some s0 \<Rightarrow>
       let ws = la_worker la; s = fold (system_exec md ws) ops s0; s1 = system_exec md ws op s
       in if worker_over (sm_worker s) then
            \<not> co_ready (core_of s) \<and> \<not> ai_open (co_acknowledgments (core_of s)) \<and> waiting (sm_connection s) = [] \<and>
            (if call_request call = None then True else fst (system_call md call s) \<noteq> Status_Ok) \<and>
            fst (system_call md (Call_Ack i) s) \<noteq> Status_Ok \<and>
            wk_position (sm_worker s1) = wk_position (sm_worker s) \<and> sm_log s1 = sm_log s
          else True"
proof (cases "system_start la limit lim turns config w")
  case (Some s0)
  define ws where "ws = la_worker la"
  define s where "s = fold (system_exec md ws) ops s0"
  have inv: "core_inv s" unfolding s_def by (rule system_run_inv [OF Some])
  have "ended (sm_connection s) \<and> (if call_request call = None then True else fst (system_call md call s) \<noteq> Status_Ok) \<and>
      fst (system_call md (Call_Ack i) s) \<noteq> Status_Ok \<and>
      wk_position (sm_worker (system_exec md ws op s)) = wk_position (sm_worker s) \<and> sm_log (system_exec md ws op s) = sm_log s"
    if over: "worker_over (sm_worker s)"
  proof (intro conjI)
    show e: "ended (sm_connection s)" using inv over by (simp add: core_inv_def)
    show "if call_request call = None then True else fst (system_call md call s) \<noteq> Status_Ok"
    proof (rule system_call_effect [of md call s])
      fix status k
      assume c: "system_call md call s = (status, put_core k s)" and f: "call_effect (call_request call) (core_of s) (status, k)"
      show ?thesis using call_commands [OF f] over c by (auto split: if_splits option.splits)
    qed
    show "fst (system_call md (Call_Ack i) s) \<noteq> Status_Ok"
      using e by (simp add: system_call_def signal_core_ack_message_def with_core_def ack_submit_def ended_def)
    show "wk_position (sm_worker (system_exec md ws op s)) = wk_position (sm_worker s)" "sm_log (system_exec md ws op s) = sm_log s"
      using over_is_final [OF over] by blast+
  qed
  then show ?thesis unfolding Some option.case Let_def ws_def [symmetric] s_def [symmetric] ended_def by (cases "worker_over (sm_worker s)") simp_all
qed simp

end
