(* ===== verification/Plugin_Image.thy ===== *)
theory Plugin_Image
  imports Media
begin

section \<open>Inline images of the plugin (src/inline\_image.c)\<close>

text \<open>
  The C plugin decides on its own whether an attachment is shown as an inline image. The theory has its
  checks as they are written in C, at the widths of the C types, where a read past the end of the data is
  \<open>None\<close>; and it relates them to the checks of the core: the two GIF parsers agree on every input, and
  what the plugin shows inline the core would have recognised as an image.
\<close>

unbundle bit_operations_syntax

definition SIGNAL_INLINE_IMAGE_MAX_EDGE :: int where
  "SIGNAL_INLINE_IMAGE_MAX_EDGE = 8192"

definition SIGNAL_INLINE_IMAGE_MAX_PIXELS :: u64 where
  "SIGNAL_INLINE_IMAGE_MAX_PIXELS = 16 * 1000 * 1000"

definition SIGNAL_INLINE_IMAGE_MAX_BYTES :: usize where
  "SIGNAL_INLINE_IMAGE_MAX_BYTES = 8 * 1024 * 1024"

definition SIGNAL_INLINE_GIF_MAX_PIXEL_FRAMES :: u64 where
  "SIGNAL_INLINE_GIF_MAX_PIXEL_FRAMES = 8 * 1000 * 1000"

subsection \<open>The checks\<close>

definition signal_inline_image_has_prefix :: "bytes option \<Rightarrow> bytes \<Rightarrow> bool" where
  "signal_inline_image_has_prefix data pre =
     (case data of None \<Rightarrow> False | Some d \<Rightarrow> length pre \<le> length d \<and> take (length pre) d = pre)"

definition signal_inline_gif_read_u16 :: "bytes \<Rightarrow> usize \<Rightarrow> u16 option" where
  "signal_inline_gif_read_u16 data i =
     (case (index_byte data i, index_byte data (i + 1)) of
        (Some low, Some high) \<Rightarrow> Some (ucast ((ucast low :: u32) OR push_bit 8 (ucast high)))
      | _ \<Rightarrow> None)"

text \<open>The new offset, or \<open>None\<close> for \<^verbatim>\<open>FALSE\<close>.\<close>

definition signal_inline_gif_advance :: "usize \<Rightarrow> usize \<Rightarrow> usize \<Rightarrow> usize option" where
  "signal_inline_gif_advance offset amount sz =
     (if offset > sz \<or> amount > sz - offset then None else Some (offset + amount))"

function signal_inline_gif_skip_sub_blocks :: "bytes \<Rightarrow> usize \<Rightarrow> usize option" where
  "signal_inline_gif_skip_sub_blocks data offset =
     (if offset < length data then
        if data ! offset = 0 then Some (offset + 1)
        else
          (case signal_inline_gif_advance (offset + 1) (unat (data ! offset)) (length data) of
             None \<Rightarrow> None
           | Some next \<Rightarrow> signal_inline_gif_skip_sub_blocks data next)
      else None)"
  by auto
termination
  by (relation "measure (\<lambda>(data, offset). length data - offset)")
     (auto simp: signal_inline_gif_advance_def split: if_splits)

declare signal_inline_gif_skip_sub_blocks.simps [simp del]

definition signal_inline_image_dimensions_are_supported :: "int \<Rightarrow> int \<Rightarrow> bool" where
  "signal_inline_image_dimensions_are_supported width height \<longleftrightarrow>
     width > 0 \<and> height > 0 \<and> width \<le> SIGNAL_INLINE_IMAGE_MAX_EDGE \<and> height \<le> SIGNAL_INLINE_IMAGE_MAX_EDGE \<and>
     word_of_int width * word_of_int height \<le> SIGNAL_INLINE_IMAGE_MAX_PIXELS"

definition inline_gif_color_table :: "bytes \<Rightarrow> u8 \<Rightarrow> usize \<Rightarrow> usize option" where
  "inline_gif_color_table data packed offset =
     (if (ucast packed AND (0x80 :: u32)) \<noteq> 0
      then signal_inline_gif_advance offset
             (unat (push_bit (unat (ucast packed AND (0x07 :: u32)) + 1) (3 :: u64))) (length data)
      else Some offset)"

text \<open>
  One image after its marker: the outer \<open>None\<close> is a read past the end, \<open>Some None\<close> is \<^verbatim>\<open>return FALSE\<close>.
  \<open>frames\<close> counts the image already.
\<close>

definition inline_gif_image :: "bytes \<Rightarrow> u16 \<Rightarrow> u16 \<Rightarrow> u64 \<Rightarrow> u64 \<Rightarrow> usize \<Rightarrow> usize option option" where
  "inline_gif_image data canvas_width canvas_height canvas_pixels frames offset =
     (if offset > length data \<or> 9 > length data - offset then Some None
      else
        case (signal_inline_gif_read_u16 data offset, signal_inline_gif_read_u16 data (offset + 2),
              signal_inline_gif_read_u16 data (offset + 4), signal_inline_gif_read_u16 data (offset + 6),
              index_byte data (offset + 8)) of
          (Some left, Some upper, Some width, Some height, Some image_packed) \<Rightarrow>
            if width = 0 \<or> height = 0 \<or> (ucast left + ucast width :: u32) > ucast canvas_width \<or>
               (ucast upper + ucast height :: u32) > ucast canvas_height
            then Some None
            else if frames > SIGNAL_INLINE_GIF_MAX_PIXEL_FRAMES div canvas_pixels then Some None
            else
              (case inline_gif_color_table data image_packed (offset + 9) of
                 None \<Rightarrow> Some None
               | Some table \<Rightarrow>
                   if table \<ge> length data then Some None
                   else if data ! table < 2 \<or> data ! table > 8 then Some None
                   else Some (signal_inline_gif_skip_sub_blocks data (table + 1)))
        | _ \<Rightarrow> None)"

datatype inline_gif_step = Inline_Overrun | Inline_Return bool | Inline_Next usize u64

definition inline_gif_block :: "bytes \<Rightarrow> u16 \<Rightarrow> u16 \<Rightarrow> u64 \<Rightarrow> u64 \<Rightarrow> usize \<Rightarrow> inline_gif_step" where
  "inline_gif_block data canvas_width canvas_height canvas_pixels frames offset =
     (let marker = data ! offset
      in if marker = 0x3b then Inline_Return (frames > 0)
         else if marker = 0x21 then
           (case signal_inline_gif_advance (offset + 1) 1 (length data) of
              None \<Rightarrow> Inline_Return False
            | Some offset1 \<Rightarrow>
                (case signal_inline_gif_skip_sub_blocks data offset1 of
                   None \<Rightarrow> Inline_Return False
                 | Some next \<Rightarrow> Inline_Next next frames))
         else if marker = 0x2c then
           (case inline_gif_image data canvas_width canvas_height canvas_pixels (frames + 1) (offset + 1) of
              None \<Rightarrow> Inline_Overrun
            | Some None \<Rightarrow> Inline_Return False
            | Some (Some next) \<Rightarrow> Inline_Next next (frames + 1))
         else Inline_Return False)"

subsection \<open>The parts agree with the parser of the core\<close>

lemma advance_agrees: "signal_inline_gif_advance = advance_gif_offset"
  by (intro ext) (auto simp: signal_inline_gif_advance_def advance_gif_offset_def)

lemma skip_agrees: "signal_inline_gif_skip_sub_blocks data offset = skip_gif_sub_blocks data offset"
proof (induction data offset rule: signal_inline_gif_skip_sub_blocks.induct)
  case (1 data offset)
  then show ?case
    by (subst signal_inline_gif_skip_sub_blocks.simps, subst skip_gif_sub_blocks.simps)
       (auto simp: advance_agrees unat_eq_0 Let_def split: option.split)
qed

lemma u8_take_bit: "8 \<le> n \<Longrightarrow> take_bit n (unat (a :: u8)) = unat a"
  using power_increasing [of 8 n "2 :: nat"] unat_u8_less [of a] by (simp add: take_bit_nat_eq_self)

lemma or_high_byte: "unat (ucast ((ucast (a :: u8) :: u32) OR push_bit 8 (ucast (b :: u8))) :: u16) = unat a + 256 * unat b"
proof -
  have "unat a AND push_bit 8 (unat b) = 0"
    by (rule bit_eqI) (auto simp: bit_simps dest: bit_imp_le_length [of a])
  then have sum: "unat a OR push_bit 8 (unat b) = unat a + 256 * unat b"
    by (simp flip: disjunctive_add_eq_or add: push_bit_eq_mult)
  have "unat (push_bit 8 (ucast b) :: u32) = push_bit 8 (unat b)"
    using unat_u8_less [of b]
    by (simp add: push_bit_eq_mult unat_word_ariths unsigned_ucast_eq u8_take_bit)
  moreover have "unat (ucast a :: u32) = unat a" by (simp add: unsigned_ucast_eq u8_take_bit)
  ultimately have wide: "unat ((ucast a :: u32) OR push_bit 8 (ucast b)) = unat a + 256 * unat b"
    by (simp only: unsigned_or_eq sum)
  have "unat a + 256 * unat b < 2 ^ 16" using unat_u8_less [of a] unat_u8_less [of b] by simp
  then show ?thesis by (simp only: unsigned_ucast_eq wide) (simp add: take_bit_nat_eq_self)
qed

lemma read_u16_le16:
  assumes "i + 2 \<le> length data"
  obtains v where "signal_inline_gif_read_u16 data i = Some v" "unat v = le16 data i"
  using assms by (auto simp: signal_inline_gif_read_u16_def index_byte_def or_high_byte le16_def)

lemma color_table_width: "k < 8 \<Longrightarrow> unat (push_bit (k + 1) (3 :: u64)) = push_bit (k + 1) 3"
  by (subgoal_tac "k \<in> {0, 1, 2, 3, 4, 5, 6, 7}") auto

lemma color_table_agrees: "inline_gif_color_table data packed offset = skip_color_table data packed offset"
proof -
  have "unat (ucast packed AND (0x80 :: u32)) = unat (packed AND 0x80)" "unat (ucast packed AND (0x07 :: u32)) = unat (packed AND 7)"
    by (simp_all add: unsigned_and_eq unsigned_ucast_eq u8_take_bit)
  moreover have "unat (packed AND 7) = take_bit 3 (unat packed)"
    by (simp add: unsigned_and_eq take_bit_eq_mask mask_eq_exp_minus_1)
  then have "unat (packed AND 7) < 8" using take_bit_nat_less_exp [of 3 "unat packed"] by simp
  ultimately show ?thesis
    using color_table_width [of "unat (packed AND 7)"]
    by (simp add: inline_gif_color_table_def skip_color_table_def advance_agrees has_color_table_def gif_color_table_size_def
        flip: unat_eq_0)
qed

lemma add_16_less:
  "(ucast (m :: u16) < (ucast (a :: u16) + ucast (b :: u16) :: u32)) \<longleftrightarrow> unat m < unat a + unat b"
proof -
  have small: "unat c < 65536" for c :: u16 by (rule order_less_le_trans [OF unsigned_less]) simp
  have wide: "unat (ucast c :: u32) = unat c" for c :: u16
    using small [of c] by (simp add: unsigned_ucast_eq take_bit_nat_eq_self)
  have "unat (ucast a + ucast b :: u32) = unat a + unat b"
    using small [of a] small [of b] by (simp add: unat_word_ariths wide)
  then show ?thesis by (simp add: word_less_nat_alt wide)
qed

lemma image_agrees:
  assumes "length data < usize_limit"
  shows "inline_gif_image data cw ch cp frames i = gif_image data (unat cw) (unat ch) (unat cp) (unat frames) i"
proof (cases "i + 9 \<le> length data")
  case True
  obtain l where l: "signal_inline_gif_read_u16 data i = Some l" "unat l = le16 data i"
    by (rule read_u16_le16 [of i data]) (use True in simp_all)
  obtain u where u: "signal_inline_gif_read_u16 data (i + 2) = Some u" "unat u = le16 data (i + 2)"
    by (rule read_u16_le16 [of "i + 2" data]) (use True in simp_all)
  obtain w where w: "signal_inline_gif_read_u16 data (i + 4) = Some w" "unat w = le16 data (i + 4)"
    by (rule read_u16_le16 [of "i + 4" data]) (use True in simp_all)
  obtain h where h: "signal_inline_gif_read_u16 data (i + 6) = Some h" "unat h = le16 data (i + 6)"
    by (rule read_u16_le16 [of "i + 6" data]) (use True in simp_all)
  have zero: "w = 0 \<longleftrightarrow> le16 data (i + 4) = 0" "h = 0 \<longleftrightarrow> le16 data (i + 6) = 0"
    by (simp_all flip: w(2) h(2) add: unat_eq_0)
  have budget: "SIGNAL_INLINE_GIF_MAX_PIXEL_FRAMES div cp < frames \<longleftrightarrow> MAX_INLINE_GIF_PIXEL_FRAMES div unat cp < unat frames"
    by (simp add: word_less_nat_alt unat_div SIGNAL_INLINE_GIF_MAX_PIXEL_FRAMES_def MAX_INLINE_GIF_PIXEL_FRAMES_def)
  have packed: "index_byte data (i + 8) = Some (data ! (i + 8))" using True by (simp add: index_byte_def)
  have room: "(i > length data \<or> 9 > length data - i) = False" using True by auto
  show ?thesis
    unfolding gif_image_eq [OF assms True] inline_gif_image_def room l u w h packed option.case prod.case if_False add_16_less zero budget
      color_table_agrees skip_color_table_eq image_fits_def skip_agrees
    by (auto simp: not_less not_le)
qed (auto simp: inline_gif_image_def gif_image_def)

subsection \<open>The whole check\<close>

lemma block_agrees:
  assumes "length data < usize_limit" "offset < length data" "unat frames \<le> MAX_INLINE_GIF_PIXEL_FRAMES"
  shows "inline_gif_block data cw ch cp frames offset =
    (case gif_block data (unat cw) (unat ch) (unat cp) (unat frames) offset of
       Gif_Panic \<Rightarrow> Inline_Overrun
     | Gif_Return answer \<Rightarrow> Inline_Return answer
     | Gif_Next next frames1 \<Rightarrow> Inline_Next next (of_nat frames1))"
proof -
  have "unat (frames + 1) = unat frames + 1"
    using assms(3) by (simp add: unat_word_ariths MAX_INLINE_GIF_PIXEL_FRAMES_def)
  then show ?thesis
    using assms image_agrees [OF assms(1), of cw ch cp "frames + 1" "offset + 1"]
    by (auto simp: inline_gif_block_def gif_block_def Let_def index_byte_def advance_agrees skip_agrees word_less_nat_alt
        split: option.split)
qed

lemma block_next:
  assumes "inline_gif_block data cw ch cp frames offset = Inline_Next next frames1"
  shows "offset < next"
  using assms
  by (auto simp: inline_gif_block_def inline_gif_image_def Let_def advance_agrees advance_gif_offset_def skip_agrees
      color_table_agrees split: if_splits option.splits dest!: skip_gif_sub_blocks_bounds skip_color_table_bounds)

function inline_gif_blocks :: "bytes \<Rightarrow> u16 \<Rightarrow> u16 \<Rightarrow> u64 \<Rightarrow> u64 \<Rightarrow> usize \<Rightarrow> bool option" where
  "inline_gif_blocks data canvas_width canvas_height canvas_pixels frames offset =
     (if offset < length data then
        (case inline_gif_block data canvas_width canvas_height canvas_pixels frames offset of
           Inline_Overrun \<Rightarrow> None
         | Inline_Return answer \<Rightarrow> Some answer
         | Inline_Next next frames1 \<Rightarrow>
             inline_gif_blocks data canvas_width canvas_height canvas_pixels frames1 next)
      else Some False)"
  by auto
termination
  by (relation "measure (\<lambda>(data, cw, ch, cp, frames, offset). length data - offset)") (auto dest: block_next)

declare inline_gif_blocks.simps [simp del]

definition signal_inline_gif_is_bounded :: "bytes \<Rightarrow> bool option" where
  "signal_inline_gif_is_bounded data =
     (if length data < 13 \<or> length data > SIGNAL_INLINE_IMAGE_MAX_BYTES \<or>
         (\<not> signal_inline_image_has_prefix (Some data) (ascii_bytes ''GIF87a'') \<and>
          \<not> signal_inline_image_has_prefix (Some data) (ascii_bytes ''GIF89a''))
      then Some False
      else
        case (signal_inline_gif_read_u16 data 6, signal_inline_gif_read_u16 data 8, index_byte data 10) of
          (Some canvas_width, Some canvas_height, Some packed) \<Rightarrow>
            if \<not> signal_inline_image_dimensions_are_supported (uint canvas_width) (uint canvas_height) then Some False
            else
              (case inline_gif_color_table data packed 13 of
                 None \<Rightarrow> Some False
               | Some offset \<Rightarrow>
                   inline_gif_blocks data canvas_width canvas_height (ucast canvas_width * ucast canvas_height) 0 offset)
        | _ \<Rightarrow> None)"

lemma blocks_agree:
  "length data < usize_limit \<Longrightarrow> unat frames \<le> MAX_INLINE_GIF_PIXEL_FRAMES \<Longrightarrow>
   inline_gif_blocks data cw ch cp frames offset = gif_blocks data (unat cw) (unat ch) (unat cp) (unat frames) offset"
proof (induction data cw ch cp frames offset rule: inline_gif_blocks.induct)
  case (1 data cw ch cp frames offset)
  show ?case
  proof (cases "offset < length data")
    case True
    note b = block_agrees [OF "1.prems"(1) True "1.prems"(2), of cw ch cp]
    show ?thesis
    proof (cases "gif_block data (unat cw) (unat ch) (unat cp) (unat frames) offset")
      case (Gif_Next nx frames1)
      then have "frames1 \<le> MAX_INLINE_GIF_PIXEL_FRAMES"
        using "1.prems"(2) le_trans [OF _ div_le_dividend, of frames1 MAX_INLINE_GIF_PIXEL_FRAMES "unat cp"]
        by (auto simp: gif_block_next_iff [OF "1.prems"(1) True])
      moreover from this have "unat (of_nat frames1 :: u64) = frames1"
        by (simp add: unsigned_of_nat take_bit_nat_eq_self MAX_INLINE_GIF_PIXEL_FRAMES_def)
      ultimately show ?thesis
        using True Gif_Next b "1.IH" [OF True] "1.prems"
        by (subst inline_gif_blocks.simps, subst gif_blocks.simps) simp
    qed (use True b in \<open>simp add: inline_gif_blocks.simps [of data] gif_blocks.simps [of data]\<close>)+
  qed (simp add: inline_gif_blocks.simps [of data] gif_blocks.simps [of data])
qed

lemma prefix_agrees: "signal_inline_image_has_prefix (Some data) pre \<longleftrightarrow> prefix pre data"
  by (auto simp: signal_inline_image_has_prefix_def prefix_def) (metis append_take_drop_id)

lemma small_product:
  assumes "unat a \<le> 8192" "unat b \<le> 8192"
  shows "unat (ucast (a :: u16) * ucast (b :: u16) :: u64) = unat a * unat b"
proof -
  have "unat a * unat b \<le> 8192 * 8192" by (rule mult_le_mono [OF assms])
  moreover have "unat (ucast c :: u64) = unat c" for c :: u16
    using unsigned_less [of c, where ?'a = nat] by (simp add: unsigned_ucast_eq take_bit_nat_eq_self)
  ultimately show ?thesis by (simp add: unat_word_ariths)
qed

lemma dimensions_agree:
  "signal_inline_image_dimensions_are_supported (uint w) (uint h) \<longleftrightarrow>
     0 < unat w \<and> 0 < unat h \<and> unat w \<le> MAX_INLINE_GIF_EDGE \<and> unat h \<le> MAX_INLINE_GIF_EDGE \<and>
     unat w * unat h \<le> MAX_INLINE_GIF_PIXELS" for w h :: u16
proof -
  have edge: "0 < uint c \<longleftrightarrow> 0 < unat c" "uint c \<le> SIGNAL_INLINE_IMAGE_MAX_EDGE \<longleftrightarrow> unat c \<le> MAX_INLINE_GIF_EDGE" for c :: u16
  proof -
    have "uint c = int (unat c)" by simp
    then show "0 < uint c \<longleftrightarrow> 0 < unat c" "uint c \<le> SIGNAL_INLINE_IMAGE_MAX_EDGE \<longleftrightarrow> unat c \<le> MAX_INLINE_GIF_EDGE"
      unfolding SIGNAL_INLINE_IMAGE_MAX_EDGE_def MAX_INLINE_GIF_EDGE_def by linarith+
  qed
  have "word_of_int (uint w) * word_of_int (uint h) \<le> SIGNAL_INLINE_IMAGE_MAX_PIXELS \<longleftrightarrow> unat w * unat h \<le> MAX_INLINE_GIF_PIXELS"
    if "unat w \<le> MAX_INLINE_GIF_EDGE" "unat h \<le> MAX_INLINE_GIF_EDGE"
  proof -
    have "(word_of_int (uint w) * word_of_int (uint h) :: u64) = ucast w * ucast h" by simp
    moreover have "unat (ucast w * ucast h :: u64) = unat w * unat h"
      using that by (intro small_product) (simp_all add: MAX_INLINE_GIF_EDGE_def)
    ultimately show ?thesis by (simp add: word_le_nat_alt SIGNAL_INLINE_IMAGE_MAX_PIXELS_def MAX_INLINE_GIF_PIXELS_def)
  qed
  then show ?thesis unfolding signal_inline_image_dimensions_are_supported_def edge by blast
qed

lemma gif_is_bounded_agrees: "signal_inline_gif_is_bounded data = bounded_inline_gif data"
proof (cases "13 \<le> length data \<and> length data \<le> MAX_INLINE_MEDIA_BYTES \<and> gif_signature data")
  case True
  obtain w where w: "signal_inline_gif_read_u16 data 6 = Some w" "unat w = le16 data 6"
    by (rule read_u16_le16 [of 6 data]) (use True in simp_all)
  obtain h where h: "signal_inline_gif_read_u16 data 8 = Some h" "unat h = le16 data 8"
    by (rule read_u16_le16 [of 8 data]) (use True in simp_all)
  have packed: "index_byte data 10 = Some (data ! 10)" using True by (simp add: index_byte_def)
  have enter: "(length data < 13 \<or> length data > SIGNAL_INLINE_IMAGE_MAX_BYTES \<or>
      (\<not> signal_inline_image_has_prefix (Some data) (ascii_bytes ''GIF87a'') \<and>
       \<not> signal_inline_image_has_prefix (Some data) (ascii_bytes ''GIF89a''))) = False"
    using True by (auto simp: SIGNAL_INLINE_IMAGE_MAX_BYTES_def MAX_INLINE_MEDIA_BYTES_def prefix_agrees gif_signature_def)
  have dims: "signal_inline_image_dimensions_are_supported (uint w) (uint h) \<longleftrightarrow> gif_header_ok data"
    using True by (auto simp: dimensions_agree gif_header_ok_def w h)
  have "inline_gif_blocks data w h (ucast w * ucast h) 0 offset =
      gif_blocks data (le16 data 6) (le16 data 8) (le16 data 6 * le16 data 8) 0 offset" if "gif_header_ok data" for offset
    using that small_product [of w h] media_limit_small [of "length data"]
    by (subst blocks_agree) (auto simp: gif_header_ok_def MAX_INLINE_GIF_EDGE_def w h)
  then show ?thesis
    unfolding signal_inline_gif_is_bounded_def bounded_inline_gif_eq w(1) h(1) packed prod.case option.case dims enter if_False
    by (simp add: color_table_agrees skip_color_table_eq)
qed (auto simp: signal_inline_gif_is_bounded_def bounded_inline_gif_eq gif_header_ok_def SIGNAL_INLINE_IMAGE_MAX_BYTES_def
    MAX_INLINE_MEDIA_BYTES_def prefix_agrees gif_signature_def)

subsection \<open>Showing an image inline\<close>

definition signal_inline_image_size_is_supported :: "usize \<Rightarrow> bool" where
  "signal_inline_image_size_is_supported sz \<longleftrightarrow> sz > 0 \<and> sz \<le> SIGNAL_INLINE_IMAGE_MAX_BYTES"

definition signal_inline_image_type :: "string option \<Rightarrow> bytes option \<Rightarrow> string option" where
  "signal_inline_image_type mime_type data =
     (case (mime_type, data) of
        (Some t, Some d) \<Rightarrow>
          if d = [] then None
          else if eq_ignore_ascii_case t ''image/jpeg'' \<and> signal_inline_image_has_prefix data [0xff, 0xd8, 0xff] then Some ''jpeg''
          else if eq_ignore_ascii_case t ''image/png'' \<and>
                  signal_inline_image_has_prefix data [0x89, 0x50, 0x4e, 0x47, 0x0d, 0x0a, 0x1a, 0x0a] then Some ''png''
          else if eq_ignore_ascii_case t ''image/gif'' \<and> signal_inline_gif_is_bounded d = Some True then Some ''gif''
          else None
      | _ \<Rightarrow> None)"

text \<open>
  The loader of gdk-pixbuf is a parameter: a write says whether it succeeded and with which sizes the
  \<^verbatim>\<open>size-prepared\<close> handler ran; the handler's answer, whether it shrinks the image, is given to the write.
\<close>

record 'l pixbuf_loader =
  pl_new :: "string \<Rightarrow> 'l option"
  pl_write :: "(int \<Rightarrow> int \<Rightarrow> bool) \<Rightarrow> bytes \<Rightarrow> 'l \<Rightarrow> bool \<times> (int \<times> int) list \<times> 'l"
  pl_close :: "(int \<Rightarrow> int \<Rightarrow> bool) \<Rightarrow> 'l \<Rightarrow> bool \<times> (int \<times> int) list \<times> 'l"
  pl_has_pixbuf :: "'l \<Rightarrow> bool"

record inline_image_validation =
  dimensions_seen :: bool
  dimensions_supported :: bool

definition SIGNAL_INLINE_IMAGE_VALIDATION_CHUNK :: usize where
  "SIGNAL_INLINE_IMAGE_VALIDATION_CHUNK = 4096"

definition signal_inline_image_size_prepared :: "int \<times> int \<Rightarrow> inline_image_validation \<Rightarrow> inline_image_validation" where
  "signal_inline_image_size_prepared wh v =
     v\<lparr>dimensions_seen := True,
       dimensions_supported := signal_inline_image_dimensions_are_supported (fst wh) (snd wh)\<rparr>"

definition shrinks :: "int \<Rightarrow> int \<Rightarrow> bool" where
  "shrinks width height \<longleftrightarrow> \<not> signal_inline_image_dimensions_are_supported width height"

text \<open>The loop over the chunks; the first component is \<^verbatim>\<open>complete\<close>.\<close>

function inline_image_write ::
  "'l pixbuf_loader \<Rightarrow> bytes \<Rightarrow> 'l \<Rightarrow> inline_image_validation \<Rightarrow> bool \<times> 'l \<times> inline_image_validation" where
  "inline_image_write pl data l v =
     (if data = [] then (True, l, v)
      else
        case pl_write pl shrinks (take SIGNAL_INLINE_IMAGE_VALIDATION_CHUNK data) l of
          (ok, sizes, l1) \<Rightarrow>
            (let v1 = fold signal_inline_image_size_prepared sizes v
             in if \<not> ok \<or> (dimensions_seen v1 \<and> \<not> dimensions_supported v1) then (False, l1, v1)
                else inline_image_write pl (drop SIGNAL_INLINE_IMAGE_VALIDATION_CHUNK data) l1 v1))"
  by auto
termination
  by (relation "measure (\<lambda>(pl, data, l, v). length data)") (auto simp: SIGNAL_INLINE_IMAGE_VALIDATION_CHUNK_def)

declare inline_image_write.simps [simp del]

definition signal_inline_image_is_supported :: "'l pixbuf_loader \<Rightarrow> string option \<Rightarrow> bytes option \<Rightarrow> bool" where
  "signal_inline_image_is_supported pl mime_type data =
     (case data of
        None \<Rightarrow> False
      | Some d \<Rightarrow>
          signal_inline_image_size_is_supported (length d) \<and>
          (case signal_inline_image_type mime_type data of
             None \<Rightarrow> False
           | Some image_type \<Rightarrow>
               (case pl_new pl image_type of
                  None \<Rightarrow> False
                | Some l \<Rightarrow>
                    (case inline_image_write pl d l \<lparr>dimensions_seen = False, dimensions_supported = False\<rparr> of
                       (complete, l1, v) \<Rightarrow>
                         (case pl_close pl shrinks l1 of
                            (closed, sizes, l2) \<Rightarrow>
                              (let v1 = fold signal_inline_image_size_prepared sizes v
                               in complete \<and> closed \<and> dimensions_seen v1 \<and> dimensions_supported v1 \<and> pl_has_pixbuf pl l2))))))"

lemma bounded_gif_signature: "bounded_inline_gif data = Some True \<Longrightarrow> gif_signature data"
  by (auto simp: bounded_inline_gif_def split: if_splits)

lemma mime_types_differ:
  "eq_ignore_ascii_case t ''image/png'' \<Longrightarrow> \<not> eq_ignore_ascii_case t ''image/jpeg''"
  "eq_ignore_ascii_case t ''image/gif'' \<Longrightarrow> \<not> eq_ignore_ascii_case t ''image/jpeg''"
  "eq_ignore_ascii_case t ''image/gif'' \<Longrightarrow> \<not> eq_ignore_ascii_case t ''image/png''"
proof -
  have "to_ascii_lowercase ''image/jpeg'' = ''image/jpeg''" "to_ascii_lowercase ''image/png'' = ''image/png''"
      "to_ascii_lowercase ''image/gif'' = ''image/gif''" by code_simp+
  then show "eq_ignore_ascii_case t ''image/png'' \<Longrightarrow> \<not> eq_ignore_ascii_case t ''image/jpeg''"
      "eq_ignore_ascii_case t ''image/gif'' \<Longrightarrow> \<not> eq_ignore_ascii_case t ''image/jpeg''"
      "eq_ignore_ascii_case t ''image/gif'' \<Longrightarrow> \<not> eq_ignore_ascii_case t ''image/png''"
    by (simp_all add: eq_ignore_ascii_case_def)
qed

lemma image_type_recognised:
  assumes "signal_inline_image_type mime_type (Some d) = Some k" "signal_inline_image_size_is_supported (length d)"
  shows "inline_image_matches mime_type d"
proof -
  obtain t where t: "mime_type = Some t" using assms(1) by (cases mime_type) (simp_all add: signal_inline_image_type_def)
  have len: "\<not> MAX_INLINE_MEDIA_BYTES < length d"
    using assms(2) by (simp add: signal_inline_image_size_is_supported_def SIGNAL_INLINE_IMAGE_MAX_BYTES_def MAX_INLINE_MEDIA_BYTES_def)
  consider "eq_ignore_ascii_case t ''image/jpeg''" "prefix JPEG_SIGNATURE d"
    | "eq_ignore_ascii_case t ''image/png''" "prefix PNG_SIGNATURE d"
    | "eq_ignore_ascii_case t ''image/gif''" "gif_signature d"
    using assms(1) bounded_gif_signature [of d]
    unfolding t signal_inline_image_type_def option.case prod.case prefix_agrees JPEG_SIGNATURE_def [symmetric]
      PNG_SIGNATURE_def [symmetric] gif_is_bounded_agrees
    by (simp split: if_split_asm)
  then show ?thesis using t len mime_types_differ by cases (simp_all add: inline_image_matches_def)
qed

text \<open>
  C35. The plugin and the core agree on inline images: the GIF check of the plugin, written in C, never reads past the
  end of the data and gives the answer of the core's check for every byte string; and whatever the plugin shows inline,
  with any image loader, is an attachment the core also recognises as an inline image by its type, signature and size.
\<close>

theorem plugin_image_checks_agree:
  "signal_inline_gif_is_bounded data = bounded_inline_gif data \<and> signal_inline_gif_is_bounded data \<noteq> None \<and>
   (if signal_inline_image_is_supported pl mime_type picture then should_inline_image False mime_type picture else True)"
proof -
  have total: "bounded_inline_gif data \<noteq> None"
    using gif_blocks_not_panic media_limit_small [of "length data"]
    by (auto simp: bounded_inline_gif_eq gif_header_ok_def)
  have "should_inline_image False mime_type picture" if "signal_inline_image_is_supported pl mime_type picture"
    using that image_type_recognised
    by (cases picture) (auto simp: signal_inline_image_is_supported_def should_inline_image_def split: option.splits)
  then show ?thesis using total by (simp add: gif_is_bounded_agrees)
qed

end
