(* ===== verification/Plugin_State.thy ===== *)
theory Plugin_State
  imports Ffi "HOL-Library.Multiset"
begin

section \<open>The tables of the plugin (src/connection.c, src/contact\_sync.c, src/group\_sync.c)\<close>

text \<open>
  The C plugin keeps its own tables beside libpurple: the groups of the account with the numbers libpurple knows them by, the
  snapshot being received, the joins and leaves that wait, the changed identities, and the read receipts that wait for their
  conversation to be viewed. Here they are with the functions that change them. Calls of libpurple that only draw or
  notify have no part in the tables and are left out; what libpurple answers (whether a
  conversation has focus, whether a sender may be shown) is an argument. A hash table is the list of its keys; its
  order of iteration, which GLib leaves open, is given by an arbitrary ranking of the keys.
\<close>

subsection \<open>Snapshots (contact\_sync.c)\<close>

record contact_sync =
  cs_seen :: "string list"
  cs_active :: bool

definition nonempty :: "string option \<Rightarrow> bool" where
  "nonempty s \<longleftrightarrow> (case s of None \<Rightarrow> False | Some t \<Rightarrow> t \<noteq> [])"

text \<open>\<^verbatim>\<open>g_hash_table_add\<close> of a set of strings.\<close>

definition table_add :: "'a \<Rightarrow> 'a list \<Rightarrow> 'a list" where
  "table_add x xs = (if x \<in> set xs then xs else xs @ [x])"

lemma set_table_add [simp]: "set (table_add x xs) = insert x (set xs)"
  by (auto simp: table_add_def)

definition signal_contact_sync_init :: contact_sync where
  "signal_contact_sync_init = \<lparr>cs_seen = [], cs_active = False\<rparr>"

definition signal_contact_sync_begin :: "contact_sync \<Rightarrow> contact_sync" where
  "signal_contact_sync_begin sync = sync\<lparr>cs_seen := [], cs_active := True\<rparr>"

definition signal_contact_sync_mark :: "string option \<Rightarrow> contact_sync \<Rightarrow> contact_sync" where
  "signal_contact_sync_mark identifier sync =
     (if \<not> cs_active sync \<or> \<not> nonempty identifier then sync
      else sync\<lparr>cs_seen := table_add (the identifier) (cs_seen sync)\<rparr>)"

definition signal_contact_sync_should_remove :: "contact_sync \<Rightarrow> string option \<Rightarrow> bool" where
  "signal_contact_sync_should_remove sync identifier \<longleftrightarrow>
     cs_active sync \<and> nonempty identifier \<and> the identifier \<notin> set (cs_seen sync)"

definition signal_contact_sync_end :: "contact_sync \<Rightarrow> contact_sync" where
  "signal_contact_sync_end sync = sync\<lparr>cs_active := False, cs_seen := []\<rparr>"

subsection \<open>The connection\<close>

definition SIGNAL_MAX_PENDING_READS :: nat where
  "SIGNAL_MAX_PENDING_READS = 4096"

record pending_read =
  rd_peer_id :: string
  rd_chat_id :: "string option"
  rd_timestamp :: u64
  rd_eligible :: bool

text \<open>A transfer of libpurple is given by a number; its context belongs to it while it is in the table of contexts.\<close>

record signal_outgoing_attachment =
  og_recipient :: string
  og_request_id :: u64
  og_group :: bool

record plugin =
  pc_core :: "signal_core ptr"
  pc_group_ids_by_key :: "string \<rightharpoonup> u32"
  pc_group_keys_by_id :: "u32 \<rightharpoonup> string"
  pc_group_titles_by_key :: "string \<rightharpoonup> string"
  pc_group_members_by_key :: "string \<rightharpoonup> (string \<times> bool) list"
  pc_active_group_keys :: "string list"
  pc_pending_group_joins :: "string list"
  pc_pending_group_leaves :: "string list"
  pc_identity_changes_seen :: "string list"
  pc_pending_identity_changes :: "string list"
  pc_outgoing_attachments :: "(u64 \<times> nat) list"
  pc_outgoing_attachment_contexts :: "nat \<rightharpoonup> signal_outgoing_attachment"
  pc_pending_reads :: "pending_read list"
  pc_group_leave_requests :: "string list"
  pc_contact_sync :: contact_sync
  pc_group_sync :: contact_sync
  pc_local_aci :: "string option"
  pc_remote_profile_name :: "string option"
  pc_next_group_id :: u32
  pc_next_request_id :: u64
  pc_pending_read_retry :: bool
  pc_group_sync_fallback :: bool
  pc_group_snapshot_complete :: bool
  pc_pending_read_limit_warned :: bool
  pc_closing :: bool

definition signal_connection_new :: "signal_core ptr \<Rightarrow> plugin" where
  "signal_connection_new core =
     \<lparr>pc_core = core, pc_group_ids_by_key = Map.empty, pc_group_keys_by_id = Map.empty, pc_group_titles_by_key = Map.empty,
      pc_group_members_by_key = Map.empty, pc_active_group_keys = [], pc_pending_group_joins = [], pc_pending_group_leaves = [],
      pc_identity_changes_seen = [], pc_pending_identity_changes = [], pc_outgoing_attachments = [],
      pc_outgoing_attachment_contexts = Map.empty, pc_pending_reads = [],
      pc_group_leave_requests = [], pc_contact_sync = signal_contact_sync_init, pc_group_sync = signal_contact_sync_init,
      pc_local_aci = None, pc_remote_profile_name = None, pc_next_group_id = 1, pc_next_request_id = 1,
      pc_pending_read_retry = False, pc_group_sync_fallback = False, pc_group_snapshot_complete = False,
      pc_pending_read_limit_warned = False, pc_closing = False\<rparr>"

text \<open>A call of the core with the next request id.\<close>

definition next_request :: "(signal_core ptr \<Rightarrow> u64 \<Rightarrow> signal_status \<times> signal_core ptr) \<Rightarrow> plugin \<Rightarrow> signal_status \<times> plugin" where
  "next_request call pc =
     (case call (pc_core pc) (pc_next_request_id pc) of
        (status, core) \<Rightarrow> (status, pc\<lparr>pc_core := core, pc_next_request_id := pc_next_request_id pc + 1\<rparr>))"

subsection \<open>Read receipts\<close>

definition read_key :: "pending_read \<Rightarrow> string \<times> string option \<times> u64" where
  "read_key r = (rd_peer_id r, rd_chat_id r, rd_timestamp r)"

definition signal_pending_read_equal :: "pending_read \<Rightarrow> pending_read \<Rightarrow> bool" where
  "signal_pending_read_equal a b \<longleftrightarrow>
     rd_timestamp a = rd_timestamp b \<and> rd_peer_id a = rd_peer_id b \<and> rd_chat_id a = rd_chat_id b"

definition signal_send_read :: "pending_read \<Rightarrow> plugin \<Rightarrow> signal_status \<times> plugin" where
  "signal_send_read r pc =
     (if pc_core pc = None then (Not_Ready, pc)
      else next_request (\<lambda>core i. signal_core_mark_read core i (Some (rd_peer_id r)) (rd_timestamp r)) pc)"

definition signal_pending_read_matches :: "string option \<Rightarrow> string option \<Rightarrow> pending_read \<Rightarrow> bool" where
  "signal_pending_read_matches direct_peer gk r =
     (if rd_chat_id r \<noteq> None then rd_chat_id r = gk else Some (rd_peer_id r) = direct_peer)"

definition signal_mark_pending_reads_eligible :: "string option \<Rightarrow> string option \<Rightarrow> plugin \<Rightarrow> plugin" where
  "signal_mark_pending_reads_eligible direct_peer gk pc =
     pc\<lparr>pc_pending_reads :=
       map (\<lambda>r. if signal_pending_read_matches direct_peer gk r then r\<lparr>rd_eligible := True\<rparr> else r) (pc_pending_reads pc)\<rparr>"

definition signal_schedule_pending_read_retry :: "plugin \<Rightarrow> plugin" where
  "signal_schedule_pending_read_retry pc =
     (if \<not> pc_pending_read_retry pc \<and> \<not> pc_closing pc \<and> pc_core pc \<noteq> None then pc\<lparr>pc_pending_read_retry := True\<rparr> else pc)"

text \<open>The loop over the table: the receipts the core took, those that stay, and the connection.\<close>

fun flush_reads :: "pending_read list \<Rightarrow> plugin \<Rightarrow> pending_read list \<times> pending_read list \<times> plugin" where
  "flush_reads [] pc = ([], [], pc)"
| "flush_reads (r # rs) pc =
     (if \<not> rd_eligible r then (case flush_reads rs pc of (sent, kept, pc1) \<Rightarrow> (sent, r # kept, pc1))
      else
        case signal_send_read r pc of
          (status, pc1) \<Rightarrow>
            if status = Status_Ok then (case flush_reads rs pc1 of (sent, kept, pc2) \<Rightarrow> (r # sent, kept, pc2))
            else if status = Queue_Full then ([], r # rs, signal_schedule_pending_read_retry pc1)
            else if status = Not_Ready then ([], r # rs, pc1)
            else flush_reads rs pc1)"

definition clear_read_warning :: "plugin \<Rightarrow> plugin" where
  "clear_read_warning pc =
     (if length (pc_pending_reads pc) < SIGNAL_MAX_PENDING_READS then pc\<lparr>pc_pending_read_limit_warned := False\<rparr> else pc)"

definition signal_flush_pending_reads :: "(pending_read \<Rightarrow> nat) \<Rightarrow> plugin \<Rightarrow> pending_read list \<times> plugin" where
  "signal_flush_pending_reads rank pc =
     (case flush_reads (sort_key rank (pc_pending_reads pc)) pc of
        (sent, kept, pc1) \<Rightarrow> (sent, clear_read_warning (pc1\<lparr>pc_pending_reads := kept\<rparr>)))"

definition signal_retry_pending_reads :: "(pending_read \<Rightarrow> nat) \<Rightarrow> plugin \<Rightarrow> pending_read list \<times> plugin" where
  "signal_retry_pending_reads rank pc =
     (let pc1 = pc\<lparr>pc_pending_read_retry := False\<rparr>
      in if \<not> pc_closing pc \<and> pc_core pc \<noteq> None then signal_flush_pending_reads rank pc1 else ([], pc1))"

definition event_outgoing :: "event \<Rightarrow> bool" where
  "event_outgoing e \<longleftrightarrow> and (ev_flags e) FLAG_OUTGOING \<noteq> 0"

definition event_read :: "bool \<Rightarrow> event \<Rightarrow> pending_read" where
  "event_read focused e =
     \<lparr>rd_peer_id = the (ev_peer_id e), rd_chat_id = ev_chat_id e, rd_timestamp = ev_timestamp_ms e, rd_eligible = focused\<rparr>"

text \<open>A read that is not in the table yet: a full table is flushed once to make room.\<close>

definition add_pending_read :: "(pending_read \<Rightarrow> nat) \<Rightarrow> pending_read \<Rightarrow> plugin \<Rightarrow> pending_read list \<times> plugin" where
  "add_pending_read rank r pc =
     (case (if SIGNAL_MAX_PENDING_READS \<le> length (pc_pending_reads pc) then signal_flush_pending_reads rank pc else ([], pc)) of
        (sent, pc1) \<Rightarrow>
          if SIGNAL_MAX_PENDING_READS \<le> length (pc_pending_reads pc1) then (sent, pc1\<lparr>pc_pending_read_limit_warned := True\<rparr>)
          else
            let pc2 = pc1\<lparr>pc_pending_reads := pc_pending_reads pc1 @ [r]\<rparr>
            in if rd_eligible r then (case signal_flush_pending_reads rank pc2 of (sent1, pc3) \<Rightarrow> (sent @ sent1, pc3))
               else (sent, pc2))"

definition signal_queue_read :: "(pending_read \<Rightarrow> nat) \<Rightarrow> bool \<Rightarrow> event \<Rightarrow> plugin \<Rightarrow> pending_read list \<times> plugin" where
  "signal_queue_read rank focused e pc =
     (if event_outgoing e \<or> ev_peer_id e = None \<or> ev_timestamp_ms e = 0 then ([], pc)
      else
        let r = event_read focused e;
            pc1 = (if focused
                   then signal_mark_pending_reads_eligible (if ev_chat_id e = None then ev_peer_id e else None) (ev_chat_id e) pc
                   else pc)
        in if list_ex (signal_pending_read_equal r) (pc_pending_reads pc)
           then (if focused then signal_flush_pending_reads rank pc1 else ([], pc1))
           else add_pending_read rank r pc1)"

definition signal_queue_final_read :: "(pending_read \<Rightarrow> nat) \<Rightarrow> bool \<Rightarrow> event \<Rightarrow> plugin \<Rightarrow> pending_read list \<times> plugin" where
  "signal_queue_final_read rank focused e pc =
     (if ev_request_id e \<noteq> 0 then signal_queue_read rank focused e pc else ([], pc))"

subsection \<open>Groups\<close>

definition signal_group_id :: "string \<Rightarrow> string option \<Rightarrow> plugin \<Rightarrow> u32 \<times> plugin" where
  "signal_group_id gk title pc =
     (case (case pc_group_ids_by_key pc gk of
              Some i \<Rightarrow> (i, pc)
            | None \<Rightarrow>
                let i = pc_next_group_id pc
                in (i, pc\<lparr>pc_next_group_id := i + 1, pc_group_ids_by_key := (pc_group_ids_by_key pc)(gk \<mapsto> i),
                         pc_group_keys_by_id := (pc_group_keys_by_id pc)(i \<mapsto> gk)\<rparr>)) of
        (i, pc1) \<Rightarrow>
          (i, if nonempty title then pc1\<lparr>pc_group_titles_by_key := (pc_group_titles_by_key pc1)(gk \<mapsto> the title)\<rparr> else pc1))"

definition signal_group_members :: "string \<Rightarrow> plugin \<Rightarrow> plugin" where
  "signal_group_members gk pc =
     (if pc_group_members_by_key pc gk = None
      then pc\<lparr>pc_group_members_by_key := (pc_group_members_by_key pc)(gk \<mapsto> [])\<rparr> else pc)"

definition signal_group_title :: "plugin \<Rightarrow> string \<Rightarrow> string" where
  "signal_group_title pc gk =
     (if nonempty (pc_group_titles_by_key pc gk) then the (pc_group_titles_by_key pc gk) else ''Signal group'')"

definition signal_group_is_active :: "plugin \<Rightarrow> string option \<Rightarrow> bool" where
  "signal_group_is_active pc gk \<longleftrightarrow>
     pc_group_snapshot_complete pc \<and> (case gk of None \<Rightarrow> False | Some k \<Rightarrow> k \<in> set (pc_active_group_keys pc))"

definition signal_group_can_send :: "plugin \<Rightarrow> string option \<Rightarrow> bool" where
  "signal_group_can_send pc gk \<longleftrightarrow> signal_group_is_active pc gk \<and> the gk \<notin> set (pc_pending_group_leaves pc)"

definition signal_remove_group_pending_reads :: "string \<Rightarrow> plugin \<Rightarrow> plugin" where
  "signal_remove_group_pending_reads gk pc =
     clear_read_warning (pc\<lparr>pc_pending_reads := filter (\<lambda>r. rd_chat_id r \<noteq> Some gk) (pc_pending_reads pc)\<rparr>)"

definition signal_deactivate_group :: "string \<Rightarrow> plugin \<Rightarrow> plugin" where
  "signal_deactivate_group gk pc =
     (if gk = [] then pc
      else
        let pc1 = (case pc_group_ids_by_key pc gk of
                     None \<Rightarrow> pc
                   | Some i \<Rightarrow> pc\<lparr>pc_group_keys_by_id := (pc_group_keys_by_id pc)(i := None),
                                   pc_group_ids_by_key := (pc_group_ids_by_key pc)(gk := None)\<rparr>)
        in signal_remove_group_pending_reads gk
             (pc1\<lparr>pc_active_group_keys := removeAll gk (pc_active_group_keys pc1),
                  pc_pending_group_joins := removeAll gk (pc_pending_group_joins pc1),
                  pc_pending_group_leaves := removeAll gk (pc_pending_group_leaves pc1),
                  pc_group_titles_by_key := (pc_group_titles_by_key pc1)(gk := None),
                  pc_group_members_by_key := (pc_group_members_by_key pc1)(gk := None)\<rparr>))"

definition signal_open_group :: "string \<Rightarrow> string option \<Rightarrow> plugin \<Rightarrow> plugin" where
  "signal_open_group gk title pc =
     (let pc1 = snd (signal_group_id gk title pc)
      in pc1\<lparr>pc_pending_group_joins := removeAll gk (pc_pending_group_joins pc1)\<rparr>)"

definition signal_begin_group_sync :: "plugin \<Rightarrow> plugin" where
  "signal_begin_group_sync pc =
     pc\<lparr>pc_group_snapshot_complete := False, pc_group_sync := signal_contact_sync_begin (pc_group_sync pc),
        pc_group_members_by_key := Map.empty\<rparr>"

definition signal_add_group :: "event \<Rightarrow> plugin \<Rightarrow> plugin" where
  "signal_add_group e pc =
     (case ev_chat_id e of
        None \<Rightarrow> pc
      | Some gk \<Rightarrow>
          if gk = [] then pc
          else
            let pc1 = snd (signal_group_id gk (ev_title e) pc)
            in signal_group_members gk (pc1\<lparr>pc_group_sync := signal_contact_sync_mark (ev_chat_id e) (pc_group_sync pc1)\<rparr>))"

definition signal_add_group_member :: "event \<Rightarrow> plugin \<Rightarrow> plugin" where
  "signal_add_group_member e pc =
     (if \<not> nonempty (ev_chat_id e) \<or> \<not> nonempty (ev_peer_id e) then pc
      else
        let gk = the (ev_chat_id e); pc1 = signal_group_members gk pc
        in pc1\<lparr>pc_group_members_by_key :=
             (pc_group_members_by_key pc1)(gk \<mapsto> the (pc_group_members_by_key pc1 gk) @ [(the (ev_peer_id e), ev_value e \<noteq> 0)])\<rparr>)"

definition signal_group_sync_defer_join :: "string \<Rightarrow> plugin \<Rightarrow> bool \<times> plugin" where
  "signal_group_sync_defer_join gk pc =
     (if pc_group_snapshot_complete pc then (False, pc)
      else (True, pc\<lparr>pc_pending_group_joins := table_add gk (pc_pending_group_joins pc)\<rparr>))"

text \<open>The joins in the order of the table, and what stays in it.\<close>

definition signal_group_sync_take_active_joins ::
  "(string \<Rightarrow> nat) \<Rightarrow> string list \<Rightarrow> string list \<Rightarrow> bool \<Rightarrow> string list \<times> string list" where
  "signal_group_sync_take_active_joins rank pending active clear_unmatched =
     (filter (\<lambda>k. k \<in> set active) (sort_key rank pending),
      if clear_unmatched then [] else filter (\<lambda>k. k \<notin> set active) pending)"

definition open_joins :: "(string \<Rightarrow> nat) \<Rightarrow> bool \<Rightarrow> plugin \<Rightarrow> plugin" where
  "open_joins rank clear_unmatched pc =
     (case signal_group_sync_take_active_joins rank (pc_pending_group_joins pc) (pc_active_group_keys pc) clear_unmatched of
        (joins, rest) \<Rightarrow> fold (\<lambda>gk. signal_open_group gk None) joins (pc\<lparr>pc_pending_group_joins := rest\<rparr>))"

definition signal_end_group_sync :: "(string \<Rightarrow> nat) \<Rightarrow> bool \<Rightarrow> plugin \<Rightarrow> plugin" where
  "signal_end_group_sync rank authoritative pc =
     (if \<not> cs_active (pc_group_sync pc) then pc
      else if authoritative then
        let pc1 = pc\<lparr>pc_group_sync_fallback := False\<rparr>;
            stale = filter (\<lambda>k. signal_contact_sync_should_remove (pc_group_sync pc1) (Some k)) (sort_key rank (pc_active_group_keys pc1));
            pc2 = fold signal_deactivate_group stale pc1;
            pc3 = pc2\<lparr>pc_active_group_keys := cs_seen (pc_group_sync pc2),
                      pc_group_sync := signal_contact_sync_end (pc_group_sync pc2), pc_group_snapshot_complete := True\<rparr>
        in open_joins rank True pc3
      else
        open_joins rank False
          (pc\<lparr>pc_active_group_keys := fold table_add (cs_seen (pc_group_sync pc)) (pc_active_group_keys pc),
              pc_group_sync := signal_contact_sync_end (pc_group_sync pc)\<rparr>))"

definition signal_group_sync_timeout :: "(string \<Rightarrow> nat) \<Rightarrow> plugin \<Rightarrow> plugin" where
  "signal_group_sync_timeout rank pc =
     (let pc1 = pc\<lparr>pc_group_sync_fallback := False\<rparr>
      in if pc_group_snapshot_complete pc1 then pc1
         else (fold (\<lambda>gk. signal_open_group gk None) (sort_key rank (pc_pending_group_joins pc1))
                 (pc1\<lparr>pc_group_snapshot_complete := True\<rparr>))\<lparr>pc_pending_group_joins := []\<rparr>)"

text \<open>\<open>gk\<close> is the component of the chat that names the group, by its new or its old key.\<close>

definition signal_join_chat :: "string option \<Rightarrow> plugin \<Rightarrow> plugin" where
  "signal_join_chat component pc =
     (if pc_closing pc then pc
      else
        case component of
          None \<Rightarrow> pc
        | Some gk \<Rightarrow>
            if gk = [] then pc
            else if signal_group_is_active pc (Some gk) then signal_open_group gk None pc
            else
              (case signal_group_sync_defer_join gk pc of
                 (True, pc1) \<Rightarrow> pc1
               | (False, pc1) \<Rightarrow> if gk \<in> set (pc_pending_group_leaves pc1) then pc1 else signal_open_group gk None pc1))"

subsection \<open>Leaving a group\<close>

definition signal_request_group_leave :: "string option \<Rightarrow> plugin \<Rightarrow> plugin" where
  "signal_request_group_leave gk pc =
     (if pc_closing pc \<or> \<not> signal_group_is_active pc gk \<or> the gk \<in> set (pc_pending_group_leaves pc) \<or>
         the gk \<in> set (pc_group_leave_requests pc)
      then pc else pc\<lparr>pc_group_leave_requests := pc_group_leave_requests pc @ [the gk]\<rparr>)"

definition signal_finish_group_leave_request :: "string \<Rightarrow> plugin \<Rightarrow> plugin" where
  "signal_finish_group_leave_request gk pc = pc\<lparr>pc_group_leave_requests := remove1 gk (pc_group_leave_requests pc)\<rparr>"

definition signal_confirm_group_leave :: "string \<Rightarrow> plugin \<Rightarrow> plugin" where
  "signal_confirm_group_leave gk pc =
     (if pc_closing pc \<or> \<not> signal_group_is_active pc (Some gk) \<or> gk \<in> set (pc_pending_group_leaves pc)
      then signal_finish_group_leave_request gk pc
      else
        case next_request (\<lambda>core i. signal_core_leave_group core i (Some gk)) pc of
          (status, pc1) \<Rightarrow>
            signal_finish_group_leave_request gk
              (if status = Status_Ok then pc1\<lparr>pc_pending_group_leaves := table_add gk (pc_pending_group_leaves pc1)\<rparr> else pc1))"

definition signal_group_leave_failed :: "event \<Rightarrow> plugin \<Rightarrow> bool \<times> plugin" where
  "signal_group_leave_failed e pc =
     (case ev_chat_id e of
        None \<Rightarrow> (False, pc)
      | Some gk \<Rightarrow>
          if gk \<in> set (pc_pending_group_leaves pc)
          then (True, pc\<lparr>pc_pending_group_leaves := removeAll gk (pc_pending_group_leaves pc)\<rparr>) else (False, pc))"

definition signal_group_left :: "event \<Rightarrow> plugin \<Rightarrow> plugin" where
  "signal_group_left e pc = (case ev_chat_id e of None \<Rightarrow> pc | Some gk \<Rightarrow> signal_deactivate_group gk pc)"

subsection \<open>Contacts and identities\<close>

definition signal_begin_contact_sync :: "plugin \<Rightarrow> plugin" where
  "signal_begin_contact_sync pc = pc\<lparr>pc_contact_sync := signal_contact_sync_begin (pc_contact_sync pc)\<rparr>"

definition signal_add_contact :: "event \<Rightarrow> plugin \<Rightarrow> plugin" where
  "signal_add_contact e pc =
     (if \<not> nonempty (ev_peer_id e) then pc
      else pc\<lparr>pc_contact_sync := signal_contact_sync_mark (ev_peer_id e) (pc_contact_sync pc)\<rparr>)"

text \<open>The buddies of the account are given by name and whether the plugin manages them; the result has the names it removes.\<close>

definition signal_end_contact_sync :: "(string \<times> bool) list \<Rightarrow> plugin \<Rightarrow> string list \<times> plugin" where
  "signal_end_contact_sync buddies pc =
     (if \<not> cs_active (pc_contact_sync pc) then ([], pc)
      else
        (map fst (filter (\<lambda>(name, managed). managed \<and> signal_contact_sync_should_remove (pc_contact_sync pc) (Some name)) buddies),
         pc\<lparr>pc_contact_sync := signal_contact_sync_end (pc_contact_sync pc)\<rparr>))"

definition signal_set_account_identity :: "event \<Rightarrow> plugin \<Rightarrow> plugin" where
  "signal_set_account_identity e pc =
     (if \<not> nonempty (ev_peer_id e) then pc
      else pc\<lparr>pc_local_aci := ev_peer_id e, pc_remote_profile_name := (if nonempty (ev_title e) then ev_title e else None)\<rparr>)"

definition signal_identity_changed :: "event \<Rightarrow> plugin \<Rightarrow> plugin" where
  "signal_identity_changed e pc =
     (if \<not> nonempty (ev_peer_id e) \<or> the (ev_peer_id e) \<in> set (pc_identity_changes_seen pc) then pc
      else
        let peer = the (ev_peer_id e);
            pc1 = pc\<lparr>pc_identity_changes_seen := table_add peer (pc_identity_changes_seen pc)\<rparr>
        in if ev_value e \<noteq> 0
           then pc1\<lparr>pc_pending_identity_changes := table_add peer (pc_pending_identity_changes pc1)\<rparr>
           else snd (next_request (\<lambda>core i. signal_core_dismiss_identity core i (Some peer)) pc1))"

definition signal_identity_accepted :: "event \<Rightarrow> plugin \<Rightarrow> plugin" where
  "signal_identity_accepted e pc =
     (case ev_peer_id e of
        None \<Rightarrow> pc
      | Some peer \<Rightarrow>
          pc\<lparr>pc_pending_identity_changes := removeAll peer (pc_pending_identity_changes pc),
             pc_identity_changes_seen := removeAll peer (pc_identity_changes_seen pc)\<rparr>)"

definition signal_accept_changed_identity :: "string \<Rightarrow> plugin \<Rightarrow> plugin" where
  "signal_accept_changed_identity peer pc =
     (if pc_closing pc \<or> peer \<notin> set (pc_pending_identity_changes pc) then pc
      else snd (next_request (\<lambda>core i. signal_core_accept_identity core i (Some peer)) pc))"

section \<open>Read receipts follow the reader\<close>

text \<open>
  The plugin over time: messages arrive, conversations are viewed, the retry timer fires, the connection
  becomes ready, groups are left, and the core changes on its own. The messages that arrived and the
  conversations that were viewed are recorded.
\<close>

datatype conversation = Direct string | Chat string

definition read_conversation :: "pending_read \<Rightarrow> conversation" where
  "read_conversation r = (case rd_chat_id r of Some gk \<Rightarrow> Chat gk | None \<Rightarrow> Direct (rd_peer_id r))"

text \<open>A conversation with focus; a chat counts while it is open and known by its number.\<close>

definition signal_conversation_updated ::
  "(pending_read \<Rightarrow> nat) \<Rightarrow> conversation \<Rightarrow> bool \<Rightarrow> plugin \<Rightarrow> pending_read list \<times> plugin" where
  "signal_conversation_updated rank conversation has_left pc =
     (if pc_closing pc then ([], pc)
      else
        signal_flush_pending_reads rank
          (case conversation of
             Direct peer \<Rightarrow> signal_mark_pending_reads_eligible (Some peer) None pc
           | Chat gk \<Rightarrow>
               signal_mark_pending_reads_eligible None
                 (if \<not> has_left \<and> pc_group_ids_by_key pc gk \<noteq> None then Some gk else None) pc))"

record read_system =
  rs_plugin :: plugin
  rs_sent :: "pending_read list"
  rs_arrived :: "pending_read list"
  rs_viewed :: "conversation list"

datatype read_op =
    R_Message "pending_read \<Rightarrow> nat" bool event
  | R_View "pending_read \<Rightarrow> nat" conversation bool
  | R_Retry "pending_read \<Rightarrow> nat"
  | R_Ready "pending_read \<Rightarrow> nat"
  | R_Leave string
  | R_Core "signal_core ptr"

definition read_result :: "pending_read list \<times> plugin \<Rightarrow> read_system \<Rightarrow> read_system" where
  "read_result r s = s\<lparr>rs_plugin := snd r, rs_sent := rs_sent s @ fst r\<rparr>"

primrec read_exec :: "read_op \<Rightarrow> read_system \<Rightarrow> read_system" where
  "read_exec (R_Message rank focused e) s =
     read_result (signal_queue_read rank focused e (rs_plugin s))
       (s\<lparr>rs_arrived := rs_arrived s @ [event_read focused e],
          rs_viewed := (if focused then rs_viewed s @ [read_conversation (event_read focused e)] else rs_viewed s)\<rparr>)"
| "read_exec (R_View rank conversation has_left) s =
     read_result (signal_conversation_updated rank conversation has_left (rs_plugin s)) (s\<lparr>rs_viewed := rs_viewed s @ [conversation]\<rparr>)"
| "read_exec (R_Retry rank) s = read_result (signal_retry_pending_reads rank (rs_plugin s)) s"
| "read_exec (R_Ready rank) s = read_result (signal_flush_pending_reads rank (rs_plugin s)) s"
| "read_exec (R_Leave gk) s = s\<lparr>rs_plugin := signal_remove_group_pending_reads gk (rs_plugin s)\<rparr>"
| "read_exec (R_Core core) s = s\<lparr>rs_plugin := (rs_plugin s)\<lparr>pc_core := core\<rparr>\<rparr>"

definition reads_inv :: "read_system \<Rightarrow> bool" where
  "reads_inv s \<longleftrightarrow>
     length (pc_pending_reads (rs_plugin s)) \<le> SIGNAL_MAX_PENDING_READS \<and>
     distinct (map read_key (pc_pending_reads (rs_plugin s))) \<and>
     image_mset read_key (mset (rs_sent s) + mset (pc_pending_reads (rs_plugin s))) \<subseteq># image_mset read_key (mset (rs_arrived s)) \<and>
     list_all (\<lambda>r. read_conversation r \<in> set (rs_viewed s)) (rs_sent s @ filter rd_eligible (pc_pending_reads (rs_plugin s)))"

subsection \<open>One flush\<close>

lemma next_request_keeps [simp]: "pc_pending_reads (snd (next_request call pc)) = pc_pending_reads pc"
  by (simp add: next_request_def split: prod.split)

lemma send_read_keeps: "signal_send_read r pc = (status, pc1) \<Longrightarrow> pc_pending_reads pc1 = pc_pending_reads pc"
  by (auto simp: signal_send_read_def next_request_def split: if_splits prod.splits)

lemma schedule_keeps [simp]: "pc_pending_reads (signal_schedule_pending_read_retry pc) = pc_pending_reads pc"
  by (simp add: signal_schedule_pending_read_retry_def)

lemma warning_keeps [simp]: "pc_pending_reads (clear_read_warning pc) = pc_pending_reads pc"
  by (simp add: clear_read_warning_def)

lemma flush_reads_parts:
  assumes "flush_reads rs pc = (sent, kept, pc1)"
  shows "mset sent + mset kept \<subseteq># mset rs \<and> list_all rd_eligible sent"
  using assms
proof (induction rs pc arbitrary: sent kept pc1 rule: flush_reads.induct)
  case (2 r rs pc)
  show ?case
  proof (cases "rd_eligible r")
    case False
    then show ?thesis using "2.prems" "2.IH"(1) by (auto split: prod.splits)
  next
    case True
    obtain status pc2 where send: "signal_send_read r pc = (status, pc2)" by (cases "signal_send_read r pc")
    consider "status = Status_Ok" | "status = Queue_Full \<or> status = Not_Ready" | "status = Invalid_Argument \<or> status = Internal_Error"
      by (cases status) auto
    then show ?thesis
    proof cases
      case 1
      then show ?thesis using "2.prems" "2.IH"(2) True send by (auto split: prod.splits)
    next
      case 2
      then show ?thesis using "2.prems" True send by auto
    next
      case 3
      then have "mset sent + mset kept \<subseteq># mset rs \<and> list_all rd_eligible sent"
        using "2.prems" "2.IH"(3) True send by auto
      then show ?thesis by (auto intro: subset_mset.order_trans)
    qed
  qed
qed simp

lemma flush_parts:
  assumes "signal_flush_pending_reads rank pc = (sent, pc1)"
  shows "mset sent + mset (pc_pending_reads pc1) \<subseteq># mset (pc_pending_reads pc)" "list_all rd_eligible sent"
  using assms flush_reads_parts [of "sort_key rank (pc_pending_reads pc)" pc]
  by (auto simp: signal_flush_pending_reads_def split: prod.splits)

subsection \<open>The invariant\<close>

definition viewed_reads_ok :: "pending_read list \<Rightarrow> pending_read list \<Rightarrow> pending_read list \<Rightarrow> conversation list \<Rightarrow> bool" where
  "viewed_reads_ok pending sent arrived viewed \<longleftrightarrow>
     length pending \<le> SIGNAL_MAX_PENDING_READS \<and> distinct (map read_key pending) \<and>
     image_mset read_key (mset sent + mset pending) \<subseteq># image_mset read_key (mset arrived) \<and>
     list_all (\<lambda>r. read_conversation r \<in> set viewed) (sent @ filter rd_eligible pending)"

lemma reads_inv_ok: "reads_inv s \<longleftrightarrow> viewed_reads_ok (pc_pending_reads (rs_plugin s)) (rs_sent s) (rs_arrived s) (rs_viewed s)"
  by (simp add: reads_inv_def viewed_reads_ok_def)

lemma distinct_submultiset:
  assumes "mset xs \<subseteq># mset ys" "distinct ys"
  shows "distinct xs"
  unfolding distinct_count_atmost_1
proof
  fix a
  have "count (mset xs) a \<le> count (mset ys) a" by (rule mset_subset_eq_count [OF assms(1)])
  also have "count (mset ys) a \<le> 1" using assms(2) unfolding distinct_count_atmost_1 by (cases "a \<in> set ys") simp_all
  finally have "count (mset xs) a \<le> 1" .
  moreover have "count (mset xs) a = 0 \<longleftrightarrow> a \<notin> set xs" by simp
  ultimately show "count (mset xs) a = (if a \<in> set xs then 1 else 0)" by (metis le_Suc_eq le_zero_eq One_nat_def)
qed

lemma viewed_reads_ok_flush:
  assumes "viewed_reads_ok pending sent arrived viewed" "mset new + mset kept \<subseteq># mset pending" "list_all rd_eligible new"
  shows "viewed_reads_ok kept (sent @ new) arrived viewed"
proof -
  have k: "mset kept \<subseteq># mset pending"
    using assms(2) by (rule subset_mset.order_trans [OF mset_subset_eq_add_right])
  have n: "set new \<subseteq> set pending" and ks: "set kept \<subseteq> set pending"
    using set_mset_mono [OF assms(2)] by auto
  have "length kept \<le> length pending" using size_mset_mono [OF k] by simp
  moreover have "distinct (map read_key kept)"
    using distinct_submultiset [of "map read_key kept" "map read_key pending"] image_mset_subseteq_mono [OF k, of read_key] assms(1)
    by (simp add: viewed_reads_ok_def)
  moreover have "image_mset read_key (mset (sent @ new) + mset kept) \<subseteq># image_mset read_key (mset sent + mset pending)"
    using assms(2) by (intro image_mset_subseteq_mono) (simp add: add.assoc)
  then have "image_mset read_key (mset (sent @ new) + mset kept) \<subseteq># image_mset read_key (mset arrived)"
    using assms(1) unfolding viewed_reads_ok_def by (blast intro: subset_mset.order_trans)
  ultimately show ?thesis
    using assms(1,3) n ks unfolding viewed_reads_ok_def by (auto simp: list_all_iff)
qed

lemma viewed_reads_ok_plugin_flush:
  assumes "viewed_reads_ok (pc_pending_reads pc) sent arrived viewed" "signal_flush_pending_reads rank pc = (new, pc1)"
  shows "viewed_reads_ok (pc_pending_reads pc1) (sent @ new) arrived viewed"
  using viewed_reads_ok_flush [OF assms(1) flush_parts [OF assms(2)]] .

lemma viewed_reads_ok_more:
  assumes "viewed_reads_ok pending sent arrived viewed" "set viewed \<subseteq> set viewed1"
  shows "viewed_reads_ok pending sent (arrived @ later) viewed1"
  using assms by (auto simp: viewed_reads_ok_def list_all_iff subset_mset.add_increasing2)

lemma viewed_reads_ok_seen:
  "viewed_reads_ok pending sent arrived viewed \<Longrightarrow> viewed_reads_ok pending sent arrived (viewed @ more_viewed)"
  using viewed_reads_ok_more [of pending sent arrived viewed "viewed @ more_viewed" "[]"] by simp

lemma viewed_reads_ok_keys:
  assumes ok: "viewed_reads_ok pending sent arrived viewed" and keys: "map read_key pending1 = map read_key pending"
    and viewed: "list_all (\<lambda>r. read_conversation r \<in> set viewed) (filter rd_eligible pending1)"
  shows "viewed_reads_ok pending1 sent arrived viewed"
proof -
  have "length pending1 = length pending" by (rule map_eq_imp_length_eq [OF keys])
  moreover have "image_mset read_key (mset pending1) = image_mset read_key (mset pending)"
    by (simp only: mset_map [symmetric] keys)
  ultimately show ?thesis using ok viewed unfolding viewed_reads_ok_def image_mset_union keys by simp
qed

lemma viewed_reads_ok_mark:
  assumes ok: "viewed_reads_ok (pc_pending_reads pc) sent arrived viewed"
    and viewed: "\<And>r. signal_pending_read_matches peer gk r \<Longrightarrow> read_conversation r \<in> set viewed"
  shows "viewed_reads_ok (pc_pending_reads (signal_mark_pending_reads_eligible peer gk pc)) sent arrived viewed"
proof -
  have key: "read_key (r\<lparr>rd_eligible := True\<rparr>) = read_key r" "read_conversation (r\<lparr>rd_eligible := True\<rparr>) = read_conversation r" for r
    by (simp_all add: read_key_def read_conversation_def split: option.split)
  let ?mark = "\<lambda>r. if signal_pending_read_matches peer gk r then r\<lparr>rd_eligible := True\<rparr> else r"
  have keys: "map read_key (map ?mark rs) = map read_key rs" for rs by (simp add: key if_distrib cong: if_cong)
  have "read_conversation (?mark r) \<in> set viewed" if "r \<in> set (pc_pending_reads pc)" "rd_eligible (?mark r)" for r
    using that ok viewed [of r] by (cases "signal_pending_read_matches peer gk r") (auto simp: key viewed_reads_ok_def list_all_iff)
  then have "list_all (\<lambda>r. read_conversation r \<in> set viewed) (filter rd_eligible (map ?mark (pc_pending_reads pc)))"
    unfolding list_all_iff set_filter set_map by blast
  then show ?thesis
    unfolding signal_mark_pending_reads_eligible_def using viewed_reads_ok_keys [OF ok keys] by simp
qed

lemma viewed_reads_ok_add:
  assumes "viewed_reads_ok pending sent arrived viewed" "\<not> list_ex (signal_pending_read_equal r) pending"
    "length pending < SIGNAL_MAX_PENDING_READS" "rd_eligible r \<Longrightarrow> read_conversation r \<in> set viewed"
  shows "viewed_reads_ok (pending @ [r]) sent (arrived @ [r]) viewed"
  using assms
  by (auto simp: viewed_reads_ok_def list_all_iff list_ex_iff signal_pending_read_equal_def read_key_def)

lemma mark_present:
  "list_ex (signal_pending_read_equal r) (pc_pending_reads (signal_mark_pending_reads_eligible peer gk pc)) \<longleftrightarrow>
   list_ex (signal_pending_read_equal r) (pc_pending_reads pc)"
proof -
  let ?mark = "\<lambda>r. if signal_pending_read_matches peer gk r then r\<lparr>rd_eligible := True\<rparr> else r"
  have "list_ex (signal_pending_read_equal r) (map ?mark rs) \<longleftrightarrow> list_ex (signal_pending_read_equal r) rs" for rs
    by (induction rs) (simp_all add: signal_pending_read_equal_def)
  then show ?thesis by (simp add: signal_mark_pending_reads_eligible_def)
qed

lemma flush_absent:
  assumes "signal_flush_pending_reads rank pc = (new, pc1)" "\<not> list_ex P (pc_pending_reads pc)"
  shows "\<not> list_ex P (pc_pending_reads pc1)"
  using set_mset_mono [OF flush_parts(1) [OF assms(1)]] assms(2) by (auto simp: list_ex_iff)

lemma add_pending_read_ok:
  assumes ok: "viewed_reads_ok (pc_pending_reads pc) sent arrived viewed"
    and absent: "\<not> list_ex (signal_pending_read_equal r) (pc_pending_reads pc)"
    and focus: "rd_eligible r \<Longrightarrow> read_conversation r \<in> set viewed" and run: "add_pending_read rank r pc = (new, pc1)"
  shows "viewed_reads_ok (pc_pending_reads pc1) (sent @ new) (arrived @ [r]) viewed"
proof -
  define full where "full = (if SIGNAL_MAX_PENDING_READS \<le> length (pc_pending_reads pc) then signal_flush_pending_reads rank pc else ([], pc))"
  obtain new0 pc2 where full: "full = (new0, pc2)" by (cases full)
  have mid: "viewed_reads_ok (pc_pending_reads pc2) (sent @ new0) arrived viewed"
    using full ok viewed_reads_ok_plugin_flush [OF ok, of rank] by (auto simp: full_def split: if_splits)
  have gone: "\<not> list_ex (signal_pending_read_equal r) (pc_pending_reads pc2)"
    using full absent flush_absent [of rank pc] by (auto simp: full_def split: if_splits)
  let ?pc3 = "pc2\<lparr>pc_pending_reads := pc_pending_reads pc2 @ [r]\<rparr>"
  note run1 = run [unfolded add_pending_read_def full_def [symmetric] full prod.case Let_def]
  show ?thesis
  proof (cases "SIGNAL_MAX_PENDING_READS \<le> length (pc_pending_reads pc2)")
    case True
    then show ?thesis using run1 viewed_reads_ok_more [OF mid, of viewed "[r]"] by auto
  next
    case False
    then have add: "viewed_reads_ok (pc_pending_reads ?pc3) (sent @ new0) (arrived @ [r]) viewed"
      using viewed_reads_ok_add [OF mid gone _ focus] by simp
    show ?thesis
    proof (cases "rd_eligible r")
      case eligible: True
      obtain sent1 pc4 where "signal_flush_pending_reads rank ?pc3 = (sent1, pc4)" by (cases "signal_flush_pending_reads rank ?pc3")
      then show ?thesis using run1 False eligible viewed_reads_ok_plugin_flush [OF add, of rank sent1 pc4] by auto
    qed (use run1 False add in auto)
  qed
qed

lemma queue_read_ok:
  assumes ok: "viewed_reads_ok (pc_pending_reads pc) sent arrived viewed"
    and focus: "focused \<Longrightarrow> read_conversation (event_read focused e) \<in> set viewed"
    and run: "signal_queue_read rank focused e pc = (new, pc1)"
  shows "viewed_reads_ok (pc_pending_reads pc1) (sent @ new) (arrived @ [event_read focused e]) viewed"
proof (cases "event_outgoing e \<or> ev_peer_id e = None \<or> ev_timestamp_ms e = 0")
  case True
  then show ?thesis using run viewed_reads_ok_more [OF ok order_refl] by (auto simp: signal_queue_read_def)
next
  case False
  let ?r = "event_read focused e"
  let ?mark = "signal_mark_pending_reads_eligible (if ev_chat_id e = None then ev_peer_id e else None) (ev_chat_id e) pc"
  define pc0 where "pc0 = (if focused then ?mark else pc)"
  have old: "viewed_reads_ok (pc_pending_reads pc0) sent arrived viewed"
  proof (cases focused)
    case True
    have "viewed_reads_ok (pc_pending_reads ?mark) sent arrived viewed"
      by (rule viewed_reads_ok_mark [OF ok])
         (use False focus [OF True] in \<open>auto simp: signal_pending_read_matches_def read_conversation_def event_read_def split: if_splits option.splits\<close>)
    then show ?thesis using True by (simp add: pc0_def)
  qed (use ok in \<open>simp add: pc0_def\<close>)
  note later = viewed_reads_ok_more [OF old order_refl, of "[?r]"]
  have run1: "(if list_ex (signal_pending_read_equal ?r) (pc_pending_reads pc)
      then (if focused then signal_flush_pending_reads rank pc0 else ([], pc0)) else add_pending_read rank ?r pc0) = (new, pc1)"
    using run False unfolding signal_queue_read_def Let_def pc0_def [symmetric] by (simp only: if_False)
  show ?thesis
  proof (cases "list_ex (signal_pending_read_equal ?r) (pc_pending_reads pc)")
    case True
    then show ?thesis
      using run1 later viewed_reads_ok_plugin_flush [OF later, of rank new pc1] by (cases focused) auto
  next
    case absent: False
    then have "\<not> list_ex (signal_pending_read_equal ?r) (pc_pending_reads pc0)" by (cases focused) (simp_all add: pc0_def mark_present)
    from add_pending_read_ok [OF old this] show ?thesis
      using run1 absent focus by (simp add: event_read_def)
  qed
qed

lemma remove_group_reads_ok:
  assumes "viewed_reads_ok (pc_pending_reads pc) sent arrived viewed"
  shows "viewed_reads_ok (pc_pending_reads (signal_remove_group_pending_reads gk pc)) sent arrived viewed"
  using viewed_reads_ok_flush [OF assms, of "[]"] by (simp add: signal_remove_group_pending_reads_def multiset_filter_subset)

lemma read_exec_inv:
  assumes "reads_inv s"
  shows "reads_inv (read_exec x s)"
proof -
  note ok = assms [unfolded reads_inv_ok]
  show ?thesis
  proof (cases x)
    case (R_Message rank focused e)
    let ?viewed = "if focused then rs_viewed s @ [read_conversation (event_read focused e)] else rs_viewed s"
    have ok1: "viewed_reads_ok (pc_pending_reads (rs_plugin s)) (rs_sent s) (rs_arrived s) ?viewed"
      using viewed_reads_ok_seen [OF ok] ok by simp
    obtain new pc1 where q: "signal_queue_read rank focused e (rs_plugin s) = (new, pc1)"
      by (cases "signal_queue_read rank focused e (rs_plugin s)")
    show ?thesis using queue_read_ok [OF ok1 _ q] R_Message by (simp add: reads_inv_ok read_result_def q)
  next
    case (R_View rank conversation has_left)
    have ok1: "viewed_reads_ok (pc_pending_reads (rs_plugin s)) (rs_sent s) (rs_arrived s) (rs_viewed s @ [conversation])"
      by (rule viewed_reads_ok_seen [OF ok])
    define pc0 where "pc0 = (case conversation of
        Direct peer \<Rightarrow> signal_mark_pending_reads_eligible (Some peer) None (rs_plugin s)
      | Chat gk \<Rightarrow> signal_mark_pending_reads_eligible None
          (if \<not> has_left \<and> pc_group_ids_by_key (rs_plugin s) gk \<noteq> None then Some gk else None) (rs_plugin s))"
    have "\<exists>peer gk. pc0 = signal_mark_pending_reads_eligible peer gk (rs_plugin s) \<and>
        (\<forall>r. signal_pending_read_matches peer gk r \<longrightarrow> read_conversation r = conversation)"
      unfolding pc0_def
      by (cases conversation; simp only: conversation.case; rule exI; rule exI; rule conjI, rule refl)
         (auto simp: signal_pending_read_matches_def read_conversation_def split: if_splits option.splits)
    then have "viewed_reads_ok (pc_pending_reads pc0) (rs_sent s) (rs_arrived s) (rs_viewed s @ [conversation])"
      using viewed_reads_ok_mark [OF ok1] by force
    then show ?thesis
      using ok1 viewed_reads_ok_plugin_flush [of pc0] R_View
      by (cases "signal_flush_pending_reads rank pc0")
         (auto simp: reads_inv_ok read_result_def signal_conversation_updated_def pc0_def [symmetric])
  next
    case (R_Retry rank)
    then show ?thesis
      using ok viewed_reads_ok_plugin_flush [of "rs_plugin s\<lparr>pc_pending_read_retry := False\<rparr>" "rs_sent s"]
      by (cases "signal_flush_pending_reads rank (rs_plugin s\<lparr>pc_pending_read_retry := False\<rparr>)")
         (auto simp: reads_inv_ok read_result_def signal_retry_pending_reads_def Let_def)
  next
    case (R_Ready rank)
    then show ?thesis
      using viewed_reads_ok_plugin_flush [OF ok, of rank]
      by (cases "signal_flush_pending_reads rank (rs_plugin s)") (auto simp: reads_inv_ok read_result_def)
  qed (use ok remove_group_reads_ok [OF ok] in \<open>simp_all add: reads_inv_ok\<close>)
qed

interpretation plugin_reads: op_system read_exec reads_inv
  by unfold_locales (rule read_exec_inv)

text \<open>
  C18. Read receipts follow the reader: whatever arrives, is viewed, retried or left in whatever order, and whatever the core answers, at most
  4096 receipts wait, no message waits twice, every message that arrived gets at most one receipt, and a
  receipt is only sent for a message of a conversation that had the focus.
\<close>

theorem read_receipts_follow_reader:
  "let s = fold read_exec ops \<lparr>rs_plugin = signal_connection_new core, rs_sent = [], rs_arrived = [], rs_viewed = []\<rparr>;
       pending = pc_pending_reads (rs_plugin s)
   in length pending \<le> 4096 \<and> distinct (map read_key pending) \<and>
      mset (map read_key (rs_sent s @ pending)) \<subseteq># mset (map read_key (rs_arrived s)) \<and>
      list_all (\<lambda>r. read_conversation r \<in> set (rs_viewed s)) (rs_sent s)"
proof -
  have "reads_inv (fold read_exec ops \<lparr>rs_plugin = signal_connection_new core, rs_sent = [], rs_arrived = [], rs_viewed = []\<rparr>)"
    by (rule plugin_reads.run_inv_all) (simp add: reads_inv_def signal_connection_new_def)
  then show ?thesis by (simp add: Let_def reads_inv_def SIGNAL_MAX_PENDING_READS_def)
qed

end
