(* ===== verification/Plugin_Transfers.thy ===== *)
theory Plugin_Transfers
  imports Plugin_State "HOL-Library.AList"
begin

section \<open>Outgoing attachments of the plugin (src/connection\_transfers.c, src/attachment\_file.c)\<close>

text \<open>
  The file of an attachment is inspected, the transfer is started in libpurple and handed to the core under a new request id; the
  event of the core or the user ends it. The answers of the operating system and of GLib are arguments. That libpurple calls the
  function set for the end of a transfer when the plugin ends it, and the function set for its cancellation when either side
  cancels it, is written out as the call.
\<close>

subsection \<open>The file (attachment\_file.c)\<close>

datatype file_error =
    File_Invalid_Argument | File_Failed string | File_Not_Regular | File_Too_Large | File_Empty

datatype file_read = File_Data bytes | File_Interrupted | File_Read_Error

text \<open>What the operating system answers: whether the file opens, its status (regular, size), and the reads in turn.\<close>

record file_answers =
  fa_opens :: bool
  fa_status :: "(bool \<times> int) option"
  fa_reads :: "file_read list"

definition SIGNAL_ATTACHMENT_READ_CHUNK :: usize where
  "SIGNAL_ATTACHMENT_READ_CHUNK = 64 * 1024"

definition G_MAXUINT :: nat where
  "G_MAXUINT = 2 ^ 32 - 1"

text \<open>The loop of reads; a read gives at most what is requested, and \<open>None\<close> while the loop has not returned.\<close>

fun read_bounded :: "usize \<Rightarrow> file_read list \<Rightarrow> bytes \<Rightarrow> (file_error + bytes) option" where
  "read_bounded maximum [] contents = None"
| "read_bounded maximum (File_Interrupted # rs) contents = read_bounded maximum rs contents"
| "read_bounded maximum (File_Read_Error # rs) contents = Some (Inl (File_Failed ''read''))"
| "read_bounded maximum (File_Data d # rs) contents =
     (let remaining = maximum - length contents;
          requested = (if remaining < SIGNAL_ATTACHMENT_READ_CHUNK then remaining + 1 else SIGNAL_ATTACHMENT_READ_CHUNK);
          buffer = take requested d
      in if buffer = [] then Some (if contents = [] then Inl File_Empty else Inr contents)
         else if remaining < length buffer then Some (Inl File_Too_Large)
         else read_bounded maximum rs (contents @ buffer))"

definition file_parameters_ok :: "string option \<Rightarrow> usize \<Rightarrow> bool" where
  "file_parameters_ok path maximum \<longleftrightarrow> nonempty path \<and> maximum \<noteq> 0 \<and> maximum \<le> G_MAXUINT"

definition signal_read_bounded_file :: "file_answers \<Rightarrow> string option \<Rightarrow> usize \<Rightarrow> (file_error + bytes) option" where
  "signal_read_bounded_file fa path maximum =
     (if \<not> file_parameters_ok path maximum then Some (Inl File_Invalid_Argument)
      else if \<not> fa_opens fa then Some (Inl (File_Failed ''open''))
      else
        case fa_status fa of
          None \<Rightarrow> Some (Inl (File_Failed ''inspect''))
        | Some (regular, st_size) \<Rightarrow>
            if \<not> regular then Some (Inl File_Not_Regular)
            else if st_size < 0 \<or> int maximum < st_size then Some (Inl File_Too_Large)
            else read_bounded maximum (fa_reads fa) [])"

text \<open>The first read that is not interrupted; a failed one gives no header.\<close>

fun read_header :: "file_read list \<Rightarrow> bytes option" where
  "read_header [] = None"
| "read_header (File_Interrupted # rs) = read_header rs"
| "read_header (File_Read_Error # rs) = Some []"
| "read_header (File_Data d # rs) = Some (take 512 d)"

text \<open>\<open>guess\<close> is the type GLib guesses from a name and a header, and \<open>basename\<close> its name of a path.\<close>

definition attachment_mime_type :: "(string \<Rightarrow> bytes option \<Rightarrow> string option) \<Rightarrow> string \<Rightarrow> bytes \<Rightarrow> string" where
  "attachment_mime_type guess name header =
     (case guess name (if header = [] then None else Some header) of
        Some mime \<Rightarrow> mime
      | None \<Rightarrow> ''application/octet-stream'')"

definition signal_inspect_attachment_file ::
  "(string \<Rightarrow> string) \<Rightarrow> (string \<Rightarrow> bytes option \<Rightarrow> string option) \<Rightarrow> file_answers \<Rightarrow> string option \<Rightarrow> usize \<Rightarrow>
     (file_error + usize \<times> string) option" where
  "signal_inspect_attachment_file basename guess fa path maximum =
     (if \<not> file_parameters_ok path maximum then Some (Inl File_Invalid_Argument)
      else if \<not> fa_opens fa then Some (Inl (File_Failed ''open''))
      else
        case fa_status fa of
          None \<Rightarrow> Some (Inl (File_Failed ''inspect''))
        | Some (regular, st_size) \<Rightarrow>
            if \<not> regular then Some (Inl File_Not_Regular)
            else if st_size \<le> 0 then Some (Inl File_Empty)
            else if int maximum < st_size then Some (Inl File_Too_Large)
            else
              map_option (\<lambda>header. Inr (nat st_size, attachment_mime_type guess (basename (the path)) header))
                (read_header (fa_reads fa)))"

subsection \<open>Transfers\<close>

definition signal_new_attachment_xfer :: "nat option \<Rightarrow> string option \<Rightarrow> string option \<Rightarrow> bool \<Rightarrow> plugin \<Rightarrow> nat option \<times> plugin" where
  "signal_new_attachment_xfer xfer display_peer recipient to_group pc =
     (if pc_closing pc \<or> display_peer = None \<or> recipient = None then (None, pc)
      else
        case xfer of
          None \<Rightarrow> (None, pc)
        | Some x \<Rightarrow>
            (Some x, pc\<lparr>pc_outgoing_attachment_contexts := (pc_outgoing_attachment_contexts pc)
               (x \<mapsto> \<lparr>og_recipient = the recipient, og_request_id = 0, og_group = to_group\<rparr>)\<rparr>))"

definition signal_outgoing_attachment_free :: "nat \<Rightarrow> plugin \<Rightarrow> plugin" where
  "signal_outgoing_attachment_free x pc =
     (case pc_outgoing_attachment_contexts pc x of
        None \<Rightarrow> pc
      | Some a \<Rightarrow>
          let pc1 = pc\<lparr>pc_outgoing_attachment_contexts := (pc_outgoing_attachment_contexts pc)(x := None)\<rparr>
          in if og_request_id a \<noteq> 0
             then pc1\<lparr>pc_outgoing_attachments := AList.delete (og_request_id a) (pc_outgoing_attachments pc1)\<rparr> else pc1)"

definition signal_outgoing_attachment_cancel :: "nat \<Rightarrow> plugin \<Rightarrow> plugin" where
  "signal_outgoing_attachment_cancel x pc =
     (case pc_outgoing_attachment_contexts pc x of
        None \<Rightarrow> pc
      | Some a \<Rightarrow>
          signal_outgoing_attachment_free x
            (if \<not> pc_closing pc \<and> og_request_id a \<noteq> 0
             then pc\<lparr>pc_core := snd (signal_core_cancel_attachment (pc_core pc) (og_request_id a))\<rparr> else pc))"

text \<open>What the transfer meets: its file, what GLib makes of it, whether it outlives its start, and the file as the core sees it.\<close>

record xfer_answers =
  xa_filename :: "string option"
  xa_file :: file_answers
  xa_guess :: "string \<Rightarrow> bytes option \<Rightarrow> string option"
  xa_basename :: "string \<Rightarrow> string"
  xa_alive :: bool
  xa_metadata :: file_metadata

definition SIGNAL_CORE_MAX_ATTACHMENT_BYTES :: usize where
  "SIGNAL_CORE_MAX_ATTACHMENT_BYTES = 25 * 1024 * 1024"

text \<open>From the new request id on: the transfer is started and its file handed to the core.\<close>

definition start_attachment :: "xfer_answers \<Rightarrow> nat \<Rightarrow> signal_outgoing_attachment \<Rightarrow> string \<Rightarrow> string \<Rightarrow> plugin \<Rightarrow> plugin" where
  "start_attachment xa x a path mime_type pc =
     (let i = pc_next_request_id pc;
          contexts = pc_outgoing_attachment_contexts pc;
          pc1 = pc\<lparr>pc_next_request_id := i + 1, pc_outgoing_attachment_contexts := contexts(x \<mapsto> a\<lparr>og_request_id := i\<rparr>)\<rparr>
      in if \<not> xa_alive xa then signal_outgoing_attachment_cancel x pc1
         else
           case (if og_group a
                 then signal_core_send_group_file_attachment (xa_metadata xa) (pc_core pc1) i (Some (og_recipient a))
                        (Some (xa_basename xa path)) (Some mime_type) (Some path)
                 else signal_core_send_file_attachment (xa_metadata xa) (pc_core pc1) i (Some (og_recipient a))
                        (Some (xa_basename xa path)) (Some mime_type) (Some path)) of
             (status, core) \<Rightarrow>
               if status \<noteq> Status_Ok
               then signal_outgoing_attachment_cancel x
                      (pc1\<lparr>pc_core := core, pc_outgoing_attachment_contexts := contexts(x \<mapsto> a\<lparr>og_request_id := 0\<rparr>)\<rparr>)
               else pc1\<lparr>pc_core := core, pc_outgoing_attachments := AList.update i x (pc_outgoing_attachments pc1)\<rparr>)"

text \<open>\<open>None\<close> while the reads of the file have not returned.\<close>

definition signal_outgoing_attachment_init :: "xfer_answers \<Rightarrow> nat \<Rightarrow> plugin \<Rightarrow> plugin option" where
  "signal_outgoing_attachment_init xa x pc =
     (case pc_outgoing_attachment_contexts pc x of
        None \<Rightarrow> Some (signal_outgoing_attachment_cancel x pc)
      | Some a \<Rightarrow>
          if pc_closing pc then Some (signal_outgoing_attachment_cancel x pc)
          else if og_group a \<and> \<not> signal_group_can_send pc (Some (og_recipient a))
          then Some (signal_outgoing_attachment_cancel x pc)
          else
            case signal_inspect_attachment_file (xa_basename xa) (xa_guess xa) (xa_file xa) (xa_filename xa)
                   SIGNAL_CORE_MAX_ATTACHMENT_BYTES of
              None \<Rightarrow> None
            | Some (Inl error) \<Rightarrow> Some (signal_outgoing_attachment_cancel x pc)
            | Some (Inr (file_size, mime_type)) \<Rightarrow> Some (start_attachment xa x a (the (xa_filename xa)) mime_type pc))"

definition transfer_of :: "event \<Rightarrow> plugin \<Rightarrow> nat option" where
  "transfer_of e pc = (if ev_request_id e \<noteq> 0 then map_of (pc_outgoing_attachments pc) (ev_request_id e) else None)"

definition signal_outgoing_attachment_complete :: "event \<Rightarrow> plugin \<Rightarrow> bool \<times> plugin" where
  "signal_outgoing_attachment_complete e pc =
     (case transfer_of e pc of None \<Rightarrow> (False, pc) | Some x \<Rightarrow> (True, signal_outgoing_attachment_free x pc))"

definition signal_outgoing_attachment_failed :: "event \<Rightarrow> plugin \<Rightarrow> bool \<times> plugin" where
  "signal_outgoing_attachment_failed e pc =
     (case transfer_of e pc of None \<Rightarrow> (False, pc) | Some x \<Rightarrow> (True, signal_outgoing_attachment_cancel x pc))"

text \<open>The end of the connection: the transfers libpurple still runs (\<open>running\<close>) are cancelled, the contexts left are detached, and the core is shut down.\<close>

definition close_transfers :: "(nat \<Rightarrow> bool) \<Rightarrow> plugin \<Rightarrow> plugin" where
  "close_transfers running pc =
     (fold signal_outgoing_attachment_cancel (filter running (map snd (pc_outgoing_attachments pc))) pc)
       \<lparr>pc_outgoing_attachment_contexts := Map.empty, pc_outgoing_attachments := []\<rparr>"

definition signal_close :: "(signal_core \<Rightarrow> signal_core) \<Rightarrow> (nat \<Rightarrow> bool) \<Rightarrow> plugin \<Rightarrow> plugin" where
  "signal_close finish running pc =
     (let pc1 = close_transfers running (pc\<lparr>pc_closing := True\<rparr>)
      in pc1\<lparr>pc_pending_read_retry := False, pc_group_sync_fallback := False, pc_core := signal_core_shutdown finish (pc_core pc1)\<rparr>)"

section \<open>A transfer the core can still answer is alive\<close>

text \<open>
  The transfers over time. The address of a new transfer is not in use, and libpurple initialises a transfer once; it may cancel
  or end one at any time, and the core changes on its own.
\<close>

datatype transfer_op =
    T_New nat "string option" "string option" bool
  | T_Init xfer_answers nat
  | T_Cancel nat
  | T_End nat
  | T_Sent event
  | T_Failed event
  | T_Core "signal_core ptr"
  | T_Close "signal_core \<Rightarrow> signal_core" "nat \<Rightarrow> bool"

definition uninitialised :: "nat \<Rightarrow> plugin \<Rightarrow> bool" where
  "uninitialised x pc \<longleftrightarrow> (case pc_outgoing_attachment_contexts pc x of None \<Rightarrow> True | Some a \<Rightarrow> og_request_id a = 0)"

primrec transfer_exec :: "transfer_op \<Rightarrow> plugin \<Rightarrow> plugin" where
  "transfer_exec (T_New x display_peer recipient to_group) pc =
     (if pc_outgoing_attachment_contexts pc x = None then snd (signal_new_attachment_xfer (Some x) display_peer recipient to_group pc)
      else pc)"
| "transfer_exec (T_Init xa x) pc =
     (if uninitialised x pc then (case signal_outgoing_attachment_init xa x pc of None \<Rightarrow> pc | Some pc1 \<Rightarrow> pc1) else pc)"
| "transfer_exec (T_Cancel x) pc = signal_outgoing_attachment_cancel x pc"
| "transfer_exec (T_End x) pc = signal_outgoing_attachment_free x pc"
| "transfer_exec (T_Sent e) pc = snd (signal_outgoing_attachment_complete e pc)"
| "transfer_exec (T_Failed e) pc = snd (signal_outgoing_attachment_failed e pc)"
| "transfer_exec (T_Core core) pc = pc\<lparr>pc_core := core\<rparr>"
| "transfer_exec (T_Close finish running) pc = signal_close finish running pc"

definition transfers_inv :: "plugin \<Rightarrow> bool" where
  "transfers_inv pc \<longleftrightarrow>
     distinct (map fst (pc_outgoing_attachments pc)) \<and>
     list_all (\<lambda>(i, x). case pc_outgoing_attachment_contexts pc x of None \<Rightarrow> False | Some a \<Rightarrow> og_request_id a = i \<and> i \<noteq> 0)
       (pc_outgoing_attachments pc)"

lemma transfers_inv_entry:
  "transfers_inv pc \<Longrightarrow> (i, x) \<in> set (pc_outgoing_attachments pc) \<Longrightarrow>
     \<exists>a. pc_outgoing_attachment_contexts pc x = Some a \<and> og_request_id a = i \<and> i \<noteq> 0"
  by (fastforce simp: transfers_inv_def list_all_iff split: option.splits)

lemma transfers_invI:
  assumes "distinct (map fst (pc_outgoing_attachments pc))"
    "\<And>i x. (i, x) \<in> set (pc_outgoing_attachments pc) \<Longrightarrow>
       \<exists>a. pc_outgoing_attachment_contexts pc x = Some a \<and> og_request_id a = i \<and> i \<noteq> 0"
  shows "transfers_inv pc"
  using assms(1) by (auto simp: transfers_inv_def list_all_iff dest!: assms(2))

lemma free_inv:
  assumes "transfers_inv pc"
  shows "transfers_inv (signal_outgoing_attachment_free x pc)"
proof (rule transfers_invI)
  show "distinct (map fst (pc_outgoing_attachments (signal_outgoing_attachment_free x pc)))"
    using assms by (auto simp: signal_outgoing_attachment_free_def transfers_inv_def Let_def distinct_delete split: option.split)
next
  fix i y
  assume e: "(i, y) \<in> set (pc_outgoing_attachments (signal_outgoing_attachment_free x pc))"
  then have old: "(i, y) \<in> set (pc_outgoing_attachments pc)"
    by (auto simp: signal_outgoing_attachment_free_def Let_def AList.delete_eq split: option.splits if_splits)
  obtain a where a: "pc_outgoing_attachment_contexts pc y = Some a" "og_request_id a = i" "i \<noteq> 0"
    using transfers_inv_entry [OF assms old] by blast
  have "y \<noteq> x"
    using e a by (auto simp: signal_outgoing_attachment_free_def Let_def AList.delete_eq split: if_splits)
  then show "\<exists>a. pc_outgoing_attachment_contexts (signal_outgoing_attachment_free x pc) y = Some a \<and> og_request_id a = i \<and> i \<noteq> 0"
    using a by (auto simp: signal_outgoing_attachment_free_def Let_def split: option.split)
qed

lemma transfers_inv_core [simp]:
  "transfers_inv (pc\<lparr>pc_core := core\<rparr>) = transfers_inv pc" "transfers_inv (pc\<lparr>pc_closing := c\<rparr>) = transfers_inv pc"
  by (simp_all add: transfers_inv_def)

lemma cancel_inv: "transfers_inv pc \<Longrightarrow> transfers_inv (signal_outgoing_attachment_cancel x pc)"
  by (simp add: signal_outgoing_attachment_cancel_def free_inv split: option.split)

lemma context_inv:
  assumes "transfers_inv pc" "uninitialised x pc"
  shows "transfers_inv (pc\<lparr>pc_outgoing_attachment_contexts := (pc_outgoing_attachment_contexts pc)(x \<mapsto> a)\<rparr>)"
proof (rule transfers_invI)
  fix i y
  assume "(i, y) \<in> set (pc_outgoing_attachments (pc\<lparr>pc_outgoing_attachment_contexts := (pc_outgoing_attachment_contexts pc)(x \<mapsto> a)\<rparr>))"
  then obtain b where "pc_outgoing_attachment_contexts pc y = Some b" "og_request_id b = i" "i \<noteq> 0"
    using transfers_inv_entry [OF assms(1)] by auto
  then show "\<exists>b. pc_outgoing_attachment_contexts (pc\<lparr>pc_outgoing_attachment_contexts := (pc_outgoing_attachment_contexts pc)(x \<mapsto> a)\<rparr>) y = Some b \<and>
      og_request_id b = i \<and> i \<noteq> 0"
    using assms(2) by (auto simp: uninitialised_def)
qed (use assms(1) in \<open>simp add: transfers_inv_def\<close>)

text \<open>The core takes no attachment under the request id zero.\<close>

lemma admitted_nonzero: "admit_attachment i n command c = (Status_Ok, c1) \<Longrightarrow> i \<noteq> 0"
  by (auto simp: admit_attachment_def try_reserve_def Let_def split: if_splits sum.splits prod.splits)

lemma required_string_refuses: "required_string v n \<noteq> Inl Status_Ok"
  by (simp add: required_string_def Let_def split: option.split)

lemma file_sent_nonzero: "send_file_attachment md core i r f t path to_group = (Status_Ok, core1) \<Longrightarrow> i \<noteq> 0"
  by (cases core)
     (auto simp: send_file_attachment_def with_core_def status_try_def apsnd_def map_prod_def
       required_string_refuses split: if_splits sum.splits option.splits prod.splits dest: admitted_nonzero)

lemma start_inv:
  assumes "transfers_inv pc" "uninitialised x pc"
  shows "transfers_inv (start_attachment xa x a path mime pc)"
proof -
  let ?i = "pc_next_request_id pc"
  let ?ctx = "\<lambda>b. (pc_outgoing_attachment_contexts pc)(x \<mapsto> b)"
  have with_context: "transfers_inv (pc\<lparr>pc_next_request_id := ?i + 1, pc_outgoing_attachment_contexts := ?ctx b\<rparr>)" for b
    using context_inv [OF assms] by (simp add: transfers_inv_def)
  obtain status core where sent: "send_file_attachment (xa_metadata xa) (pc_core pc) ?i (Some (og_recipient a))
      (Some (xa_basename xa path)) (Some mime) (Some path) (og_group a) = (status, core)"
    by (cases "send_file_attachment (xa_metadata xa) (pc_core pc) ?i (Some (og_recipient a))
      (Some (xa_basename xa path)) (Some mime) (Some path) (og_group a)")
  let ?pc1 = "pc\<lparr>pc_next_request_id := ?i + 1, pc_outgoing_attachment_contexts := ?ctx (a\<lparr>og_request_id := ?i\<rparr>)\<rparr>"
  have entered: "transfers_inv (?pc1\<lparr>pc_core := core, pc_outgoing_attachments := AList.update ?i x (pc_outgoing_attachments pc)\<rparr>)"
    if "status = Status_Ok"
  proof (rule transfers_invI)
    show "distinct (map fst (pc_outgoing_attachments (?pc1\<lparr>pc_core := core,
        pc_outgoing_attachments := AList.update ?i x (pc_outgoing_attachments pc)\<rparr>)))"
      using assms(1) by (simp add: transfers_inv_def distinct_update)
  next
    fix i y
    assume "(i, y) \<in> set (pc_outgoing_attachments (?pc1\<lparr>pc_core := core,
        pc_outgoing_attachments := AList.update ?i x (pc_outgoing_attachments pc)\<rparr>))"
    then have "map_of (AList.update ?i x (pc_outgoing_attachments pc)) i = Some y"
      using assms(1) by (simp add: transfers_inv_def distinct_update map_of_eq_Some_iff)
    then consider "i = ?i" "y = x" | "(i, y) \<in> set (pc_outgoing_attachments pc)"
      by (auto simp: update_conv' split: if_splits dest: map_of_SomeD)
    then show "\<exists>b. pc_outgoing_attachment_contexts (?pc1\<lparr>pc_core := core,
        pc_outgoing_attachments := AList.update ?i x (pc_outgoing_attachments pc)\<rparr>) y = Some b \<and> og_request_id b = i \<and> i \<noteq> 0"
    proof cases
      case 1
      then show ?thesis using file_sent_nonzero sent that by auto
    next
      case 2
      then show ?thesis using transfers_inv_entry [OF assms(1) 2] assms(2) by (auto simp: uninitialised_def)
    qed
  qed
  have call: "(if og_group a
      then signal_core_send_group_file_attachment (xa_metadata xa) (pc_core ?pc1) ?i (Some (og_recipient a))
        (Some (xa_basename xa path)) (Some mime) (Some path)
      else signal_core_send_file_attachment (xa_metadata xa) (pc_core ?pc1) ?i (Some (og_recipient a))
        (Some (xa_basename xa path)) (Some mime) (Some path)) = (status, core)"
    using sent by (cases "og_group a") (simp_all add: signal_core_send_group_file_attachment_def signal_core_send_file_attachment_def)
  have refused: "transfers_inv (?pc1\<lparr>pc_core := core, pc_outgoing_attachment_contexts := ?ctx (a\<lparr>og_request_id := 0\<rparr>)\<rparr>)"
    using with_context [of "a\<lparr>og_request_id := 0\<rparr>"] by (simp add: transfers_inv_def)
  show ?thesis
    using cancel_inv [OF with_context] cancel_inv [OF refused] entered
    unfolding start_attachment_def Let_def call prod.case by simp
qed

lemma init_inv:
  assumes "transfers_inv pc" "uninitialised x pc" "signal_outgoing_attachment_init xa x pc = Some pc1"
  shows "transfers_inv pc1"
  using assms cancel_inv [OF assms(1)] start_inv [OF assms(1,2)]
  by (auto simp: signal_outgoing_attachment_init_def split: option.splits if_splits sum.splits)

lemma transfer_exec_inv: "transfers_inv pc \<Longrightarrow> transfers_inv (transfer_exec op pc)"
proof (cases op)
  case (T_New x display_peer recipient to_group)
  assume "transfers_inv pc"
  then show ?thesis
    using context_inv [of pc x] T_New by (auto simp: signal_new_attachment_xfer_def uninitialised_def)
next
  case (T_Init xa x)
  assume inv: "transfers_inv pc"
  show ?thesis using inv init_inv [OF inv] T_Init by (auto split: option.split)
next
  case (T_Close finish running)
  then show ?thesis by (simp add: signal_close_def close_transfers_def transfers_inv_def Let_def)
qed (simp_all add: cancel_inv free_inv signal_outgoing_attachment_complete_def signal_outgoing_attachment_failed_def split: option.split)

interpretation plugin_transfers: op_system transfer_exec transfers_inv
  by unfold_locales (rule transfer_exec_inv)

lemma complete_frees:
  assumes "transfers_inv pc"
  shows "case signal_outgoing_attachment_complete e pc of (known, pc1) \<Rightarrow>
    known = (ev_request_id e \<in> fst ` set (pc_outgoing_attachments pc)) \<and>
    pc_outgoing_attachments pc1 = AList.delete (ev_request_id e) (pc_outgoing_attachments pc) \<and>
    (if known then \<exists>x. (ev_request_id e, x) \<in> set (pc_outgoing_attachments pc) \<and>
       pc_outgoing_attachment_contexts pc1 = (pc_outgoing_attachment_contexts pc)(x := None) else pc1 = pc)"
proof (cases "ev_request_id e \<in> fst ` set (pc_outgoing_attachments pc)")
  case True
  then obtain x where x: "map_of (pc_outgoing_attachments pc) (ev_request_id e) = Some x" by (auto simp: image_iff dest: weak_map_of_SomeI)
  then have mem: "(ev_request_id e, x) \<in> set (pc_outgoing_attachments pc)" by (rule map_of_SomeD)
  obtain a where "pc_outgoing_attachment_contexts pc x = Some a" "og_request_id a = ev_request_id e" "ev_request_id e \<noteq> 0"
    using transfers_inv_entry [OF assms mem] by blast
  then show ?thesis
    using x mem True
    by (auto simp: signal_outgoing_attachment_complete_def transfer_of_def signal_outgoing_attachment_free_def Let_def)
next
  case False
  then have "map_of (pc_outgoing_attachments pc) (ev_request_id e) = None" by (simp add: map_of_eq_None_iff)
  then show ?thesis
    using False by (simp add: signal_outgoing_attachment_complete_def transfer_of_def delete_idem)
qed


section \<open>Reading a file within its bound\<close>

lemma read_bounded_ok:
  assumes "read_bounded maximum rs contents = Some (Inr data)" "length contents \<le> maximum"
  shows "data \<noteq> [] \<and> length data \<le> maximum"
  using assms
proof (induction maximum rs contents rule: read_bounded.induct)
  case (4 maximum d rs contents)
  then show ?case by (auto simp: Let_def split: if_splits)
qed auto

text \<open>A file that fits is read as a whole, in whatever pieces it comes.\<close>

lemma read_bounded_whole:
  assumes "list_all (\<lambda>d. d \<noteq> [] \<and> length d \<le> SIGNAL_ATTACHMENT_READ_CHUNK) ds"
    "length contents + length (concat ds) \<le> maximum" "contents @ concat ds \<noteq> []"
  shows "read_bounded maximum (map File_Data ds @ File_Data [] # rs) contents = Some (Inr (contents @ concat ds))"
  using assms
proof (induction ds arbitrary: contents)
  case (Cons d ds)
  let ?remaining = "maximum - length contents"
  let ?requested = "if ?remaining < SIGNAL_ATTACHMENT_READ_CHUNK then ?remaining + 1 else SIGNAL_ATTACHMENT_READ_CHUNK"
  have "take ?requested d = d" "length d \<le> ?remaining" using Cons.prems by auto
  then show ?case using Cons.IH [of "contents @ d"] Cons.prems by (simp add: Let_def SIGNAL_ATTACHMENT_READ_CHUNK_def)
qed simp

end
