(* ===== verification/Plugin_Events.thy ===== *)
theory Plugin_Events
  imports Plugin_Transfers Snapshots
begin

section \<open>The plugin handles events (src/connection.c, src/connection\_transfers.c)\<close>

text \<open>
  The dispatch of the events the plugin polls from the core, with the acknowledgment of messages. The results join the two
  sides: the snapshot of groups the core emits leaves exactly these groups active in the plugin, and a polled message is acknowledged
  to the core, also when the plugin has rejected it.
\<close>

text \<open>The kinds of events by the numbers of \<^verbatim>\<open>include/signal_core.h\<close>.\<close>

datatype signal_event_kind =
    Kind_Link_Qr | Kind_Ready | Kind_Contact | Kind_Group | Kind_Message | Kind_Group_Message | Kind_Typing | Kind_Receipt
  | Kind_Notice | Kind_Error | Kind_Disconnected | Kind_Contact_Sync_Begin | Kind_Contact_Sync_End | Kind_Group_Sync_Begin
  | Kind_Group_Sync_End | Kind_Group_Member | Kind_Identity_Change | Kind_Identity_Accepted | Kind_Attachment
  | Kind_Attachment_Sent | Kind_Group_Left | Kind_Recovering | Kind_Account | Kind_Session_Reset | Kind_Avatar

definition signal_event_kinds :: "(u32 \<times> signal_event_kind) list" where
  "signal_event_kinds =
     [(1, Kind_Link_Qr), (2, Kind_Ready), (3, Kind_Contact), (4, Kind_Group), (5, Kind_Message), (6, Kind_Group_Message),
      (7, Kind_Typing), (8, Kind_Receipt), (9, Kind_Notice), (10, Kind_Error), (11, Kind_Disconnected),
      (12, Kind_Contact_Sync_Begin), (13, Kind_Contact_Sync_End), (14, Kind_Group_Sync_Begin), (15, Kind_Group_Sync_End),
      (16, Kind_Group_Member), (17, Kind_Identity_Change), (18, Kind_Identity_Accepted), (19, Kind_Attachment),
      (20, Kind_Attachment_Sent), (21, Kind_Group_Left), (22, Kind_Recovering), (23, Kind_Account),
      (24, Kind_Session_Reset), (25, Kind_Avatar)]"

definition event_kind :: "event \<Rightarrow> signal_event_kind option" where
  "event_kind e = map_of signal_event_kinds (ev_kind e)"

text \<open>What libpurple and GLib answer while one event is handled.\<close>

record plugin_view =
  vw_presentable :: bool
  vw_focused :: bool
  vw_key_rank :: "string \<Rightarrow> nat"
  vw_read_rank :: "pending_read \<Rightarrow> nat"
  vw_buddies :: "(string \<times> bool) list"

definition signal_event_can_present :: "plugin_view \<Rightarrow> event \<Rightarrow> bool" where
  "signal_event_can_present vw e \<longleftrightarrow> event_outgoing e \<or> vw_presentable vw"

subsection \<open>Messages\<close>

text \<open>Whether the projection is accepted, the read receipts sent meanwhile, and the connection.\<close>

definition signal_deliver_direct :: "plugin_view \<Rightarrow> event \<Rightarrow> plugin \<Rightarrow> bool \<times> pending_read list \<times> plugin" where
  "signal_deliver_direct vw e pc =
     (if \<not> nonempty (ev_peer_id e) \<or> ev_text e = None then (False, [], pc)
      else if \<not> signal_event_can_present vw e then (True, [], pc)
      else if \<not> event_outgoing e then (True, signal_queue_final_read (vw_read_rank vw) (vw_focused vw) e pc)
      else (True, [], pc))"

definition activate_and_open :: "string \<Rightarrow> string option \<Rightarrow> plugin \<Rightarrow> plugin" where
  "activate_and_open gk title pc =
     signal_open_group gk title (pc\<lparr>pc_active_group_keys := table_add gk (pc_active_group_keys pc)\<rparr>)"

definition signal_deliver_group :: "plugin_view \<Rightarrow> event \<Rightarrow> plugin \<Rightarrow> bool \<times> pending_read list \<times> plugin" where
  "signal_deliver_group vw e pc =
     (if \<not> nonempty (ev_chat_id e) \<or> \<not> nonempty (ev_peer_id e) \<or> ev_text e = None then (False, [], pc)
      else
        let gk = the (ev_chat_id e); pc1 = activate_and_open gk (ev_title e) pc
        in if \<not> signal_event_can_present vw e then (True, [], pc1)
           else (True, signal_queue_final_read (vw_read_rank vw) (vw_focused vw) e (snd (signal_group_id gk (ev_title e) pc1))))"

definition MAX_DELIVERED_ATTACHMENT_BYTES :: nat where
  "MAX_DELIVERED_ATTACHMENT_BYTES = 50 * 1024 * 1024"

text \<open>Shown inline, offered as a transfer or refused by libpurple: the tables change in the same way.\<close>

definition signal_deliver_attachment :: "plugin_view \<Rightarrow> event \<Rightarrow> plugin \<Rightarrow> bool \<times> pending_read list \<times> plugin" where
  "signal_deliver_attachment vw e pc =
     (if \<not> nonempty (ev_peer_id e) \<or> ev_chat_id e = Some [] \<or> ev_data e = [] \<or>
         MAX_DELIVERED_ATTACHMENT_BYTES < length (ev_data e)
      then (False, [], pc)
      else
        let pc1 = (case ev_chat_id e of None \<Rightarrow> pc | Some gk \<Rightarrow> activate_and_open gk None pc)
        in if \<not> signal_event_can_present vw e then (True, [], pc1)
           else (True, signal_queue_final_read (vw_read_rank vw) (vw_focused vw) e pc1))"

subsection \<open>Dispatch\<close>

record dispatched =
  dp_keep :: bool
  dp_accepted :: bool
  dp_sent :: "pending_read list"
  dp_plugin :: plugin

definition dispatch_accept :: "plugin \<Rightarrow> dispatched" where
  "dispatch_accept pc = \<lparr>dp_keep = True, dp_accepted = True, dp_sent = [], dp_plugin = pc\<rparr>"

definition dispatch_projection :: "bool \<times> pending_read list \<times> plugin \<Rightarrow> dispatched" where
  "dispatch_projection r =
     (case r of (accepted, sent, pc) \<Rightarrow> \<lparr>dp_keep = True, dp_accepted = accepted, dp_sent = sent, dp_plugin = pc\<rparr>)"

definition dispatch_stop :: "plugin \<Rightarrow> dispatched" where
  "dispatch_stop pc = \<lparr>dp_keep = False, dp_accepted = False, dp_sent = [], dp_plugin = pc\<rparr>"

definition dispatch_error :: "event \<Rightarrow> plugin \<Rightarrow> dispatched" where
  "dispatch_error e pc =
     (if and (ev_flags e) FLAG_FATAL \<noteq> 0 then dispatch_stop pc
      else if and (ev_flags e) FLAG_TRANSIENT \<noteq> 0 then dispatch_accept pc
      else
        case signal_group_leave_failed e pc of
          (True, pc1) \<Rightarrow> dispatch_accept pc1
        | (False, pc1) \<Rightarrow> dispatch_accept (snd (signal_outgoing_attachment_failed e pc1)))"

definition signal_dispatch_event :: "plugin_view \<Rightarrow> event \<Rightarrow> plugin \<Rightarrow> dispatched" where
  "signal_dispatch_event vw e pc =
     (case event_kind e of
        None \<Rightarrow> \<lparr>dp_keep = True, dp_accepted = False, dp_sent = [], dp_plugin = pc\<rparr>
      | Some kind \<Rightarrow>
          (case kind of
             Kind_Ready \<Rightarrow>
               (case signal_flush_pending_reads (vw_read_rank vw)
                       (if \<not> pc_group_snapshot_complete pc then pc\<lparr>pc_group_sync_fallback := True\<rparr> else pc) of
                  (sent, pc1) \<Rightarrow> dispatch_projection (True, sent, pc1))
           | Kind_Recovering \<Rightarrow> dispatch_accept (pc\<lparr>pc_group_snapshot_complete := False, pc_group_sync_fallback := False\<rparr>)
           | Kind_Account \<Rightarrow> dispatch_accept (signal_set_account_identity e pc)
           | Kind_Contact_Sync_Begin \<Rightarrow> dispatch_accept (signal_begin_contact_sync pc)
           | Kind_Contact \<Rightarrow> dispatch_accept (signal_add_contact e pc)
           | Kind_Contact_Sync_End \<Rightarrow> dispatch_accept (snd (signal_end_contact_sync (vw_buddies vw) pc))
           | Kind_Group_Sync_Begin \<Rightarrow> dispatch_accept (signal_begin_group_sync pc)
           | Kind_Group \<Rightarrow> dispatch_accept (signal_add_group e pc)
           | Kind_Group_Member \<Rightarrow> dispatch_accept (signal_add_group_member e pc)
           | Kind_Group_Sync_End \<Rightarrow> dispatch_accept (signal_end_group_sync (vw_key_rank vw) (ev_value e \<noteq> 0) pc)
           | Kind_Message \<Rightarrow> dispatch_projection (signal_deliver_direct vw e pc)
           | Kind_Group_Message \<Rightarrow> dispatch_projection (signal_deliver_group vw e pc)
           | Kind_Group_Left \<Rightarrow> dispatch_accept (signal_group_left e pc)
           | Kind_Attachment \<Rightarrow> dispatch_projection (signal_deliver_attachment vw e pc)
           | Kind_Attachment_Sent \<Rightarrow> dispatch_accept (snd (signal_outgoing_attachment_complete e pc))
           | Kind_Identity_Change \<Rightarrow> dispatch_accept (signal_identity_changed e pc)
           | Kind_Identity_Accepted \<Rightarrow> dispatch_accept (signal_identity_accepted e pc)
           | Kind_Error \<Rightarrow> dispatch_error e pc
           | Kind_Disconnected \<Rightarrow> dispatch_stop pc
           | _ \<Rightarrow> dispatch_accept pc))"

subsection \<open>Polling the core\<close>

text \<open>The event as the plugin reads it through the pointers.\<close>

definition event_view :: "owned_event \<Rightarrow> event" where
  "event_view oe =
     (let p = oe_public oe
      in \<lparr>ev_kind = se_kind p, ev_flags = se_flags p, ev_request_id = se_request_id p, ev_timestamp_ms = se_timestamp_ms p,
          ev_value = se_value p, ev_peer_id = read_c_str oe (se_peer_id p), ev_chat_id = read_c_str oe (se_chat_id p),
          ev_title = read_c_str oe (se_title p), ev_text = read_c_str oe (se_text p),
          ev_data = take (se_data_len p) (oe_data oe)\<rparr>)"

definition SIGNAL_CORE_ABI_VERSION :: u32 where
  "SIGNAL_CORE_ABI_VERSION = 7"

definition event_compatible :: "owned_event \<Rightarrow> bool" where
  "event_compatible oe \<longleftrightarrow>
     se_abi_version (oe_public oe) = SIGNAL_CORE_ABI_VERSION \<and>
     word_of_nat (repr_c_size signal_event_fields) \<le> se_struct_size (oe_public oe)"

definition event_bears_message :: "event \<Rightarrow> bool" where
  "event_bears_message e \<longleftrightarrow> event_kind e \<in> {Some Kind_Message, Some Kind_Group_Message, Some Kind_Attachment}"

text \<open>One polled event: whether to go on, what was acknowledged, and the connection.\<close>

definition handle_polled :: "plugin_view \<Rightarrow> event \<Rightarrow> plugin \<Rightarrow> bool \<times> u64 option \<times> dispatched" where
  "handle_polled vw e pc =
     (let d = signal_dispatch_event vw e pc
      in if \<not> dp_keep d then (False, None, d)
         else if ev_request_id e \<noteq> 0 \<and> event_bears_message e
         then (True, Some (ev_request_id e),
               d\<lparr>dp_plugin := (dp_plugin d)\<lparr>pc_core := snd (signal_core_ack_message (pc_core (dp_plugin d)) (ev_request_id e))\<rparr>\<rparr>)
         else (True, None, d))"

datatype source_result = Source_Continue | Source_Remove

text \<open>\<open>None\<close> when a poll has not returned.\<close>

fun poll_loop ::
  "nat \<Rightarrow> bool \<Rightarrow> (nat \<Rightarrow> plugin_view) \<Rightarrow> (nat \<Rightarrow> read_outcome list) \<Rightarrow> plugin \<Rightarrow> (source_result \<times> u64 list \<times> plugin) option" where
  "poll_loop 0 failed vws rss pc = Some (Source_Continue, [], pc)"
| "poll_loop (Suc n) failed vws rss pc =
     (case signal_core_poll_event (rss n) True (pc_core pc) of
        None \<Rightarrow> None
      | Some (result, ev, core) \<Rightarrow>
          (let pc1 = pc\<lparr>pc_core := core\<rparr>
           in if result < 0 then Some (Source_Remove, [], pc1)
              else if result = 0 then Some (if failed then Source_Remove else Source_Continue, [], pc1)
              else
                (case ev of
                   None \<Rightarrow> Some (Source_Remove, [], pc1)
                 | Some oe \<Rightarrow>
                     if \<not> event_compatible oe then Some (Source_Remove, [], pc1)
                     else
                       (case handle_polled (vws n) (event_view oe) pc1 of
                          (False, _, d) \<Rightarrow> Some (Source_Remove, [], dp_plugin d)
                        | (True, ack, d) \<Rightarrow>
                            map_option (\<lambda>(r, acks, pc2). (r, (case ack of Some i \<Rightarrow> i # acks | None \<Rightarrow> acks), pc2))
                              (poll_loop n failed vws rss (dp_plugin d))))))"

definition signal_poll_backend ::
  "bool \<Rightarrow> (nat \<Rightarrow> plugin_view) \<Rightarrow> (nat \<Rightarrow> read_outcome list) \<Rightarrow> plugin \<Rightarrow> (source_result \<times> u64 list \<times> plugin) option" where
  "signal_poll_backend failed vws rss pc =
     (if pc_closing pc \<or> pc_core pc = None then Some (Source_Remove, [], pc) else poll_loop 64 failed vws rss pc)"


section \<open>What the plugin sees of an event\<close>

text \<open>The strings of the C event: a NUL inside one is replaced.\<close>

definition c_view :: "event \<Rightarrow> event" where
  "c_view e =
     e\<lparr>ev_peer_id := map_option replace_nul (ev_peer_id e), ev_chat_id := map_option replace_nul (ev_chat_id e),
       ev_title := map_option replace_nul (ev_title e), ev_text := map_option replace_nul (ev_text e)\<rparr>"

lemma owned_event_viewed:
  "\<exists>oe. owned_event_new e = Some oe \<and> event_view oe = c_view e \<and> event_compatible oe"
  by (cases "ev_peer_id e"; cases "ev_chat_id e"; cases "ev_title e"; cases "ev_text e")
     (simp_all add: owned_event_new_def c_string_total ptr_to_def read_c_str_def string_buffer_def takeWhile_terminated
       event_view_def c_view_def event_compatible_def SIGNAL_CORE_ABI_VERSION_def ABI_VERSION_def Let_def)

text \<open>The event is converted by the core, read through its pointers and dispatched; what libpurple answers may depend on the event.\<close>

definition plugin_receive :: "(event \<Rightarrow> plugin_view) \<Rightarrow> event \<Rightarrow> plugin \<Rightarrow> plugin" where
  "plugin_receive vws e pc =
     (case owned_event_new e of
        None \<Rightarrow> pc
      | Some oe \<Rightarrow> dp_plugin (signal_dispatch_event (vws e) (event_view oe) pc))"

lemma plugin_receive_view: "plugin_receive vws e pc = dp_plugin (signal_dispatch_event (vws e) (c_view e) pc)"
  using owned_event_viewed [of e] by (auto simp: plugin_receive_def)

lemma c_view_fields [simp]:
  "ev_kind (c_view e) = ev_kind e" "ev_value (c_view e) = ev_value e" "ev_request_id (c_view e) = ev_request_id e"
  "ev_peer_id (c_view e) = map_option replace_nul (ev_peer_id e)" "ev_chat_id (c_view e) = map_option replace_nul (ev_chat_id e)"
  "ev_title (c_view e) = map_option replace_nul (ev_title e)"
  by (simp_all add: c_view_def)

lemma receive_avatar: "ev_kind e = EVENT_AVATAR \<Longrightarrow> plugin_receive vws e pc = pc"
  by (simp add: plugin_receive_view signal_dispatch_event_def event_kind_def signal_event_kinds_def event_kind_defs dispatch_accept_def)

lemma receive_begin:
  "ev_kind e = EVENT_GROUP_SYNC_BEGIN \<Longrightarrow> plugin_receive vws e pc = signal_begin_group_sync pc"
  by (simp add: plugin_receive_view signal_dispatch_event_def event_kind_def signal_event_kinds_def event_kind_defs dispatch_accept_def)

lemma receive_end:
  "ev_kind e = EVENT_GROUP_SYNC_END \<Longrightarrow>
     plugin_receive vws e pc = signal_end_group_sync (vw_key_rank (vws e)) (ev_value e \<noteq> 0) pc"
  by (simp add: plugin_receive_view signal_dispatch_event_def event_kind_def signal_event_kinds_def event_kind_defs dispatch_accept_def)

lemma receive_group:
  "ev_kind e = EVENT_GROUP \<Longrightarrow> plugin_receive vws e pc = signal_add_group (c_view e) pc"
  by (simp add: plugin_receive_view signal_dispatch_event_def event_kind_def signal_event_kinds_def event_kind_defs dispatch_accept_def)

lemma receive_member:
  "ev_kind e = EVENT_GROUP_MEMBER \<Longrightarrow> plugin_receive vws e pc = signal_add_group_member (c_view e) pc"
  by (simp add: plugin_receive_view signal_dispatch_event_def event_kind_def signal_event_kinds_def event_kind_defs dispatch_accept_def)

section \<open>A snapshot of groups from the core to the plugin\<close>

subsection \<open>What is sent\<close>

text \<open>The body of a snapshot: each group with its avatar, when one is stored, and its members.\<close>

fun snapshot_body :: "externals \<Rightarrow> (group_key \<times> group) list \<Rightarrow> event list \<Rightarrow> bool" where
  "snapshot_body x [] body \<longleftrightarrow> body = []"
| "snapshot_body x ((key, g) # gs) body \<longleftrightarrow>
     (\<exists>av rest. body = group_event (group_identifier x key) g # av @
        map (group_member_event x (group_identifier x key)) (gr_members g) @ rest \<and>
        list_all (\<lambda>e. ev_kind e = EVENT_AVATAR) av \<and> snapshot_body x gs rest)"

lemma emit_groups_body:
  "\<exists>body. bk_events (snd (fold (emit_group sn mid) groups s)) = bk_events (snd s) @ body \<and>
     snapshot_body (sn_ext sn) (filter (shown_group sn mid) groups) body"
proof (induction groups arbitrary: s)
  case Nil
  then show ?case by simp
next
  case (Cons kg groups)
  obtain key g where kg: "kg = (key, g)" by (cases kg)
  obtain rest where rest: "bk_events (snd (fold (emit_group sn mid) (kg # groups) s)) =
        bk_events (snd (emit_group sn mid kg s)) @ rest"
      "snapshot_body (sn_ext sn) (filter (shown_group sn mid) groups) rest"
    using Cons.IH [of "emit_group sn mid kg s"] by auto
  show ?case
  proof (cases "shown_group sn mid kg")
    case False
    then show ?thesis using rest emit_group_skips [of sn mid key g s] unfolding kg by (intro exI [of _ rest]) simp
  next
    case True
    then obtain av where "list_all (\<lambda>e. ev_kind e = EVENT_AVATAR) av"
        "bk_events (snd (emit_group sn mid kg s)) = bk_events (snd s) @ group_event (group_identifier (sn_ext sn) key) g # av @
          map (group_member_event (sn_ext sn) (group_identifier (sn_ext sn) key)) (gr_members g)"
      using emit_group_events [of sn mid key g s] unfolding kg by blast
    then show ?thesis using rest True unfolding kg by auto
  qed
qed

subsection \<open>What is received\<close>

text \<open>The groups and their members by the names the plugin reads; an empty name is passed over.\<close>

definition plugin_groups :: "externals \<Rightarrow> (group_key \<times> group) list \<Rightarrow> string list" where
  "plugin_groups x gs = filter (\<lambda>k. k \<noteq> []) (map (\<lambda>kg. group_identifier x (fst kg)) gs)"

definition plugin_members :: "externals \<Rightarrow> group \<Rightarrow> (string \<times> bool) list" where
  "plugin_members x g =
     filter (\<lambda>m. fst m \<noteq> [])
       (map (\<lambda>m. (replace_nul (x_service_id_string x (Aci (gm_aci m))), gm_administrator m)) (gr_members g))"

definition plugin_members_of :: "externals \<Rightarrow> (group_key \<times> group) list \<Rightarrow> string \<Rightarrow> (string \<times> bool) list" where
  "plugin_members_of x gs k = concat (map (\<lambda>kg. if group_identifier x (fst kg) = k then plugin_members x (snd kg) else []) gs)"

text \<open>The plugin while it receives a snapshot, from the active groups it had.\<close>

definition syncing :: "string list \<Rightarrow> string set \<Rightarrow> (string \<rightharpoonup> (string \<times> bool) list) \<Rightarrow> plugin \<Rightarrow> bool" where
  "syncing active seen members pc \<longleftrightarrow>
     cs_active (pc_group_sync pc) \<and> set (cs_seen (pc_group_sync pc)) = seen \<and> pc_group_members_by_key pc = members \<and>
     pc_active_group_keys pc = active \<and> (\<forall>k\<in>seen. pc_group_ids_by_key pc k \<noteq> None)"

lemma group_id_keeps [simp]:
  "pc_group_sync (snd (signal_group_id gk title pc)) = pc_group_sync pc"
  "pc_group_members_by_key (snd (signal_group_id gk title pc)) = pc_group_members_by_key pc"
  "pc_active_group_keys (snd (signal_group_id gk title pc)) = pc_active_group_keys pc"
  "pc_pending_group_joins (snd (signal_group_id gk title pc)) = pc_pending_group_joins pc"
  "pc_pending_reads (snd (signal_group_id gk title pc)) = pc_pending_reads pc"
  "pc_group_snapshot_complete (snd (signal_group_id gk title pc)) = pc_group_snapshot_complete pc"
  "pc_pending_group_leaves (snd (signal_group_id gk title pc)) = pc_pending_group_leaves pc"
  by (simp_all add: signal_group_id_def Let_def split: option.split)

lemma group_id_known:
  "(\<exists>i. pc_group_ids_by_key (snd (signal_group_id gk title pc)) k = Some i) \<longleftrightarrow>
     k = gk \<or> (\<exists>i. pc_group_ids_by_key pc k = Some i)"
  by (auto simp: signal_group_id_def Let_def split: option.split)

lemma syncing_group:
  assumes "syncing active seen members pc"
  shows "syncing active (if i = [] then seen else insert i seen)
     (if i = [] then members else members(i \<mapsto> (case members i of None \<Rightarrow> [] | Some ms \<Rightarrow> ms)))
     (signal_add_group (e\<lparr>ev_chat_id := Some i\<rparr>) pc)"
  using assms
  by (auto simp: syncing_def signal_add_group_def signal_group_members_def signal_contact_sync_mark_def nonempty_def Let_def
      group_id_known fun_upd_triv split: option.split)

lemma syncing_member:
  assumes "syncing active seen members pc" "i = [] \<or> members i = Some ms"
  shows "syncing active seen (if i = [] \<or> p = [] then members else members(i \<mapsto> ms @ [(p, a)]))
     (signal_add_group_member (e\<lparr>ev_chat_id := Some i, ev_peer_id := Some p, ev_value := (if a then 1 else 0)\<rparr>) pc)"
  using assms by (auto simp: syncing_def signal_add_group_member_def signal_group_members_def nonempty_def Let_def)

lemma syncing_members:
  assumes "syncing active seen members pc" "i = [] \<or> members i = Some ms"
  shows "syncing active seen (if i = [] then members else members(i \<mapsto> ms @ filter (\<lambda>m. fst m \<noteq> []) (map view added)))
     (fold (\<lambda>m. signal_add_group_member
        ((event m)\<lparr>ev_chat_id := Some i, ev_peer_id := Some (fst (view m)), ev_value := (if snd (view m) then 1 else 0)\<rparr>)) added pc)"
  using assms
proof (induction added arbitrary: members ms pc)
  case Nil
  then have "(if i = [] then members else members(i \<mapsto> ms)) = members" by auto
  then show ?case using Nil(1) by (simp only: list.map filter.simps append_Nil2 fold_simps)
next
  case (Cons m added)
  let ?members = "if i = [] \<or> fst (view m) = [] then members else members(i \<mapsto> ms @ [(fst (view m), snd (view m))])"
  let ?ms = "if fst (view m) = [] then ms else ms @ [view m]"
  have "i = [] \<or> ?members i = Some ?ms" using Cons.prems(2) by auto
  note ih = Cons.IH [OF syncing_member [OF Cons.prems] this, of "event m"]
  have "(if i = [] then ?members else ?members(i \<mapsto> ?ms @ filter (\<lambda>m. fst m \<noteq> []) (map view added))) =
      (if i = [] then members else members(i \<mapsto> ms @ filter (\<lambda>m. fst m \<noteq> []) (map view (m # added))))"
    by (cases "view m") auto
  then show ?case using ih by (simp only: fold_simps)
qed

lemma hex_digit_no_NUL: "n < 16 \<Longrightarrow> hex_digit n \<noteq> NUL"
proof
  assume n: "n < 16" and nul: "hex_digit n = NUL"
  have "of_char (hex_digit n) = (if n < 10 then 48 + n else 87 + n)" using n by (simp add: hex_digit_def)
  then show False using nul by (simp split: if_splits)
qed

lemma group_identifier_plain [simp]: "replace_nul (group_identifier x key) = group_identifier x key"
proof (rule replace_nul_id)
  have "hex_digit (unat b div 16) \<noteq> NUL" "hex_digit (unat b mod 16) \<noteq> NUL" for b :: u8
    using unsigned_less [of b, where ?'a = nat] by (simp_all add: hex_digit_no_NUL)
  then show "NUL \<notin> set (group_identifier x key)" by (simp add: group_identifier_def hex_encode_def eq_commute [of NUL])
qed

text \<open>The table of members after the groups \<open>gs\<close>, from the table before.\<close>

definition members_after ::
  "externals \<Rightarrow> (group_key \<times> group) list \<Rightarrow> (string \<rightharpoonup> (string \<times> bool) list) \<Rightarrow> string \<rightharpoonup> (string \<times> bool) list" where
  "members_after x gs members k =
     (if k \<in> set (plugin_groups x gs)
      then Some ((case members k of None \<Rightarrow> [] | Some ms \<Rightarrow> ms) @ plugin_members_of x gs k) else members k)"

lemma receive_members:
  assumes "syncing active seen members pc" "i = [] \<or> members i = Some ms" "replace_nul i = i"
  shows "syncing active seen (if i = [] then members else members(i \<mapsto> ms @ plugin_members x g))
     (fold (plugin_receive vws) (map (group_member_event x i) (gr_members g)) pc)"
proof -
  define view where "view = (\<lambda>m :: group_member. (replace_nul (x_service_id_string x (Aci (gm_aci m))), gm_administrator m))"
  have step: "plugin_receive vws (group_member_event x i m) =
      signal_add_group_member (event_default\<lparr>ev_kind := EVENT_GROUP_MEMBER, ev_chat_id := Some i, ev_peer_id := Some (fst (view m)),
        ev_value := (if snd (view m) then 1 else 0)\<rparr>)" for m
    using assms(3)
    by (auto simp: receive_member signal_add_group_member_def nonempty_def view_def group_member_event_def event_default_def)
  have "plugin_members x g = filter (\<lambda>m. fst m \<noteq> []) (map view (gr_members g))"
    by (simp add: plugin_members_def view_def)
  then show ?thesis
    using syncing_members [OF assms(1,2), of view "gr_members g" "\<lambda>m. event_default\<lparr>ev_kind := EVENT_GROUP_MEMBER\<rparr>"]
    by (simp only: fold_map comp_def step)
qed

lemma receive_avatars: "list_all (\<lambda>e. ev_kind e = EVENT_AVATAR) av \<Longrightarrow> fold (plugin_receive vws) av pc = pc"
  by (induction av) (auto simp: receive_avatar)

lemma receive_group_event:
  assumes "syncing active seen members pc" "replace_nul i = i"
  shows "syncing active (if i = [] then seen else insert i seen)
     (if i = [] then members else members(i \<mapsto> (case members i of None \<Rightarrow> [] | Some ms \<Rightarrow> ms)))
     (plugin_receive vws (group_event i g) pc)"
proof -
  have "plugin_receive vws (group_event i g) pc = signal_add_group ((c_view (group_event i g))\<lparr>ev_chat_id := Some i\<rparr>) pc"
    using assms(2) by (simp add: receive_group signal_add_group_def split: option.split)
  then show ?thesis using syncing_group [OF assms(1)] by (simp only:)
qed

lemma receive_body:
  assumes "snapshot_body x gs body" "syncing active seen members pc"
  shows "syncing active (seen \<union> set (plugin_groups x gs)) (members_after x gs members) (fold (plugin_receive vws) body pc)"
  using assms
proof (induction gs arbitrary: body seen members pc)
  case Nil
  then show ?case by (simp add: plugin_groups_def members_after_def [abs_def])
next
  case (Cons kg gs)
  obtain key g where kg: "kg = (key, g)" by (cases kg)
  let ?i = "group_identifier x key"
  let ?ms = "case members ?i of None \<Rightarrow> [] | Some ms \<Rightarrow> ms"
  let ?m1 = "if ?i = [] then members else members(?i \<mapsto> ?ms)"
  let ?m2 = "if ?i = [] then ?m1 else ?m1(?i \<mapsto> ?ms @ plugin_members x g)"
  let ?seen = "if ?i = [] then seen else insert ?i seen"
  obtain av rest where body: "body = group_event ?i g # av @ map (group_member_event x ?i) (gr_members g) @ rest"
      "list_all (\<lambda>e. ev_kind e = EVENT_AVATAR) av" "snapshot_body x gs rest"
    using Cons.prems(1) by (auto simp: kg)
  let ?pc1 = "fold (plugin_receive vws) (map (group_member_event x ?i) (gr_members g)) (plugin_receive vws (group_event ?i g) pc)"
  have "?i = [] \<or> ?m1 ?i = Some ?ms" by simp
  from receive_members [OF receive_group_event [OF Cons.prems(2) group_identifier_plain] this group_identifier_plain]
  have "syncing active ?seen ?m2 ?pc1" .
  from Cons.IH [OF body(3) this]
  have "syncing active (?seen \<union> set (plugin_groups x gs)) (members_after x gs ?m2) (fold (plugin_receive vws) body pc)"
    using body(1) by (simp add: receive_avatars [OF body(2)])
  moreover have "?seen \<union> set (plugin_groups x gs) = seen \<union> set (plugin_groups x (kg # gs))" by (auto simp: plugin_groups_def kg)
  moreover have "members_after x gs ?m2 = members_after x (kg # gs) members"
    by (rule ext) (auto simp: members_after_def plugin_groups_def plugin_members_of_def kg image_iff split: option.split)
  ultimately show ?case by (simp only:)
qed

subsection \<open>The end of the snapshot\<close>

lemma deactivate_fold:
  assumes "list_all (\<lambda>k. k \<noteq> []) ks"
  shows "pc_group_sync (fold signal_deactivate_group ks pc) = pc_group_sync pc \<and>
    pc_group_members_by_key (fold signal_deactivate_group ks pc) k = (if k \<in> set ks then None else pc_group_members_by_key pc k) \<and>
    pc_group_titles_by_key (fold signal_deactivate_group ks pc) k = (if k \<in> set ks then None else pc_group_titles_by_key pc k) \<and>
    pc_group_ids_by_key (fold signal_deactivate_group ks pc) k = (if k \<in> set ks then None else pc_group_ids_by_key pc k) \<and>
    pc_pending_reads (fold signal_deactivate_group ks pc) = filter (\<lambda>r. \<forall>gk\<in>set ks. rd_chat_id r \<noteq> Some gk) (pc_pending_reads pc)"
  using assms
proof (induction ks arbitrary: pc)
  case (Cons a ks)
  have "pc_group_sync (signal_deactivate_group a pc) = pc_group_sync pc"
    "pc_group_members_by_key (signal_deactivate_group a pc) = (pc_group_members_by_key pc)(a := None)"
    "pc_group_titles_by_key (signal_deactivate_group a pc) = (pc_group_titles_by_key pc)(a := None)"
    "pc_group_ids_by_key (signal_deactivate_group a pc) = (pc_group_ids_by_key pc)(a := None)"
    "pc_pending_reads (signal_deactivate_group a pc) = filter (\<lambda>r. rd_chat_id r \<noteq> Some a) (pc_pending_reads pc)"
    using Cons.prems
    by (auto simp: signal_deactivate_group_def signal_remove_group_pending_reads_def clear_read_warning_def Let_def split: option.split)
  then show ?case using Cons.IH [of "signal_deactivate_group a pc"] Cons.prems by (auto intro: filter_cong)
qed simp

lemma open_groups_fold:
  "pc_group_members_by_key (fold (\<lambda>gk. signal_open_group gk None) ks pc) = pc_group_members_by_key pc \<and>
   pc_group_titles_by_key (fold (\<lambda>gk. signal_open_group gk None) ks pc) = pc_group_titles_by_key pc \<and>
   pc_active_group_keys (fold (\<lambda>gk. signal_open_group gk None) ks pc) = pc_active_group_keys pc \<and>
   pc_pending_reads (fold (\<lambda>gk. signal_open_group gk None) ks pc) = pc_pending_reads pc \<and>
   pc_pending_group_leaves (fold (\<lambda>gk. signal_open_group gk None) ks pc) = pc_pending_group_leaves pc \<and>
   pc_group_snapshot_complete (fold (\<lambda>gk. signal_open_group gk None) ks pc) = pc_group_snapshot_complete pc \<and>
   set (pc_pending_group_joins (fold (\<lambda>gk. signal_open_group gk None) ks pc)) = set (pc_pending_group_joins pc) - set ks \<and>
   ((\<exists>i. pc_group_ids_by_key (fold (\<lambda>gk. signal_open_group gk None) ks pc) k = Some i) \<longleftrightarrow>
      k \<in> set ks \<or> (\<exists>i. pc_group_ids_by_key pc k = Some i))"
proof (induction ks arbitrary: pc)
  case (Cons a ks)
  have "pc_group_titles_by_key (signal_open_group a None pc) = pc_group_titles_by_key pc"
    by (simp add: signal_open_group_def signal_group_id_def nonempty_def Let_def split: option.split)
  then show ?case using Cons.IH [of "signal_open_group a None pc"] by (auto simp: signal_open_group_def Let_def group_id_known)
qed simp

text \<open>A group the plugin has forgotten: no number, title or waiting receipt is left of it.\<close>

definition group_forgotten :: "plugin \<Rightarrow> string \<Rightarrow> bool" where
  "group_forgotten pc k \<longleftrightarrow>
     pc_group_ids_by_key pc k = None \<and> pc_group_titles_by_key pc k = None \<and>
     list_all (\<lambda>r. rd_chat_id r \<noteq> Some k) (pc_pending_reads pc)"

lemma end_group_sync_applies:
  assumes "syncing active seen members pc" "dom members = seen" "[] \<notin> seen" "pc1 = signal_end_group_sync rank True pc"
  shows "pc_group_snapshot_complete pc1 \<and> set (pc_active_group_keys pc1) = seen \<and> pc_pending_group_joins pc1 = [] \<and>
    pc_group_members_by_key pc1 = members \<and> (\<forall>k\<in>seen. pc_group_ids_by_key pc1 k \<noteq> None) \<and>
    (\<forall>k\<in>set active. k \<noteq> [] \<and> k \<notin> seen \<longrightarrow> group_forgotten pc1 k)"
proof -
  define stale where "stale = filter (\<lambda>k. k \<noteq> [] \<and> k \<notin> seen) (sort_key rank active)"
  define pc2 where "pc2 = fold signal_deactivate_group stale (pc\<lparr>pc_group_sync_fallback := False\<rparr>)"
  define pc3 where "pc3 = pc2\<lparr>pc_active_group_keys := cs_seen (pc_group_sync pc2),
    pc_group_sync := signal_contact_sync_end (pc_group_sync pc2), pc_group_snapshot_complete := True\<rparr>"
  define joins where "joins = filter (\<lambda>k. k \<in> set (pc_active_group_keys pc3)) (sort_key rank (pc_pending_group_joins pc3))"
  have run: "pc1 = fold (\<lambda>gk. signal_open_group gk None) joins (pc3\<lparr>pc_pending_group_joins := []\<rparr>)"
    using assms(1)
    by (simp add: assms(4) signal_end_group_sync_def syncing_def signal_contact_sync_should_remove_def nonempty_def open_joins_def
        signal_group_sync_take_active_joins_def pc2_def pc3_def joins_def stale_def Let_def)
  have "list_all (\<lambda>k. k \<noteq> []) stale" by (simp add: stale_def list_all_iff)
  note gone = deactivate_fold [OF this, of "pc\<lparr>pc_group_sync_fallback := False\<rparr>", folded pc2_def]
  have pc3: "set (pc_active_group_keys pc3) = seen" "pc_group_snapshot_complete pc3"
    using gone assms(1) by (simp_all add: pc3_def syncing_def)
  have members: "pc_group_members_by_key pc3 = members"
  proof
    fix k
    show "pc_group_members_by_key pc3 k = members k"
      using gone assms(1,2) by (cases "members k") (auto simp: pc3_def syncing_def stale_def)
  qed
  have known: "\<forall>k\<in>seen. \<exists>i. pc_group_ids_by_key pc3 k = Some i"
    using gone assms(1) by (auto simp: pc3_def syncing_def stale_def)
  have forgotten: "\<forall>k\<in>set active. k \<noteq> [] \<and> k \<notin> seen \<longrightarrow> group_forgotten pc3 k"
    using gone by (auto simp: pc3_def stale_def group_forgotten_def list_all_iff)
  note opened = open_groups_fold [of joins "pc3\<lparr>pc_pending_group_joins := []\<rparr>", folded run]
  have "set joins \<subseteq> seen" using pc3(1) by (auto simp: joins_def)
  then have "\<forall>k. k \<notin> seen \<longrightarrow> pc_group_ids_by_key pc3 k = None \<longrightarrow> pc_group_ids_by_key pc1 k = None"
    using opened by (auto simp flip: not_None_eq)
  then show ?thesis using opened pc3 members known forgotten by (auto simp: group_forgotten_def)
qed

text \<open>
  C4. A snapshot of groups arrives as it was sent: the plugin that receives what the core emits for an authoritative snapshot, whatever its tables
  were, has exactly the groups of the snapshot active, each with a number and with exactly its members in order; no join waits
  any longer, and a group that was active and is not in the snapshot is forgotten with its receipts. When
  the store cannot be read, nothing changes.
\<close>

theorem group_snapshot_applied:
  "case emit_group_snapshot sn mid True s of (result, s1) \<Rightarrow>
     let pc1 = fold (plugin_receive vws) (drop (length (bk_events (snd s))) (bk_events (snd s1))) pc
     in case fst (perform (repo_groups (sn_store sn)) (snd s)) of
          Inl error \<Rightarrow> result = Inl (storage_error_display error) \<and> pc1 = pc
        | Inr groups \<Rightarrow>
            let shown = filter (shown_group sn mid) groups; names = plugin_groups (sn_ext sn) shown
            in result = Inr () \<and> pc_group_snapshot_complete pc1 \<and> set (pc_active_group_keys pc1) = set names \<and>
               pc_pending_group_joins pc1 = [] \<and>
               pc_group_members_by_key pc1 = (\<lambda>k. if k \<in> set names then Some (plugin_members_of (sn_ext sn) shown k) else None) \<and>
               list_all (\<lambda>k. pc_group_ids_by_key pc1 k \<noteq> None) names \<and>
               list_all (\<lambda>k. if k = [] then True else if k \<in> set names then True else group_forgotten pc1 k)
                 (pc_active_group_keys pc)"
proof -
  obtain r b1 where read: "perform (repo_groups (sn_store sn)) (snd s) = (r, b1)"
    by (cases "perform (repo_groups (sn_store sn)) (snd s)")
  have kept: "bk_events b1 = bk_events (snd s)" using read perform_events by fastforce
  show ?thesis
  proof (cases r)
    case (Inl error)
    then show ?thesis using kept by (simp add: emit_group_snapshot_def read)
  next
    case (Inr groups)
    let ?first_event = "event_default\<lparr>ev_kind := EVENT_GROUP_SYNC_BEGIN\<rparr>"
    let ?last_event = "event_default\<lparr>ev_kind := EVENT_GROUP_SYNC_END, ev_value := 1\<rparr>"
    define shown where "shown = filter (shown_group sn mid) groups"
    obtain body where body: "bk_events (snd (fold (emit_group sn mid) groups (fst s, emit ?first_event b1))) =
          bk_events (snd s) @ [?first_event] @ body" "snapshot_body (sn_ext sn) shown body"
      using emit_groups_body [of sn mid groups "(fst s, emit ?first_event b1)"] kept by (auto simp: shown_def)
    obtain s1 where s1: "emit_group_snapshot sn mid True s = (Inr (), s1)"
        "bk_events (snd s1) = bk_events (snd s) @ ?first_event # body @ [?last_event]"
      using body(1) by (cases "fold (emit_group sn mid) groups (fst s, emit ?first_event b1)") (simp add: emit_group_snapshot_def read Inr)
    let ?pc2 = "fold (plugin_receive vws) body (signal_begin_group_sync pc)"
    have "syncing (pc_active_group_keys pc) {} Map.empty (signal_begin_group_sync pc)"
      by (simp add: syncing_def signal_begin_group_sync_def signal_contact_sync_begin_def)
    from receive_body [OF body(2) this]
    have sync: "syncing (pc_active_group_keys pc) (set (plugin_groups (sn_ext sn) shown)) (members_after (sn_ext sn) shown Map.empty) ?pc2"
      by simp
    have "dom (members_after (sn_ext sn) shown Map.empty) = set (plugin_groups (sn_ext sn) shown)"
      by (auto simp: members_after_def split: if_splits)
    note applied = end_group_sync_applies [OF sync this _ refl, of "vw_key_rank (vws ?last_event)"]
    have "fold (plugin_receive vws) (drop (length (bk_events (snd s))) (bk_events (snd s1))) pc =
        signal_end_group_sync (vw_key_rank (vws ?last_event)) True ?pc2"
      by (simp add: s1(2) receive_begin receive_end)
    then show ?thesis
      using applied by (auto simp: s1(1) read Inr shown_def [symmetric] Let_def list_all_iff members_after_def [abs_def] plugin_groups_def)
  qed
qed

end
