(* ===== verification/Plugin_Delivery.thy ===== *)
theory Plugin_Delivery
  imports Plugin_Events Incoming
begin

section \<open>A message from the core to the plugin and its acknowledgment back\<close>

text \<open>
  The events the core emits for a message are taken by the plugin one after another. Every one of them is accepted, and
  the plugin acknowledges the message once, with the last of them.
\<close>

subsection \<open>Events the plugin accepts\<close>

text \<open>A complete message projection, or a report of an error that stops nothing.\<close>

definition deliverable :: "event \<Rightarrow> bool" where
  "deliverable e \<longleftrightarrow>
     (if ev_kind e = EVENT_MESSAGE then nonempty (ev_peer_id e) \<and> ev_text e \<noteq> None
      else if ev_kind e = EVENT_GROUP_MESSAGE then nonempty (ev_chat_id e) \<and> nonempty (ev_peer_id e) \<and> ev_text e \<noteq> None
      else if ev_kind e = EVENT_ATTACHMENT
      then nonempty (ev_peer_id e) \<and> ev_chat_id e \<noteq> Some [] \<and> ev_data e \<noteq> [] \<and>
           length (ev_data e) \<le> MAX_DELIVERED_ATTACHMENT_BYTES
      else ev_kind e = EVENT_ERROR \<and> ev_flags e = 0 \<and> ev_request_id e = 0)"

lemma deliverable_error [simp]: "deliverable (event_error t False)" "deliverable (download_error t)"
  by (simp_all add: deliverable_def download_error_def event_error_def event_default_def event_kind_defs)

lemma download_attachment_deliverable:
  assumes "download_attachment sv index a b = (d, b1)"
  shows "(\<exists>es. bk_events b1 = bk_events b @ es \<and> list_all deliverable es) \<and> (\<forall>v. d = Some v \<longrightarrow> da_data v \<noteq> [])"
  using assms
  by (auto simp: download_attachment_def downloaded_new_def Let_def split: if_splits prod.splits sum.splits dest!: perform_events)

lemma download_attachments_deliverable:
  "download_attachments sv as b = (ds, b1) \<Longrightarrow>
     (\<exists>es. bk_events b1 = bk_events b @ es \<and> list_all deliverable es) \<and> list_all (\<lambda>d. da_data d \<noteq> []) ds"
proof (induction sv as b arbitrary: ds b1 rule: download_attachments.induct)
  case (2 sv index a rest b)
  obtain d b2 where d: "download_attachment sv index a b = (d, b2)" by (cases "download_attachment sv index a b")
  obtain ds1 b3 where r: "download_attachments sv rest b2 = (ds1, b3)" by (cases "download_attachments sv rest b2")
  have eq: "ds = (case d of Some v \<Rightarrow> [v] | None \<Rightarrow> []) @ ds1" "b1 = b3" using "2.prems" d r by simp_all
  from download_attachment_deliverable [OF d] "2.IH" [OF d [symmetric] r] obtain es1 es2
    where "bk_events b2 = bk_events b @ es1" "list_all deliverable es1" "bk_events b3 = bk_events b2 @ es2" "list_all deliverable es2"
    by blast
  then have "\<exists>es. bk_events b1 = bk_events b @ es \<and> list_all deliverable es"
    by (intro exI [of _ "es1 @ es2"]) (simp add: eq)
  then show ?case
    using "2.IH" [OF d [symmetric] r] download_attachment_deliverable [OF d] by (auto simp: eq split: option.split)
qed simp

lemma bounded_gif_nonempty: "bounded_inline_gif gif = Some True \<Longrightarrow> gif \<noteq> []"
  by (auto simp: bounded_inline_gif_def)

lemma transcode_nonempty:
  "list_all (\<lambda>d. da_data d \<noteq> []) ds \<Longrightarrow> list_all (\<lambda>d. da_data d \<noteq> []) (transcode_attachments te n ds)"
proof (induction te n ds rule: transcode_attachments.induct)
  case (2 te n d ds)
  have "da_data d \<noteq> [] \<Longrightarrow> da_data (snd (apply_signal_gif gif d)) \<noteq> []" for gif
    using bounded_gif_nonempty by (auto simp: apply_signal_gif_def split: option.split)
  then show ?case using 2 by (auto split: option.split)
qed simp

lemma attachment_events_deliverable:
  assumes "dp_peer dp \<noteq> []" "map_option (group_identifier x) gk \<noteq> Some []"
    "list_all (\<lambda>d. da_data d \<noteq> [] \<and> length (da_data d) \<le> MAX_ATTACHMENT_SIZE_BYTES) ds"
  shows "list_all deliverable (attachment_events x dp gk ds)"
proof -
  have "deliverable (attachment_event x dp gk i d)" if "d \<in> set ds" for i d
    using assms that
    by (auto simp: deliverable_def attachment_event_def event_default_def event_kind_defs nonempty_def list_all_iff
        MAX_DELIVERED_ATTACHMENT_BYTES_def MAX_ATTACHMENT_SIZE_BYTES_def)
  then show ?thesis by (auto simp: attachment_events_def list_all_iff in_set_enumerate_eq)
qed

lemma text_event_deliverable:
  assumes "dp_peer dp \<noteq> []" "x_service_id_string x (Aci local) \<noteq> []" "map_option (group_identifier x) gk \<noteq> Some []"
  shows "deliverable (text_event x local dp gk title i t)"
  using assms
  by (cases gk)
     (auto simp: deliverable_def text_event_def event_default_def event_kind_defs nonempty_def group_message_peer_def Let_def)

lemma emit_projected_deliverable:
  assumes "dp_peer dp \<noteq> []" "x_service_id_string (sv_ext sv) (Aci (local_aci sv)) \<noteq> []"
    "map_option (group_identifier (sv_ext sv)) gk \<noteq> Some []"
  shows "\<exists>es. bk_events (emit_projected sv te dp gk title b) = bk_events b @ es \<and> list_all deliverable es"
proof -
  obtain excess b1 raw b2 body where excess: "bk_events b1 = bk_events b @ map (\<lambda>t. event_error t False) excess"
    and raw: "(if dp_outgoing dp then ([], b1)
      else download_attachments sv
        (take MAX_ATTACHMENT_DOWNLOADS_PER_MESSAGE (List.enumerate 0 (regular_message_attachments (dp_message dp)))) b1) = (raw, b2)"
    and shown: "bk_events (emit_projected sv te dp gk title b) = bk_events b2 @
      (case body of None \<Rightarrow> []
       | Some t \<Rightarrow> [text_event (sv_ext sv) (local_aci sv) dp gk title (if raw = [] then dp_delivery_id dp else 0) t]) @
      attachment_events (sv_ext sv) dp gk (transcode_attachments te 0 raw)"
    by (rule emit_projected_parts)
  obtain es2 where es2: "bk_events b2 = bk_events b1 @ es2" "list_all deliverable es2"
    using raw download_attachments_deliverable [of sv _ b1 raw b2] by (cases "dp_outgoing dp") auto
  have "list_all (\<lambda>d. da_data d \<noteq> []) raw \<and> list_all (\<lambda>d. length (da_data d) \<le> MAX_ATTACHMENT_SIZE_BYTES) raw"
    using raw download_attachments_deliverable [of sv _ b1 raw b2] download_attachments_reports [of sv _ b1 raw b2]
    by (cases "dp_outgoing dp") auto
  then have "list_all (\<lambda>d. da_data d \<noteq> [] \<and> length (da_data d) \<le> MAX_ATTACHMENT_SIZE_BYTES) (transcode_attachments te 0 raw)"
    using transcode_nonempty [of raw te 0] transcode_data [of raw te 0] by (simp add: list_all_iff)
  from attachment_events_deliverable [OF assms(1,3) this]
  have "list_all deliverable (map (\<lambda>t. event_error t False) excess @ es2 @
      (case body of None \<Rightarrow> []
       | Some t \<Rightarrow> [text_event (sv_ext sv) (local_aci sv) dp gk title (if raw = [] then dp_delivery_id dp else 0) t]) @
      attachment_events (sv_ext sv) dp gk (transcode_attachments te 0 raw))"
    using es2(2) text_event_deliverable [OF assms] by (auto simp: list_all_iff split: option.split)
  then show ?thesis using shown excess es2(1) by (metis append.assoc)
qed

lemma emit_data_message_deliverable:
  assumes "emit_data_message sv te mid dp b = (d, b1)" "dp_peer dp \<noteq> []"
    "x_service_id_string (sv_ext sv) (Aci (local_aci sv)) \<noteq> []"
    "\<And>key. group_message_target (dp_message dp) = Target_Group key \<Longrightarrow> group_identifier (sv_ext sv) key \<noteq> []"
  shows "\<exists>es. bk_events b1 = bk_events b @ es \<and> list_all deliverable es"
  using assms emit_projected_deliverable [OF assms(2,3)]
  by (auto simp: emit_data_message_def split: message_target.splits if_splits prod.splits sum.splits projection_group.splits
      dest!: group_for_projection_events) (metis option.inject)+

subsection \<open>Taking the events\<close>

text \<open>The acknowledgments sent, whether every event was accepted, and the plugin.\<close>

fun plugin_takes :: "(event \<Rightarrow> plugin_view) \<Rightarrow> event list \<Rightarrow> plugin \<Rightarrow> u64 list \<times> bool \<times> plugin" where
  "plugin_takes vws [] pc = ([], True, pc)"
| "plugin_takes vws (e # es) pc =
     (case owned_event_new e of
        None \<Rightarrow> ([], False, pc)
      | Some oe \<Rightarrow>
          (case handle_polled (vws e) (event_view oe) pc of
             (False, _, d) \<Rightarrow> ([], False, dp_plugin d)
           | (True, ack, d) \<Rightarrow>
               (case plugin_takes vws es (dp_plugin d) of
                  (acks, ok, pc1) \<Rightarrow> ((case ack of Some i \<Rightarrow> i # acks | None \<Rightarrow> acks), dp_accepted d \<and> ok, pc1))))"

lemma replace_nul_Nil [simp]: "replace_nul s = [] \<longleftrightarrow> s = []"
  by (cases s) (simp_all add: replace_nul_def replacement_character_def)

lemma nonempty_view [simp]: "nonempty (map_option replace_nul s) \<longleftrightarrow> nonempty s"
  by (cases s) (simp_all add: nonempty_def)

lemma handle_message:
  assumes "event_bears_message e"
  shows "\<exists>d. handle_polled vw e pc = (True, if ev_request_id e = 0 then None else Some (ev_request_id e), d) \<and>
    dp_accepted d = dp_accepted (signal_dispatch_event vw e pc)"
  using assms
  by (auto simp: handle_polled_def event_bears_message_def signal_dispatch_event_def dispatch_projection_def Let_def split: prod.split)

lemma dispatch_error_accepts: "ev_flags e = 0 \<Longrightarrow> dp_keep (dispatch_error e pc) \<and> dp_accepted (dispatch_error e pc)"
  by (simp add: dispatch_error_def dispatch_accept_def split: prod.split bool.split)

lemma dispatch_deliverable:
  assumes "deliverable e"
  shows "dp_accepted (signal_dispatch_event vw (c_view e) pc)"
proof -
  have kinds: "event_kind (c_view e) = map_of signal_event_kinds (ev_kind e)" by (simp add: event_kind_def)
  have view: "ev_data (c_view e) = ev_data e" "ev_text (c_view e) = None \<longleftrightarrow> ev_text e = None" "ev_flags (c_view e) = ev_flags e"
    by (simp_all add: c_view_def)
  consider "ev_kind e = EVENT_MESSAGE" | "ev_kind e = EVENT_GROUP_MESSAGE" | "ev_kind e = EVENT_ATTACHMENT" | "ev_kind e = EVENT_ERROR"
    using assms by (auto simp: deliverable_def split: if_splits)
  then show ?thesis
    by cases (use assms in \<open>auto simp: deliverable_def signal_dispatch_event_def kinds signal_event_kinds_def event_kind_defs
        dispatch_projection_def dispatch_error_accepts signal_deliver_direct_def signal_deliver_group_def
        signal_deliver_attachment_def Let_def view split: prod.split\<close>)
qed

lemma handle_deliverable:
  assumes "deliverable e"
  shows "\<exists>d. handle_polled vw (c_view e) pc = (True, if ev_request_id e = 0 then None else Some (ev_request_id e), d) \<and> dp_accepted d"
proof (cases "ev_kind e = EVENT_ERROR")
  case True
  then have "ev_request_id e = 0" "ev_flags (c_view e) = 0" "event_kind (c_view e) = Some Kind_Error"
    using assms by (auto simp: deliverable_def c_view_def event_kind_def signal_event_kinds_def event_kind_defs)
  then show ?thesis
    using dispatch_error_accepts [of "c_view e" pc]
    by (auto simp: handle_polled_def signal_dispatch_event_def Let_def event_bears_message_def)
next
  case False
  then have "event_bears_message (c_view e)"
    using assms by (auto simp: deliverable_def event_bears_message_def event_kind_def signal_event_kinds_def event_kind_defs split: if_splits)
  from handle_message [OF this, of vw pc] dispatch_deliverable [OF assms, of vw pc] show ?thesis
    by (cases "ev_request_id e = 0") simp_all
qed

lemma plugin_takes_deliverable:
  "list_all deliverable es \<Longrightarrow>
     \<exists>pc1. plugin_takes vws es pc = (filter (\<lambda>i. i \<noteq> 0) (map ev_request_id es), True, pc1)"
proof (induction es arbitrary: pc)
  case (Cons e es)
  obtain oe where oe: "owned_event_new e = Some oe" "event_view oe = c_view e" using owned_event_viewed by blast
  obtain d where "handle_polled (vws e) (c_view e) pc = (True, if ev_request_id e = 0 then None else Some (ev_request_id e), d)" "dp_accepted d"
    using handle_deliverable [of e] Cons.prems by auto
  moreover obtain pc1 where "plugin_takes vws es (dp_plugin d) = (filter (\<lambda>i. i \<noteq> 0) (map ev_request_id es), True, pc1)"
    using Cons by auto
  ultimately show ?case using oe by simp
qed simp

text \<open>
  C3. A message makes the round from the core to the plugin and back: when the sender, the account and the group have a name, the plugin accepts
  every event the core emits for a message, whatever its tables are and libpurple answers, and acknowledges exactly once, with the
  delivery id of the message, when the message is shown; nothing is acknowledged for a message that is not shown.
\<close>

theorem message_acknowledged_once:
  "case emit_data_message sv te mid dp b of
     (d, b1) \<Rightarrow>
       if dp_delivery_id dp \<noteq> 0 \<and> dp_peer dp \<noteq> [] \<and> x_service_id_string (sv_ext sv) (Aci (local_aci sv)) \<noteq> [] \<and>
          (case group_message_target (dp_message dp) of Target_Group key \<Rightarrow> group_identifier (sv_ext sv) key \<noteq> [] | _ \<Rightarrow> True)
       then case plugin_takes vws (drop (length (bk_events b)) (bk_events b1)) pc of
              (acks, accepted, pc1) \<Rightarrow> acks = (if d = AwaitingAck then [dp_delivery_id dp] else []) \<and> accepted
       else True"
proof -
  obtain d b1 where r: "emit_data_message sv te mid dp b = (d, b1)" by (cases "emit_data_message sv te mid dp b")
  have "\<exists>pc1. plugin_takes vws (drop (length (bk_events b)) (bk_events b1)) pc =
      (if d = AwaitingAck then [dp_delivery_id dp] else [], True, pc1)"
    if named: "dp_delivery_id dp \<noteq> 0" "dp_peer dp \<noteq> []" "x_service_id_string (sv_ext sv) (Aci (local_aci sv)) \<noteq> []"
      "case group_message_target (dp_message dp) of Target_Group key \<Rightarrow> group_identifier (sv_ext sv) key \<noteq> [] | _ \<Rightarrow> True"
  proof -
    have "\<And>key. group_message_target (dp_message dp) = Target_Group key \<Longrightarrow> group_identifier (sv_ext sv) key \<noteq> []"
      using named(4) by auto
    from emit_data_message_deliverable [OF r named(2,3) this] obtain es
      where es: "bk_events b1 = bk_events b @ es" "list_all deliverable es" by blast
    have "filter (\<lambda>i. i \<noteq> 0) (map ev_request_id es) = (if d = AwaitingAck then [dp_delivery_id dp] else [])"
      using r
    proof (cases rule: emit_data_message_cases)
      case (shown b0 gk title)
      then obtain reports sh where "es = reports @ sh" "list_all is_report reports" "carries_delivery (dp_delivery_id dp) sh"
        using es(1) emit_projected_events [OF shown(4), of sv te gk title b0] by auto
      moreover from this(3) have "sh = butlast sh @ [last sh]" by (simp add: carries_delivery_def)
      ultimately have "es = (reports @ butlast sh) @ [last sh]" "list_all (\<lambda>e. ev_request_id e = 0) (reports @ butlast sh)"
          "ev_request_id (last sh) = dp_delivery_id dp"
        by (auto simp: carries_delivery_def list_all_iff is_report_def)
      then show ?thesis using shown(1) named(1) by (simp add: list_all_iff filter_empty_conv)
    next
      case (hidden reports)
      then show ?thesis using es(1) by (auto simp: list_all_iff filter_empty_conv is_report_def)
    qed
    then show ?thesis using es plugin_takes_deliverable [OF es(2), of vws pc] by simp
  qed
  then show ?thesis using r by auto
qed

subsection \<open>A projection the plugin rejects\<close>


section \<open>One run of the event source\<close>

subsection \<open>Handling an event leaves the queue alone\<close>

definition plugin_queue :: "plugin \<Rightarrow> event_queue_state option" where
  "plugin_queue pc = map_option co_events (pc_core pc)"

lemma core_call_queue [simp]:
  "map_option co_events (snd (signal_core_mark_read core i r n)) = map_option co_events core"
  "map_option co_events (snd (signal_core_dismiss_identity core i r)) = map_option co_events core"
  "map_option co_events (snd (signal_core_ack_message core n)) = map_option co_events core"
  "map_option co_events (snd (signal_core_cancel_attachment core n)) = map_option co_events core"
proof -
  have kept: "map_option co_events (snd (ffi_exec md call core)) = map_option co_events core" for md call
  proof (cases core)
    case None
    then show ?thesis by (cases call) (simp_all add: ffi_exec_null)
  next
    case (Some c)
    then show ?thesis
      using ffi_exec_effect [of md call c] by (auto simp: call_effect_def apsnd_def map_prod_def split: prod.splits)
  qed
  show "map_option co_events (snd (signal_core_mark_read core i r n)) = map_option co_events core"
    using kept [of undefined "Call_Mark_Read i r n"] by simp
  show "map_option co_events (snd (signal_core_dismiss_identity core i r)) = map_option co_events core"
    using kept [of undefined "Call_Dismiss_Identity i r"] by simp
  show "map_option co_events (snd (signal_core_ack_message core n)) = map_option co_events core"
    using kept [of undefined "Call_Ack n"] by simp
  show "map_option co_events (snd (signal_core_cancel_attachment core n)) = map_option co_events core"
    using kept [of undefined "Call_Cancel n"] by simp
qed

lemma next_request_queue:
  "(\<And>core i. map_option co_events (snd (call core i)) = map_option co_events core) \<Longrightarrow>
     plugin_queue (snd (next_request call pc)) = plugin_queue pc"
  by (simp add: next_request_def plugin_queue_def split: prod.split) (metis snd_conv)

lemma send_read_queue: "signal_send_read r pc = (status, pc1) \<Longrightarrow> plugin_queue pc1 = plugin_queue pc"
  using next_request_queue [of "\<lambda>core i. signal_core_mark_read core i (Some (rd_peer_id r)) (rd_timestamp r)" pc]
  by (auto simp: signal_send_read_def split: if_splits)

lemma flush_reads_queue: "flush_reads rs pc = (sent, kept, pc1) \<Longrightarrow> plugin_queue pc1 = plugin_queue pc"
proof (induction rs pc arbitrary: sent kept pc1 rule: flush_reads.induct)
  case (2 r rs pc)
  then show ?case
    by (auto simp: signal_schedule_pending_read_retry_def plugin_queue_def split: if_splits prod.splits dest!: send_read_queue)
qed simp

lemma flush_queue: "plugin_queue (snd (signal_flush_pending_reads rank pc)) = plugin_queue pc"
proof -
  obtain sent kept pc1 where f: "flush_reads (sort_key rank (pc_pending_reads pc)) pc = (sent, kept, pc1)"
    by (cases "flush_reads (sort_key rank (pc_pending_reads pc)) pc") auto
  from flush_reads_queue [OF f] show ?thesis
    by (simp add: signal_flush_pending_reads_def f clear_read_warning_def plugin_queue_def)
qed

lemma add_read_queue: "plugin_queue (snd (add_pending_read rank r pc)) = plugin_queue pc"
  using flush_queue [of rank pc]
    flush_queue [of rank "pc\<lparr>pc_pending_reads := pc_pending_reads pc @ [r]\<rparr>"]
    flush_queue [of rank "(snd (signal_flush_pending_reads rank pc))\<lparr>pc_pending_reads :=
      pc_pending_reads (snd (signal_flush_pending_reads rank pc)) @ [r]\<rparr>"]
  by (auto simp: add_pending_read_def Let_def plugin_queue_def split: prod.split)

lemma final_read_queue: "plugin_queue (snd (signal_queue_final_read rank focused e pc)) = plugin_queue pc"
  by (simp add: signal_queue_final_read_def signal_queue_read_def Let_def flush_queue add_read_queue)
     (simp add: signal_mark_pending_reads_eligible_def plugin_queue_def)

lemma group_core [simp]:
  "pc_core (snd (signal_group_id gk title pc)) = pc_core pc" "pc_core (signal_open_group gk title pc) = pc_core pc"
  "pc_core (signal_group_members gk pc) = pc_core pc" "pc_core (signal_deactivate_group gk pc) = pc_core pc"
  "pc_core (activate_and_open gk title pc) = pc_core pc"
  by (simp_all add: signal_group_id_def signal_open_group_def signal_group_members_def signal_deactivate_group_def
      signal_remove_group_pending_reads_def clear_read_warning_def activate_and_open_def Let_def split: option.split)

lemma fold_core: "(\<And>x pc. pc_core (f x pc) = pc_core pc) \<Longrightarrow> pc_core (fold f xs pc) = pc_core pc"
  by (induction xs arbitrary: pc) auto

lemma sync_core [simp]:
  "pc_core (signal_begin_group_sync pc) = pc_core pc" "pc_core (signal_add_group e pc) = pc_core pc"
  "pc_core (signal_add_group_member e pc) = pc_core pc" "pc_core (signal_end_group_sync rank authoritative pc) = pc_core pc"
  "pc_core (signal_begin_contact_sync pc) = pc_core pc" "pc_core (signal_add_contact e pc) = pc_core pc"
  "pc_core (snd (signal_end_contact_sync buddies pc)) = pc_core pc" "pc_core (signal_set_account_identity e pc) = pc_core pc"
  "pc_core (signal_group_left e pc) = pc_core pc" "pc_core (signal_identity_accepted e pc) = pc_core pc"
  "pc_core (snd (signal_group_leave_failed e pc)) = pc_core pc"
  by (simp_all add: signal_begin_group_sync_def signal_add_group_def signal_add_group_member_def signal_end_group_sync_def
      signal_begin_contact_sync_def signal_add_contact_def signal_end_contact_sync_def signal_set_account_identity_def
      signal_group_left_def signal_identity_accepted_def signal_group_leave_failed_def open_joins_def fold_core Let_def
      split: option.split prod.split)

lemma identity_changed_queue: "plugin_queue (signal_identity_changed e pc) = plugin_queue pc"
  unfolding signal_identity_changed_def Let_def
  by (simp add: next_request_queue) (simp add: plugin_queue_def)

lemma transfer_free_core [simp]: "pc_core (signal_outgoing_attachment_free x pc) = pc_core pc"
  by (simp add: signal_outgoing_attachment_free_def Let_def split: option.split)

lemma transfer_cancel_queue: "plugin_queue (signal_outgoing_attachment_cancel x pc) = plugin_queue pc"
  by (simp add: signal_outgoing_attachment_cancel_def plugin_queue_def split: option.split)

lemma transfer_queue:
  "plugin_queue (snd (signal_outgoing_attachment_complete e pc)) = plugin_queue pc"
  "plugin_queue (snd (signal_outgoing_attachment_failed e pc)) = plugin_queue pc"
  by (simp_all add: signal_outgoing_attachment_complete_def signal_outgoing_attachment_failed_def transfer_cancel_queue
      split: option.split) (simp add: plugin_queue_def)

lemma deliver_queue:
  "plugin_queue (snd (snd (signal_deliver_direct vw e pc))) = plugin_queue pc"
  "plugin_queue (snd (snd (signal_deliver_group vw e pc))) = plugin_queue pc"
  "plugin_queue (snd (snd (signal_deliver_attachment vw e pc))) = plugin_queue pc"
  by (simp_all add: signal_deliver_direct_def signal_deliver_group_def signal_deliver_attachment_def Let_def final_read_queue
      split: option.split) (simp_all add: plugin_queue_def)

lemma dispatched_plugin:
  "dp_plugin (dispatch_projection r) = snd (snd r)" "dp_plugin (case p of (sent, pc) \<Rightarrow> dispatch_projection (True, sent, pc)) = snd p"
  by (simp_all add: dispatch_projection_def split: prod.split)

lemma dispatch_queue: "plugin_queue (dp_plugin (signal_dispatch_event vw e pc)) = plugin_queue pc"
proof (cases "event_kind e")
  case (Some kind)
  have stop: "plugin_queue (dp_plugin (dispatch_error e pc)) = plugin_queue pc"
    by (simp add: dispatch_error_def dispatch_stop_def dispatch_accept_def transfer_queue signal_group_leave_failed_def split: option.split)
       (simp add: plugin_queue_def)
  have ready: "plugin_queue (snd (signal_flush_pending_reads (vw_read_rank vw)
      (if \<not> pc_group_snapshot_complete pc then pc\<lparr>pc_group_sync_fallback := True\<rparr> else pc))) = plugin_queue pc"
    by (simp add: flush_queue) (simp add: plugin_queue_def)
  show ?thesis
    using stop ready deliver_queue [of vw e pc] identity_changed_queue [of e pc] transfer_queue [of e pc]
    by (cases kind)
       (simp_all add: signal_dispatch_event_def Some dispatched_plugin dispatch_accept_def dispatch_stop_def,
        simp_all add: plugin_queue_def)
qed (simp add: signal_dispatch_event_def)

lemma handle_queue: "handle_polled vw e pc = (keep, ack, d) \<Longrightarrow> plugin_queue (dp_plugin d) = plugin_queue pc"
  using dispatch_queue [of vw e pc]
  by (auto simp: handle_polled_def Let_def plugin_queue_def split: if_splits)

subsection \<open>The loop of the source\<close>

text \<open>The deliveries among the events.\<close>

definition deliveries :: "event list \<Rightarrow> u64 list" where
  "deliveries es = map ev_request_id (filter (\<lambda>e. event_bears_message e \<and> ev_request_id e \<noteq> 0) es)"

lemma handle_acks:
  assumes "handle_polled vw (c_view e) pc = (keep, ack, d)"
  shows "deliveries [e] = (case ack of None \<Rightarrow> [] | Some i \<Rightarrow> [i])" "\<not> keep \<Longrightarrow> ack = None"
proof -
  have bears: "event_bears_message (c_view e) = event_bears_message e" by (simp add: event_bears_message_def event_kind_def)
  show "\<not> keep \<Longrightarrow> ack = None" using assms by (auto simp: handle_polled_def Let_def split: if_splits)
  show "deliveries [e] = (case ack of None \<Rightarrow> [] | Some i \<Rightarrow> [i])"
    using assms handle_message [of "c_view e" vw pc] bears
    by (cases "event_bears_message e") (auto simp: deliveries_def handle_polled_def Let_def split: if_splits)
qed

definition polled_ok :: "nat \<Rightarrow> event_queue_state \<Rightarrow> source_result \<times> u64 list \<times> plugin \<Rightarrow> bool" where
  "polled_ok n q result \<longleftrightarrow>
     (case result of (r, acks, pc1) \<Rightarrow>
        (\<exists>q1 handled. plugin_queue pc1 = Some q1 \<and> queue_inv q1 \<and> eq_channel q = handled @ eq_channel q1 \<and>
           length handled \<le> n \<and> acks = deliveries handled \<and>
           (r = Source_Continue \<longrightarrow> length handled = n \<or> eq_channel q1 = [])))"

lemma polled_ok_Cons:
  assumes "polled_ok n q1 (r, acks, pc1)" "eq_channel q = e # eq_channel q1"
  shows "polled_ok (Suc n) q (r, deliveries [e] @ acks, pc1)"
proof -
  obtain q2 handled where "plugin_queue pc1 = Some q2" "queue_inv q2" "eq_channel q1 = handled @ eq_channel q2" "length handled \<le> n"
      "acks = deliveries handled" "r = Source_Continue \<longrightarrow> length handled = n \<or> eq_channel q2 = []"
    using assms(1) by (auto simp: polled_ok_def)
  then show ?thesis using assms(2) by (auto simp: polled_ok_def deliveries_def intro!: exI [of _ q2] exI [of _ "e # handled"])
qed

lemma polled_ok_last:
  assumes "plugin_queue pc1 = Some q1" "queue_inv q1" "eq_channel q = e # eq_channel q1"
  shows "polled_ok (Suc n) q (Source_Remove, deliveries [e], pc1)"
  using assms by (auto simp: polled_ok_def intro!: exI [of _ q1] exI [of _ "[e]"])

lemma poll_loop_ok:
  assumes "plugin_queue pc = Some q" "queue_inv q" "\<And>i. i < n \<Longrightarrow> reads_ok (eq_unread q) (rss i)"
  shows "\<exists>result. poll_loop n failed vws rss pc = Some result \<and> polled_ok n q result"
  using assms
proof (induction n arbitrary: pc q)
  case 0
  then show ?case by (auto simp: polled_ok_def deliveries_def)
next
  case (Suc n)
  obtain c where c: "pc_core pc = Some c" "co_events c = q" using Suc.prems(1) by (auto simp: plugin_queue_def)
  have "reads_ok (eq_unread q) (rss n)" using Suc.prems(3) by simp
  from Suc.prems(2) this show ?case
  proof (cases rule: poll_cases)
    case poisoned
    then show ?thesis using c Suc.prems(2) by (auto simp: signal_core_poll_event_def polled_ok_def plugin_queue_def deliveries_def)
  next
    case (none r)
    then show ?thesis
      using c Suc.prems(2)
      by (auto simp: signal_core_poll_event_def polled_ok_def plugin_queue_def deliveries_def queue_inv_def)
  next
    case (got e es)
    let ?q1 = "q\<lparr>eq_channel := es, eq_queued_bytes := data_bytes es\<rparr>"
    let ?pc1 = "pc\<lparr>pc_core := Some (c\<lparr>co_events := ?q1\<rparr>)\<rparr>"
    have q1: "queue_inv ?q1" using queue_inv_popped [OF Suc.prems(2) got(1)] .
    obtain oe where oe: "owned_event_new e = Some oe" "event_view oe = c_view e" "event_compatible oe" using owned_event_viewed by blast
    obtain keep ack d where h: "handle_polled (vws n) (c_view e) ?pc1 = (keep, ack, d)"
      by (cases "handle_polled (vws n) (c_view e) ?pc1") auto
    have q: "plugin_queue (dp_plugin d) = Some ?q1" using handle_queue [OF h] by (simp add: plugin_queue_def)
    note acks = handle_acks [OF h]
    have "poll_loop (Suc n) failed vws rss pc = (if keep
        then map_option (\<lambda>(r, acks, pc2). (r, deliveries [e] @ acks, pc2)) (poll_loop n failed vws rss (dp_plugin d))
        else Some (Source_Remove, deliveries [e], dp_plugin d))"
      using got c oe h acks by (cases keep; cases ack) (simp_all add: signal_core_poll_event_def Let_def)
    moreover obtain r acks1 pc2 where "poll_loop n failed vws rss (dp_plugin d) = Some (r, acks1, pc2)" "polled_ok n ?q1 (r, acks1, pc2)"
      using Suc.IH [OF q q1] Suc.prems(3) by auto
    ultimately show ?thesis
      using polled_ok_Cons [of n ?q1 r acks1 pc2 q e] polled_ok_last [OF q q1, of q e n] got(1) by (cases keep) simp_all
  qed
qed


end
