(* ===== verification/Plugin_Send.thy ===== *)
theory Plugin_Send
  imports Plugin_Transfers
begin

section \<open>What the user does (src/connection.c, src/connection\_transfers.c)\<close>

text \<open>
  The functions libpurple calls for the user: messages, typing, files, chats and the menus of the buddy list. A chat is known to libpurple by
  the number the plugin has given its group. The text without its markup (\<open>strip\<close>), the state of the conversation and a new
  transfer are given by libpurple. The results show that a message is queued in the core exactly when libpurple is told so, under the conditions
  of a group, and that a number never comes to mean another group.
\<close>

subsection \<open>Messages\<close>

datatype errno = ENOTCONN | EAGAIN | EINVAL | EIO | E2BIG | ENOENT

definition signal_status_to_errno :: "signal_status \<Rightarrow> errno + nat" where
  "signal_status_to_errno status =
     (case status of
        Status_Ok \<Rightarrow> Inr 1
      | Not_Ready \<Rightarrow> Inl ENOTCONN
      | Queue_Full \<Rightarrow> Inl EAGAIN
      | Invalid_Argument \<Rightarrow> Inl EINVAL
      | _ \<Rightarrow> Inl EIO)"

definition SIGNAL_CORE_MAX_RECIPIENT_BYTES :: usize where
  "SIGNAL_CORE_MAX_RECIPIENT_BYTES = 256"

definition SIGNAL_CORE_MAX_MESSAGE_BYTES :: usize where
  "SIGNAL_CORE_MAX_MESSAGE_BYTES = 64 * 1024"

definition signal_plaintext_from_markup :: "(string \<Rightarrow> string) \<Rightarrow> string option \<Rightarrow> string option" where
  "signal_plaintext_from_markup strip markup = map_option strip markup"

text \<open>The check of a text and the call of the core with it.\<close>

definition send_plain ::
  "(string \<Rightarrow> string) \<Rightarrow> string option \<Rightarrow> (string \<Rightarrow> signal_core ptr \<Rightarrow> u64 \<Rightarrow> signal_status \<times> signal_core ptr) \<Rightarrow> plugin \<Rightarrow>
     (errno + nat) \<times> plugin" where
  "send_plain strip message call pc =
     (case signal_plaintext_from_markup strip message of
        None \<Rightarrow> (Inl EINVAL, pc)
      | Some plain \<Rightarrow>
          if SIGNAL_CORE_MAX_MESSAGE_BYTES < length (c_bytes plain) then (Inl E2BIG, pc)
          else apfst signal_status_to_errno (next_request (call plain) pc))"

definition signal_send_im :: "(string \<Rightarrow> string) \<Rightarrow> string option \<Rightarrow> string option \<Rightarrow> plugin \<Rightarrow> (errno + nat) \<times> plugin" where
  "signal_send_im strip who message pc =
     (if pc_closing pc then (Inl ENOTCONN, pc)
      else
        case who of
          None \<Rightarrow> (Inl EINVAL, pc)
        | Some w \<Rightarrow>
            if c_bytes w = [] \<or> SIGNAL_CORE_MAX_RECIPIENT_BYTES < length (c_bytes w) then (Inl EINVAL, pc)
            else send_plain strip message (\<lambda>plain core i. signal_core_send_message core i who (Some plain)) pc)"

definition signal_send_typing :: "string option \<Rightarrow> bool \<Rightarrow> plugin \<Rightarrow> plugin" where
  "signal_send_typing who typing pc =
     (if pc_closing pc then pc
      else snd (next_request (\<lambda>core i. signal_core_set_typing core i who (if typing then 1 else 0)) pc))"

definition signal_reset_session :: "string option \<Rightarrow> plugin \<Rightarrow> plugin" where
  "signal_reset_session peer pc =
     (if pc_closing pc \<or> peer = None then pc else snd (next_request (\<lambda>core i. signal_core_reset_session core i peer) pc))"

text \<open>\<open>joined\<close>: the conversation of the group is there and has not been left.\<close>

definition signal_chat_send ::
  "(string \<Rightarrow> string) \<Rightarrow> bool \<Rightarrow> u32 \<Rightarrow> string option \<Rightarrow> plugin \<Rightarrow> (errno + nat) \<times> plugin" where
  "signal_chat_send strip joined i message pc =
     (if pc_closing pc then (Inl ENOTCONN, pc)
      else
        let gk = pc_group_keys_by_id pc i
        in if \<not> signal_group_can_send pc gk then (Inl ENOENT, pc)
           else if \<not> joined then (Inl ENOENT, pc)
           else send_plain strip message (\<lambda>plain core i. signal_core_send_group_message core i gk (Some plain)) pc)"

subsection \<open>Files\<close>

definition signal_can_receive_file :: "string option \<Rightarrow> plugin \<Rightarrow> bool" where
  "signal_can_receive_file who pc \<longleftrightarrow> \<not> pc_closing pc \<and> nonempty who"

definition signal_new_xfer :: "nat option \<Rightarrow> string option \<Rightarrow> plugin \<Rightarrow> nat option \<times> plugin" where
  "signal_new_xfer xfer who pc = signal_new_attachment_xfer xfer who who False pc"

definition signal_chat_can_receive_file :: "u32 \<Rightarrow> plugin \<Rightarrow> bool" where
  "signal_chat_can_receive_file i pc \<longleftrightarrow> \<not> pc_closing pc \<and> signal_group_can_send pc (pc_group_keys_by_id pc i)"

definition signal_chat_send_file :: "nat option \<Rightarrow> u32 \<Rightarrow> plugin \<Rightarrow> nat option \<times> plugin" where
  "signal_chat_send_file xfer i pc =
     (if \<not> signal_chat_can_receive_file i pc then (None, pc)
      else
        let gk = pc_group_keys_by_id pc i
        in signal_new_attachment_xfer xfer (Some (signal_group_title pc (the gk))) gk True pc)"

subsection \<open>Chats and menus\<close>

definition SIGNAL_GROUP_COMPONENT_KEY :: string where
  "SIGNAL_GROUP_COMPONENT_KEY = ''group-id''"

definition SIGNAL_LEGACY_GROUP_COMPONENT_KEY :: string where
  "SIGNAL_LEGACY_GROUP_COMPONENT_KEY = ''group-key''"

text \<open>The component of a chat that names its group.\<close>

definition chat_component :: "(string \<rightharpoonup> string) \<Rightarrow> string option" where
  "chat_component components =
     (case components SIGNAL_GROUP_COMPONENT_KEY of
        Some gk \<Rightarrow> Some gk
      | None \<Rightarrow> components SIGNAL_LEGACY_GROUP_COMPONENT_KEY)"

definition signal_chat_info_defaults :: "string option \<Rightarrow> string \<rightharpoonup> string" where
  "signal_chat_info_defaults chat_name =
     (if nonempty chat_name then [SIGNAL_GROUP_COMPONENT_KEY \<mapsto> the chat_name] else Map.empty)"

definition signal_get_chat_name :: "(string \<rightharpoonup> string) option \<Rightarrow> string" where
  "signal_get_chat_name components =
     (case Option.bind components chat_component of Some gk \<Rightarrow> gk | None \<Rightarrow> [])"

definition signal_chat_buddy_alias :: "string option \<Rightarrow> string option \<Rightarrow> plugin \<Rightarrow> string option" where
  "signal_chat_buddy_alias account_alias who pc =
     (if who = None \<or> pc_local_aci pc = None \<or> who \<noteq> pc_local_aci pc then None
      else
        let alias = (if nonempty account_alias then account_alias else pc_remote_profile_name pc)
        in if nonempty alias then alias else None)"

datatype menu_action = Menu_Leave_Group | Menu_Accept_Identity | Menu_Reset_Session

text \<open>The menus of a chat and of a buddy of this protocol; \<open>managed\<close> is the mark of a synchronized chat.\<close>

definition signal_chat_menu :: "bool \<Rightarrow> string option \<Rightarrow> plugin \<Rightarrow> menu_action list" where
  "signal_chat_menu managed gk pc =
     (if \<not> managed \<or> pc_closing pc \<or> \<not> signal_group_is_active pc gk \<or> the gk \<in> set (pc_pending_group_leaves pc) \<or>
         the gk \<in> set (pc_group_leave_requests pc)
      then [] else [Menu_Leave_Group])"

definition signal_buddy_menu :: "string \<Rightarrow> plugin \<Rightarrow> menu_action list" where
  "signal_buddy_menu name pc =
     (if pc_closing pc then []
      else (if name \<in> set (pc_pending_identity_changes pc) then [Menu_Accept_Identity] else []) @ [Menu_Reset_Session])"

section \<open>A message is queued when libpurple is told so\<close>

lemma required_string_Inr: "required_string (Some v) n = Inr s \<Longrightarrow> s = c_bytes v"
  by (auto simp: required_string_def Let_def split: if_splits)

lemma send_message_effect:
  "case signal_core_send_message core i (Some w) (Some t) of (status, core1) \<Rightarrow>
     if status = Status_Ok
     then case core of None \<Rightarrow> False | Some c \<Rightarrow> co_ready c \<and>
       core1 = Some (c\<lparr>co_commands := slot_send (Send_Message i (c_bytes w) (c_bytes t)) (co_commands c)\<rparr>)
     else core1 = core"
  by (auto simp: signal_core_send_message_def with_core_def status_try_def queue_command_def queue_control_command_def
      required_string_refuses split: option.split sum.split send_result.split dest!: required_string_Inr)

lemma send_group_message_effect:
  "case signal_core_send_group_message core i (Some g) (Some t) of (status, core1) \<Rightarrow>
     if status = Status_Ok
     then case core of None \<Rightarrow> False | Some c \<Rightarrow> co_ready c \<and>
       core1 = Some (c\<lparr>co_commands := slot_send (Send_Group_Message i (c_bytes g) (c_bytes t)) (co_commands c)\<rparr>)
     else core1 = core"
  by (auto simp: signal_core_send_group_message_def with_core_def status_try_def queue_command_def queue_control_command_def
      required_string_refuses split: option.split sum.split send_result.split dest!: required_string_Inr)

lemma errno_sent: "signal_status_to_errno status = Inr (Suc 0) \<longleftrightarrow> status = Status_Ok"
  by (cases status) (simp_all add: signal_status_to_errno_def)

text \<open>The core after a call whose effect is the command, or nothing.\<close>

definition queued_or_kept :: "(u64 \<Rightarrow> command) \<Rightarrow> (errno + nat) \<times> plugin \<Rightarrow> plugin \<Rightarrow> bool" where
  "queued_or_kept command result pc \<longleftrightarrow>
     (if fst result = Inr 1
      then case pc_core pc of
             None \<Rightarrow> False
           | Some c \<Rightarrow> co_ready c \<and> pc_core (snd result) =
               Some (c\<lparr>co_commands := slot_send (command (pc_next_request_id pc)) (co_commands c)\<rparr>)
      else pc_core (snd result) = pc_core pc)"

lemma next_request_queued:
  assumes "case call (pc_core pc) (pc_next_request_id pc) of (status, core1) \<Rightarrow>
    if status = Status_Ok
    then case pc_core pc of None \<Rightarrow> False | Some c \<Rightarrow> co_ready c \<and>
      core1 = Some (c\<lparr>co_commands := slot_send (command (pc_next_request_id pc)) (co_commands c)\<rparr>)
    else core1 = pc_core pc"
  shows "queued_or_kept command (apfst signal_status_to_errno (next_request call pc)) pc"
  using assms by (auto simp: queued_or_kept_def next_request_def errno_sent split: prod.splits if_splits option.splits)

lemma refused_kept: "queued_or_kept command (Inl e, pc) pc"
  by (simp add: queued_or_kept_def)

lemma send_plain_queued:
  assumes "\<And>plain. case call plain (pc_core pc) (pc_next_request_id pc) of (status, core1) \<Rightarrow>
    if status = Status_Ok
    then case pc_core pc of None \<Rightarrow> False | Some c \<Rightarrow> co_ready c \<and>
      core1 = Some (c\<lparr>co_commands := slot_send (command plain (pc_next_request_id pc)) (co_commands c)\<rparr>)
    else core1 = pc_core pc"
  shows "queued_or_kept (command (strip (the message))) (send_plain strip message call pc) pc"
proof (cases message)
  case (Some t)
  have "queued_or_kept (command (strip t)) (apfst signal_status_to_errno (next_request (call (strip t)) pc)) pc"
    using assms [of "strip t"] by (rule next_request_queued)
  then show ?thesis by (simp add: send_plain_def signal_plaintext_from_markup_def Some refused_kept)
qed (simp add: send_plain_def signal_plaintext_from_markup_def refused_kept)

text \<open>
  C16. When libpurple is told that a message was sent, the core was ready and has exactly one more command: the message without its markup, to the
  recipient, or to the group the chat stands for, which is then active after a complete snapshot, joined and not being left. When libpurple is told
  an error, the core is as before.
\<close>

theorem messages_queued_as_told:
  "queued_or_kept (\<lambda>i. Send_Message i (c_bytes (the who)) (c_bytes (strip (the message)))) (signal_send_im strip who message pc) pc \<and>
   queued_or_kept (\<lambda>i. Send_Group_Message i (c_bytes (the (pc_group_keys_by_id pc n))) (c_bytes (strip (the message))))
     (signal_chat_send strip joined n message pc) pc \<and>
   (if fst (signal_chat_send strip joined n message pc) = Inr 1
    then joined \<and> pc_group_snapshot_complete pc \<and>
         (case pc_group_keys_by_id pc n of
            None \<Rightarrow> False
          | Some gk \<Rightarrow> gk \<in> set (pc_active_group_keys pc) \<and> gk \<notin> set (pc_pending_group_leaves pc))
    else True)"
proof (intro conjI)
  show "queued_or_kept (\<lambda>i. Send_Message i (c_bytes (the who)) (c_bytes (strip (the message)))) (signal_send_im strip who message pc) pc"
  proof (cases who)
    case (Some w)
    have "queued_or_kept (\<lambda>i. Send_Message i (c_bytes w) (c_bytes (strip (the message))))
        (send_plain strip message (\<lambda>plain core i. signal_core_send_message core i (Some w) (Some plain)) pc) pc"
      by (rule send_plain_queued) (rule send_message_effect)
    then show ?thesis by (simp add: signal_send_im_def Some refused_kept)
  qed (simp add: signal_send_im_def refused_kept)
  show "queued_or_kept (\<lambda>i. Send_Group_Message i (c_bytes (the (pc_group_keys_by_id pc n))) (c_bytes (strip (the message))))
      (signal_chat_send strip joined n message pc) pc"
  proof (cases "pc_group_keys_by_id pc n")
    case (Some gk)
    have "queued_or_kept (\<lambda>i. Send_Group_Message i (c_bytes gk) (c_bytes (strip (the message))))
        (send_plain strip message (\<lambda>plain core i. signal_core_send_group_message core i (Some gk) (Some plain)) pc) pc"
      by (rule send_plain_queued) (rule send_group_message_effect)
    then show ?thesis by (simp add: signal_chat_send_def Some refused_kept Let_def)
  qed (simp add: signal_chat_send_def refused_kept Let_def signal_group_can_send_def signal_group_is_active_def)
  show "if fst (signal_chat_send strip joined n message pc) = Inr 1
    then joined \<and> pc_group_snapshot_complete pc \<and>
         (case pc_group_keys_by_id pc n of
            None \<Rightarrow> False
          | Some gk \<Rightarrow> gk \<in> set (pc_active_group_keys pc) \<and> gk \<notin> set (pc_pending_group_leaves pc))
    else True"
    by (auto simp: signal_chat_send_def signal_group_can_send_def signal_group_is_active_def Let_def split: option.splits)
qed

section \<open>A number never comes to mean another group\<close>

text \<open>The two operations that change the numbers of groups, in any order.\<close>

datatype number_op = N_Open string "string option" | N_Forget string

primrec number_exec :: "number_op \<Rightarrow> plugin \<Rightarrow> plugin" where
  "number_exec (N_Open gk title) pc = snd (signal_group_id gk title pc)"
| "number_exec (N_Forget gk) pc = signal_deactivate_group gk pc"

definition numbers_inv :: "nat \<Rightarrow> plugin \<Rightarrow> bool" where
  "numbers_inv n pc \<longleftrightarrow>
     unat (pc_next_group_id pc) \<le> n + 1 \<and>
     (\<forall>i k. pc_group_keys_by_id pc i = Some k \<longleftrightarrow> pc_group_ids_by_key pc k = Some i) \<and>
     (\<forall>i k. pc_group_keys_by_id pc i = Some k \<longrightarrow> i < pc_next_group_id pc)"

text \<open>What one operation does to the numbers: nothing, a new number, or a number less.\<close>

lemma number_exec_cases:
  obtains (kept) "pc_group_keys_by_id (number_exec x pc) = pc_group_keys_by_id pc"
      "pc_group_ids_by_key (number_exec x pc) = pc_group_ids_by_key pc" "pc_next_group_id (number_exec x pc) = pc_next_group_id pc"
  | (new) k where "pc_group_ids_by_key pc k = None"
      "pc_group_keys_by_id (number_exec x pc) = (pc_group_keys_by_id pc)(pc_next_group_id pc \<mapsto> k)"
      "pc_group_ids_by_key (number_exec x pc) = (pc_group_ids_by_key pc)(k \<mapsto> pc_next_group_id pc)"
      "pc_next_group_id (number_exec x pc) = pc_next_group_id pc + 1"
  | (less) k i where "pc_group_ids_by_key pc k = Some i" "pc_group_keys_by_id (number_exec x pc) = (pc_group_keys_by_id pc)(i := None)"
      "pc_group_ids_by_key (number_exec x pc) = (pc_group_ids_by_key pc)(k := None)"
      "pc_next_group_id (number_exec x pc) = pc_next_group_id pc"
proof (cases x)
  case (N_Open k title)
  show ?thesis
  proof (cases "pc_group_ids_by_key pc k")
    case None
    then show ?thesis using new [of k] N_Open by (simp add: signal_group_id_def Let_def)
  next
    case (Some i)
    then show ?thesis using kept N_Open by (simp add: signal_group_id_def)
  qed
next
  case (N_Forget k)
  show ?thesis
  proof (cases "k = [] \<or> pc_group_ids_by_key pc k = None")
    case True
    then show ?thesis
      using kept N_Forget
      by (auto simp: signal_deactivate_group_def signal_remove_group_pending_reads_def clear_read_warning_def Let_def)
  next
    case False
    then obtain i where "pc_group_ids_by_key pc k = Some i" by auto
    then show ?thesis
      using False less [of k i] N_Forget
      by (simp add: signal_deactivate_group_def signal_remove_group_pending_reads_def clear_read_warning_def Let_def)
  qed
qed

lemma next_number_greater: "unat (w :: u32) < 2 ^ 32 - 1 \<Longrightarrow> unat (w + 1) = unat w + 1 \<and> w < w + 1"
  by (simp add: word_less_nat_alt unat_word_ariths)

lemma number_exec_inv:
  assumes "numbers_inv n pc" "n + 1 < 2 ^ 32 - 1"
  shows "numbers_inv (n + 1) (number_exec x pc)"
proof (cases rule: number_exec_cases [of x pc])
  case kept
  then show ?thesis using assms(1) by (simp add: numbers_inv_def)
next
  case (new k)
  have "unat (pc_next_group_id pc) < 2 ^ 32 - 1" using assms by (simp add: numbers_inv_def)
  note up = next_number_greater [OF this]
  have fresh: "pc_group_keys_by_id pc (pc_next_group_id pc) = None" "\<And>k. pc_group_ids_by_key pc k \<noteq> Some (pc_next_group_id pc)"
    using assms(1) unfolding numbers_inv_def by (metis less_irrefl not_None_eq)+
  show ?thesis
    unfolding numbers_inv_def new(2-4)
    using assms(1) new(1) fresh up unfolding numbers_inv_def by (auto, metis order.strict_trans)
next
  case (less k i)
  then show ?thesis using assms(1) unfolding numbers_inv_def by (auto split: if_splits) (metis option.inject)
qed

lemma numbers_run:
  "numbers_inv n pc \<Longrightarrow> n + length ops < 2 ^ 32 - 1 \<Longrightarrow> numbers_inv (n + length ops) (fold number_exec ops pc)"
proof (induction ops arbitrary: n pc)
  case (Cons x ops)
  have "numbers_inv (n + 1) (number_exec x pc)" using number_exec_inv Cons.prems by simp
  from Cons.IH [OF this] show ?case using Cons.prems(2) by simp
qed simp

text \<open>A number already given out keeps its group or loses it.\<close>

lemma number_kept:
  assumes "numbers_inv n pc" "n + length ops < 2 ^ 32 - 1" "i < pc_next_group_id pc"
  shows "pc_group_keys_by_id (fold number_exec ops pc) i \<in> {None, pc_group_keys_by_id pc i}"
  using assms
proof (induction ops arbitrary: n pc)
  case (Cons x ops)
  have inv: "numbers_inv (n + 1) (number_exec x pc)" using number_exec_inv Cons.prems by simp
  have "unat (pc_next_group_id pc) < 2 ^ 32 - 1" using Cons.prems by (simp add: numbers_inv_def)
  note up = next_number_greater [OF this]
  have "i < pc_next_group_id (number_exec x pc)" "pc_group_keys_by_id (number_exec x pc) i \<in> {None, pc_group_keys_by_id pc i}"
    by (cases rule: number_exec_cases [of x pc]; use Cons.prems(3) up in \<open>auto intro: less_trans\<close>)+
  then show ?case using Cons.IH [OF inv] Cons.prems(2) by auto
qed simp

text \<open>
  C17. Over fewer than 2^32 - 1 groups opened and forgotten in any order, the numbers and the groups of the plugin determine each other, and
  a number once given to a group denotes that group or none at every later time: a message typed into a chat never goes to another group.
\<close>

theorem chat_numbers_stable:
  "let pc1 = fold number_exec ops (signal_connection_new core); pc2 = fold number_exec later pc1
   in if length ops + length later < 2 ^ 32 - 2
      then (pc_group_keys_by_id pc1 i = Some k) = (pc_group_ids_by_key pc1 k = Some i) \<and>
           (case pc_group_keys_by_id pc1 i of
              None \<Rightarrow> True
            | Some gk \<Rightarrow> pc_group_keys_by_id pc2 i = None \<or> pc_group_keys_by_id pc2 i = Some gk)
      else True"
proof -
  define pc1 where "pc1 = fold number_exec ops (signal_connection_new core)"
  have start: "numbers_inv 0 (signal_connection_new core)" by (simp add: numbers_inv_def signal_connection_new_def)
  show ?thesis
  proof (cases "length ops + length later < 2 ^ 32 - 2")
    case True
    then have inv: "numbers_inv (length ops) pc1" using numbers_run [OF start, of ops] by (simp add: pc1_def)
    have same: "(pc_group_keys_by_id pc1 i = Some k) = (pc_group_ids_by_key pc1 k = Some i)" using inv by (simp add: numbers_inv_def)
    have "pc_group_keys_by_id (fold number_exec later pc1) i \<in> {None, Some gk}" if "pc_group_keys_by_id pc1 i = Some gk" for gk
      using number_kept [OF inv, of later i] inv True that by (auto simp: numbers_inv_def)
    then show ?thesis unfolding pc1_def [symmetric] Let_def using same by (auto split: option.split)
  next
    case False
    then show ?thesis unfolding Let_def by (simp only: if_False)
  qed
qed

end
