(* ===== verification/Plugin_Chats.thy ===== *)
theory Plugin_Chats
  imports Plugin_Send
begin

section \<open>The chats of the buddy list (src/group\_sync.c, src/blist\_sync.c, src/connection.c)\<close>

text \<open>
  The saved chats of libpurple's buddy list and what the plugin does with them: finding the chat of a group, removing duplicates, moving a
  chat out of the group older versions used, following the title, and removing the chats of groups that are gone. Chats the
  user has made carry no mark of the plugin. Nodes are given by a number for their address; where libpurple puts a chat among the others is
  an argument. The result is that the marked chats follow a snapshot of groups while the chats of the user stay as they are.
\<close>

record chat_node =
  bl_node :: nat
  bl_account :: nat
  bl_components :: "string \<rightharpoonup> string"
  bl_managed :: bool
  bl_alias :: "string option"
  bl_synced_title :: "string option"
  bl_group :: string

text \<open>The chats in the order of the list, the names of the groups, and the groups of the contacts.\<close>

record buddy_list =
  bt_chats :: "chat_node list"
  bt_groups :: "string list"
  bt_contacts :: "string list"

text \<open>
  What libpurple decides: the name it shows for a chat, the alias it keeps for a title, the group it puts a chat in by default, and the
  place of a chat in the list.
\<close>

record purple_list =
  lp_name :: "chat_node \<Rightarrow> string option"
  lp_alias :: "string \<Rightarrow> string"
  lp_default_group :: string
  lp_place :: "chat_node \<Rightarrow> buddy_list \<Rightarrow> nat"

definition SIGNAL_LEGACY_CHAT_GROUP :: string where
  "SIGNAL_LEGACY_CHAT_GROUP = ''Signal groups''"

subsection \<open>Finding and removing\<close>

definition signal_group_sync_chat_id :: "chat_node \<Rightarrow> string option" where
  "signal_group_sync_chat_id chat = chat_component (bl_components chat)"

definition signal_chat_matches :: "nat \<Rightarrow> string \<Rightarrow> chat_node \<Rightarrow> bool" where
  "signal_chat_matches account gk chat \<longleftrightarrow> bl_account chat = account \<and> signal_group_sync_chat_id chat = Some gk"

definition better_chat :: "nat \<Rightarrow> string \<Rightarrow> chat_node \<Rightarrow> chat_node option \<Rightarrow> chat_node option" where
  "better_chat account gk candidate selected =
     (if \<not> signal_chat_matches account gk candidate then selected
      else
        case selected of
          None \<Rightarrow> Some candidate
        | Some s \<Rightarrow> if bl_managed s \<and> \<not> bl_managed candidate then Some candidate else selected)"

definition signal_group_sync_lookup_chat :: "nat \<Rightarrow> string \<Rightarrow> buddy_list \<Rightarrow> chat_node option" where
  "signal_group_sync_lookup_chat account gk bl = (if gk = [] then None else fold (better_chat account gk) (bt_chats bl) None)"

definition signal_blist_sync_remove_empty_legacy_chat_group :: "buddy_list \<Rightarrow> buddy_list" where
  "signal_blist_sync_remove_empty_legacy_chat_group bl =
     (if SIGNAL_LEGACY_CHAT_GROUP \<in> set (bt_groups bl) \<and>
         \<not> list_ex (\<lambda>c. bl_group c = SIGNAL_LEGACY_CHAT_GROUP) (bt_chats bl) \<and> SIGNAL_LEGACY_CHAT_GROUP \<notin> set (bt_contacts bl)
      then bl\<lparr>bt_groups := remove1 SIGNAL_LEGACY_CHAT_GROUP (bt_groups bl)\<rparr> else bl)"

text \<open>One chat is removed, and the group of older versions with its last chat.\<close>

definition remove_chat :: "chat_node \<Rightarrow> buddy_list \<Rightarrow> buddy_list" where
  "remove_chat chat bl =
     (let bl1 = bl\<lparr>bt_chats := filter (\<lambda>c. bl_node c \<noteq> bl_node chat) (bt_chats bl)\<rparr>
      in if bl_group chat = SIGNAL_LEGACY_CHAT_GROUP then signal_blist_sync_remove_empty_legacy_chat_group bl1 else bl1)"

definition remove_chats :: "(chat_node \<Rightarrow> bool) \<Rightarrow> buddy_list \<Rightarrow> buddy_list" where
  "remove_chats unwanted bl = fold remove_chat (filter unwanted (bt_chats bl)) bl"

definition signal_group_sync_find_chat :: "nat \<Rightarrow> string \<Rightarrow> buddy_list \<Rightarrow> chat_node option \<times> buddy_list" where
  "signal_group_sync_find_chat account gk bl =
     (if gk = [] then (None, bl)
      else
        let selected = signal_group_sync_lookup_chat account gk bl
        in (selected,
            remove_chats (\<lambda>c. map_option bl_node selected \<noteq> Some (bl_node c) \<and> bl_managed c \<and> signal_chat_matches account gk c) bl))"

definition signal_group_sync_remove_managed_chats :: "nat \<Rightarrow> string \<Rightarrow> buddy_list \<Rightarrow> buddy_list" where
  "signal_group_sync_remove_managed_chats account gk bl =
     (if gk = [] then bl else remove_chats (\<lambda>c. bl_managed c \<and> signal_chat_matches account gk c) bl)"

subsection \<open>Adding and moving\<close>

text \<open>\<^verbatim>\<open>purple_blist_add_chat\<close> with no group and no place: libpurple chooses both.\<close>

definition put_chat :: "purple_list \<Rightarrow> chat_node \<Rightarrow> buddy_list \<Rightarrow> buddy_list" where
  "put_chat lp chat bl =
     (let cs = filter (\<lambda>c. bl_node c \<noteq> bl_node chat) (bt_chats bl); n = lp_place lp chat bl
      in bl\<lparr>bt_chats := take n cs @ chat\<lparr>bl_group := lp_default_group lp\<rparr> # drop n cs,
            bt_groups := table_add (lp_default_group lp) (bt_groups bl)\<rparr>)"

definition signal_blist_sync_migrate_chat :: "purple_list \<Rightarrow> chat_node \<Rightarrow> buddy_list \<Rightarrow> buddy_list" where
  "signal_blist_sync_migrate_chat lp chat bl =
     (if \<not> bl_managed chat \<or> bl_group chat \<noteq> SIGNAL_LEGACY_CHAT_GROUP then bl
      else signal_blist_sync_remove_empty_legacy_chat_group (put_chat lp chat bl))"

definition fresh_node :: "buddy_list \<Rightarrow> nat" where
  "fresh_node bl = Suc (fold max (map bl_node (bt_chats bl)) 0)"

definition signal_blist_sync_add_chat :: "purple_list \<Rightarrow> chat_node \<Rightarrow> buddy_list \<Rightarrow> buddy_list" where
  "signal_blist_sync_add_chat lp chat bl = put_chat lp (chat\<lparr>bl_managed := True\<rparr>) bl"

subsection \<open>The title\<close>

definition follows_signal_title :: "purple_list \<Rightarrow> string \<Rightarrow> string \<Rightarrow> chat_node \<Rightarrow> bool" where
  "follows_signal_title lp gk title chat \<longleftrightarrow>
     \<not> nonempty (lp_name lp chat) \<or> lp_name lp chat = Some gk \<or>
     (case bl_synced_title chat of
        Some previous \<Rightarrow> lp_name lp chat = Some previous
      | None \<Rightarrow> lp_name lp chat = Some title)"

definition signal_group_sync_update_title :: "purple_list \<Rightarrow> string \<Rightarrow> string \<Rightarrow> chat_node \<Rightarrow> chat_node" where
  "signal_group_sync_update_title lp gk title chat =
     (if gk = [] \<or> title = [] then chat
      else if follows_signal_title lp gk title chat then chat\<lparr>bl_alias := Some (lp_alias lp title), bl_synced_title := Some title\<rparr>
      else chat\<lparr>bl_synced_title := Some title\<rparr>)"

definition update_chat :: "nat \<Rightarrow> (chat_node \<Rightarrow> chat_node) \<Rightarrow> buddy_list \<Rightarrow> buddy_list" where
  "update_chat node f bl = bl\<lparr>bt_chats := map (\<lambda>c. if bl_node c = node then f c else c) (bt_chats bl)\<rparr>"

definition signal_group_display_title :: "purple_list \<Rightarrow> nat \<Rightarrow> plugin \<Rightarrow> buddy_list \<Rightarrow> string \<Rightarrow> string" where
  "signal_group_display_title lp account pc bl gk =
     (let title = Option.bind (signal_group_sync_lookup_chat account gk bl) (lp_name lp)
      in if nonempty title \<and> title \<noteq> Some gk then the title else signal_group_title pc gk)"

subsection \<open>What the events of a snapshot do to the list\<close>

text \<open>The part of \<^verbatim>\<open>signal_add_group\<close> on the buddy list; \<open>title\<close> is that of the group after \<^verbatim>\<open>signal_group_id\<close>.\<close>

definition new_group_chat :: "purple_list \<Rightarrow> nat \<Rightarrow> string \<Rightarrow> string \<Rightarrow> buddy_list \<Rightarrow> chat_node" where
  "new_group_chat lp account gk title bl =
     \<lparr>bl_node = fresh_node bl, bl_account = account, bl_components = [SIGNAL_GROUP_COMPONENT_KEY \<mapsto> gk], bl_managed = False,
      bl_alias = Some (lp_alias lp title), bl_synced_title = None, bl_group = lp_default_group lp\<rparr>"

definition blist_add_group :: "purple_list \<Rightarrow> nat \<Rightarrow> string \<Rightarrow> string \<Rightarrow> buddy_list \<Rightarrow> buddy_list" where
  "blist_add_group lp account gk title bl =
     (case signal_group_sync_find_chat account gk bl of
        (Some chat, bl1) \<Rightarrow>
          let bl2 = signal_blist_sync_migrate_chat lp chat bl1
          in if bl_managed chat then update_chat (bl_node chat) (signal_group_sync_update_title lp gk title) bl2 else bl2
      | (None, bl1) \<Rightarrow>
          let chat = new_group_chat lp account gk title bl1
          in update_chat (bl_node chat) (signal_group_sync_update_title lp gk title) (signal_blist_sync_add_chat lp chat bl1))"

text \<open>The handlers of a group and of the end of a snapshot, on the tables of the plugin and on the list.\<close>

definition add_group_listed :: "purple_list \<Rightarrow> nat \<Rightarrow> event \<Rightarrow> plugin \<times> buddy_list \<Rightarrow> plugin \<times> buddy_list" where
  "add_group_listed lp account e = (\<lambda>(pc, bl).
     let pc1 = signal_add_group e pc
     in (pc1,
         if nonempty (ev_chat_id e) then blist_add_group lp account (the (ev_chat_id e)) (signal_group_title pc1 (the (ev_chat_id e))) bl
         else bl))"

definition end_group_sync_listed :: "nat \<Rightarrow> (string \<Rightarrow> nat) \<Rightarrow> bool \<Rightarrow> plugin \<times> buddy_list \<Rightarrow> plugin \<times> buddy_list" where
  "end_group_sync_listed account rank authoritative = (\<lambda>(pc, bl).
     (signal_end_group_sync rank authoritative pc,
      if authoritative
      then remove_chats (\<lambda>c. bl_account c = account \<and> bl_managed c \<and>
             signal_contact_sync_should_remove (pc_group_sync pc) (signal_group_sync_chat_id c)) bl
      else bl))"

text \<open>\<^verbatim>\<open>signal_deactivate_group\<close> of a group the account has left.\<close>

definition deactivate_group_listed :: "nat \<Rightarrow> string \<Rightarrow> plugin \<times> buddy_list \<Rightarrow> plugin \<times> buddy_list" where
  "deactivate_group_listed account gk = (\<lambda>(pc, bl). (signal_deactivate_group gk pc, signal_group_sync_remove_managed_chats account gk bl))"

section \<open>The marked chats follow a snapshot\<close>

text \<open>The chats the plugin may change for a group.\<close>

definition marked_for :: "nat \<Rightarrow> string \<Rightarrow> chat_node \<Rightarrow> bool" where
  "marked_for account gk c \<longleftrightarrow> bl_managed c \<and> signal_chat_matches account gk c"

abbreviation own_nodes :: "buddy_list \<Rightarrow> bool" where
  "own_nodes bl \<equiv> distinct (map bl_node (bt_chats bl))"

lemma legacy_group_chats [simp]: "bt_chats (signal_blist_sync_remove_empty_legacy_chat_group bl) = bt_chats bl"
  by (simp add: signal_blist_sync_remove_empty_legacy_chat_group_def)

lemma remove_chat_chats: "bt_chats (remove_chat chat bl) = filter (\<lambda>c. bl_node c \<noteq> bl_node chat) (bt_chats bl)"
  by (simp add: remove_chat_def Let_def)

lemma fold_remove_chat: "bt_chats (fold remove_chat xs bl) = filter (\<lambda>c. bl_node c \<notin> bl_node ` set xs) (bt_chats bl)"
  by (induction xs arbitrary: bl) (auto simp: remove_chat_chats intro!: filter_cong)

lemma remove_chats_chats: "own_nodes bl \<Longrightarrow> bt_chats (remove_chats P bl) = filter (\<lambda>c. \<not> P c) (bt_chats bl)"
  by (auto simp: remove_chats_def fold_remove_chat distinct_map inj_on_def intro!: filter_cong)

lemma distinct_nodes_filter: "distinct (map bl_node cs) \<Longrightarrow> distinct (map bl_node (filter P cs))"
  by (simp add: distinct_map inj_on_def)

lemma fold_better_chat:
  "case fold (better_chat account gk) cs selected of
     None \<Rightarrow> selected = None \<and> (\<forall>c\<in>set cs. \<not> signal_chat_matches account gk c)
   | Some c \<Rightarrow> selected = Some c \<or> c \<in> set cs \<and> signal_chat_matches account gk c"
proof (induction cs arbitrary: selected)
  case (Cons c cs)
  show ?case
    using Cons.IH [of "better_chat account gk c selected"]
    by (auto simp: better_chat_def split: option.splits if_splits)
qed (simp split: option.split)

lemma lookup_chat_None:
  "gk \<noteq> [] \<Longrightarrow> signal_group_sync_lookup_chat account gk bl = None \<Longrightarrow> \<forall>c\<in>set (bt_chats bl). \<not> signal_chat_matches account gk c"
  using fold_better_chat [where account = account and gk = gk and cs = "bt_chats bl" and selected = None] by (simp add: signal_group_sync_lookup_chat_def)

lemma lookup_chat_Some:
  "signal_group_sync_lookup_chat account gk bl = Some c \<Longrightarrow> c \<in> set (bt_chats bl) \<and> signal_chat_matches account gk c"
  using fold_better_chat [where account = account and gk = gk and cs = "bt_chats bl" and selected = None]
  by (auto simp: signal_group_sync_lookup_chat_def split: if_splits)

text \<open>A chat the list holds once is the only one with its node.\<close>

lemma filter_node:
  assumes "distinct (map bl_node cs)" "c \<in> set cs"
  shows "filter (\<lambda>d. bl_node d = bl_node c) cs = [c]"
  using assms
proof (induction cs)
  case (Cons a cs)
  show ?case
  proof (cases "a = c")
    case True
    then have "filter (\<lambda>d. bl_node d = bl_node c) cs = []" using Cons.prems(1) by (auto simp: filter_empty_conv image_iff)
    then show ?thesis using True by simp
  next
    case False
    then have "c \<in> set cs" "bl_node a \<noteq> bl_node c" using Cons.prems by (auto simp: image_iff)
    then show ?thesis using Cons by simp
  qed
qed simp

lemma find_chat_chats:
  assumes "own_nodes bl" "gk \<noteq> []" "signal_group_sync_find_chat account gk bl = (selected, bl1)"
  shows "selected = signal_group_sync_lookup_chat account gk bl"
    and "own_nodes bl1"
    and "filter (\<lambda>c. \<not> marked_for account gk c) (bt_chats bl1) = filter (\<lambda>c. \<not> marked_for account gk c) (bt_chats bl)"
    and "filter (marked_for account gk) (bt_chats bl1) = (case selected of Some c \<Rightarrow> if bl_managed c then [c] else [] | None \<Rightarrow> [])"
proof -
  define P where "P c \<longleftrightarrow> map_option bl_node selected \<noteq> Some (bl_node c) \<and> marked_for account gk c" for c
  show sel: "selected = signal_group_sync_lookup_chat account gk bl"
    using assms(2,3) by (simp add: signal_group_sync_find_chat_def Let_def)
  have cs: "bt_chats bl1 = filter (\<lambda>c. \<not> P c) (bt_chats bl)"
    using assms(2,3) sel remove_chats_chats [OF assms(1)]
    by (auto simp: signal_group_sync_find_chat_def Let_def P_def marked_for_def)
  show "own_nodes bl1" using assms(1) cs by (simp add: distinct_nodes_filter)
  show "filter (\<lambda>c. \<not> marked_for account gk c) (bt_chats bl1) = filter (\<lambda>c. \<not> marked_for account gk c) (bt_chats bl)"
    unfolding cs filter_filter by (rule filter_cong) (auto simp: P_def)
  show "filter (marked_for account gk) (bt_chats bl1) = (case selected of Some c \<Rightarrow> if bl_managed c then [c] else [] | None \<Rightarrow> [])"
  proof (cases selected)
    case None
    then show ?thesis
      using lookup_chat_None [OF assms(2)] sel by (auto simp: cs filter_empty_conv P_def marked_for_def)
  next
    case (Some c)
    then have c: "c \<in> set (bt_chats bl)" "signal_chat_matches account gk c" using lookup_chat_Some sel by simp_all
    have same: "d = c" if "d \<in> set (bt_chats bl)" "bl_node d = bl_node c" for d
      using assms(1) c(1) that by (auto simp: distinct_map inj_on_def)
    show ?thesis
    proof (cases "bl_managed c")
      case True
      then have "filter (marked_for account gk) (bt_chats bl1) = filter (\<lambda>d. bl_node d = bl_node c) (bt_chats bl)"
        unfolding cs filter_filter by (intro filter_cong) (use c Some same in \<open>auto simp: P_def marked_for_def\<close>)
      then show ?thesis using filter_node [OF assms(1) c(1)] Some True by simp
    next
      case False
      then have "filter (marked_for account gk) (bt_chats bl1) = []"
        unfolding cs filter_filter filter_empty_conv using Some same by (auto simp: P_def marked_for_def)
      then show ?thesis using Some False by simp
    qed
  qed
qed

text \<open>A chat put somewhere into the list.\<close>

lemma filter_insert_at:
  "filter P (take n cs @ c # drop n cs) = (if P c then filter P (take n cs) @ c # filter P (drop n cs) else filter P cs)"
  by (simp, simp flip: filter_append)

lemma distinct_insert_middle: "distinct (map f (xs @ c # ys)) = distinct (map f (c # xs @ ys))"
  by auto

lemma put_chat_chats:
  fixes lp :: purple_list and chat :: chat_node
  assumes "own_nodes bl"
  defines "c \<equiv> chat\<lparr>bl_group := lp_default_group lp\<rparr>" and "cs \<equiv> filter (\<lambda>c. bl_node c \<noteq> bl_node chat) (bt_chats bl)"
  shows "own_nodes (put_chat lp chat bl)"
    and "\<not> P c \<Longrightarrow> filter P (bt_chats (put_chat lp chat bl)) = filter P cs"
    and "P c \<Longrightarrow> filter P cs = [] \<Longrightarrow> filter P (bt_chats (put_chat lp chat bl)) = [c]"
proof -
  define n where "n = lp_place lp chat bl"
  have put: "bt_chats (put_chat lp chat bl) = take n cs @ c # drop n cs"
    by (simp add: put_chat_def Let_def c_def cs_def n_def)
  have "distinct (map bl_node (c # cs))" using assms(1) by (simp add: c_def cs_def distinct_nodes_filter image_iff)
  then have "distinct (map bl_node (c # take n cs @ drop n cs))" by (simp only: append_take_drop_id)
  then show "own_nodes (put_chat lp chat bl)" unfolding put by (simp only: distinct_insert_middle)
  show "filter P (bt_chats (put_chat lp chat bl)) = filter P cs" if "\<not> P c" using that by (simp only: put filter_insert_at if_False)
  show "filter P (bt_chats (put_chat lp chat bl)) = [c]" if "P c" "filter P cs = []"
  proof -
    have "filter P (take n cs) @ filter P (drop n cs) = []" using that(2) by (simp flip: filter_append)
    then show ?thesis using that(1) by (simp add: put)
  qed
qed

lemma marked_for_update [simp]:
  "marked_for account gk (c\<lparr>bl_group := g\<rparr>) = marked_for account gk c"
  "marked_for account gk (signal_group_sync_update_title lp gk' title c) = marked_for account gk c"
  "bl_node (signal_group_sync_update_title lp gk' title c) = bl_node c"
  by (simp_all add: marked_for_def signal_chat_matches_def signal_group_sync_chat_id_def signal_group_sync_update_title_def)

lemma update_chat_nodes [simp]:
  "map bl_node (bt_chats (update_chat n (signal_group_sync_update_title lp gk title) bl)) = map bl_node (bt_chats bl)"
  by (simp add: update_chat_def)

text \<open>A list with one marked chat, and that chat with its new title.\<close>

lemma update_chat_marked:
  fixes lp :: purple_list and title :: string
  assumes "own_nodes bl" "filter (marked_for account gk) (bt_chats bl) = [c]"
  defines "bl1 \<equiv> update_chat (bl_node c) (signal_group_sync_update_title lp gk title) bl"
  shows "filter (\<lambda>c. \<not> marked_for account gk c) (bt_chats bl1) = filter (\<lambda>c. \<not> marked_for account gk c) (bt_chats bl)"
    and "filter (marked_for account gk) (bt_chats bl1) = [signal_group_sync_update_title lp gk title c]"
proof -
  let ?g = "\<lambda>d. if bl_node d = bl_node c then signal_group_sync_update_title lp gk title d else d"
  have g: "marked_for account gk (?g d) = marked_for account gk d" for d by simp
  have cs: "bt_chats bl1 = map ?g (bt_chats bl)" by (simp add: bl1_def update_chat_def)
  have "c \<in> set (filter (marked_for account gk) (bt_chats bl))" using assms(2) by simp
  then have c: "c \<in> set (bt_chats bl)" "marked_for account gk c" by simp_all
  have same: "d = c" if "d \<in> set (bt_chats bl)" "bl_node d = bl_node c" for d
    using assms(1) c(1) that by (auto simp: distinct_map inj_on_def)
  have "filter (\<lambda>c. \<not> marked_for account gk c) (bt_chats bl1) = map ?g (filter (\<lambda>c. \<not> marked_for account gk c) (bt_chats bl))"
    by (simp only: cs filter_map comp_def g)
  also have "\<dots> = filter (\<lambda>c. \<not> marked_for account gk c) (bt_chats bl)"
    by (rule map_idI) (use same c(2) in auto)
  finally show "filter (\<lambda>c. \<not> marked_for account gk c) (bt_chats bl1) = filter (\<lambda>c. \<not> marked_for account gk c) (bt_chats bl)" .
  show "filter (marked_for account gk) (bt_chats bl1) = [signal_group_sync_update_title lp gk title c]"
    by (simp only: cs filter_map comp_def g assms(2)) simp
qed

lemma migrate_chat_marked:
  fixes lp :: purple_list
  assumes "own_nodes bl" "filter (marked_for account gk) (bt_chats bl) = [c]"
  defines "bl1 \<equiv> signal_blist_sync_migrate_chat lp c bl"
  shows "own_nodes bl1"
    and "filter (\<lambda>c. \<not> marked_for account gk c) (bt_chats bl1) = filter (\<lambda>c. \<not> marked_for account gk c) (bt_chats bl)"
    and "\<exists>d. filter (marked_for account gk) (bt_chats bl1) = [d] \<and> bl_node d = bl_node c"
proof -
  have "c \<in> set (filter (marked_for account gk) (bt_chats bl))" using assms(2) by simp
  then have c: "c \<in> set (bt_chats bl)" "marked_for account gk c" by simp_all
  have same: "d = c" if "d \<in> set (bt_chats bl)" "bl_node d = bl_node c" for d
    using assms(1) c(1) that by (auto simp: distinct_map inj_on_def)
  let ?cs = "filter (\<lambda>d. bl_node d \<noteq> bl_node c) (bt_chats bl)"
  have "set (filter (marked_for account gk) (bt_chats bl)) = {c}" using assms(2) by simp
  then have none: "filter (marked_for account gk) ?cs = []" by (auto simp: filter_empty_conv)
  have rest: "filter (\<lambda>c. \<not> marked_for account gk c) ?cs = filter (\<lambda>c. \<not> marked_for account gk c) (bt_chats bl)"
    unfolding filter_filter by (rule filter_cong) (use same c(2) in auto)
  note put = put_chat_chats [OF assms(1), where lp = lp and chat = c]
  have m: "marked_for account gk (c\<lparr>bl_group := lp_default_group lp\<rparr>)" using c(2) by simp
  show "own_nodes bl1" using put(1) assms(1) by (simp add: bl1_def signal_blist_sync_migrate_chat_def)
  show "filter (\<lambda>c. \<not> marked_for account gk c) (bt_chats bl1) = filter (\<lambda>c. \<not> marked_for account gk c) (bt_chats bl)"
    using put(2) [where P = "\<lambda>c. \<not> marked_for account gk c"] m rest by (simp add: bl1_def signal_blist_sync_migrate_chat_def)
  show "\<exists>d. filter (marked_for account gk) (bt_chats bl1) = [d] \<and> bl_node d = bl_node c"
    using put(3) [where P = "marked_for account gk"] m none assms(2) by (simp add: bl1_def signal_blist_sync_migrate_chat_def)
qed

lemma fresh_node_new: "c \<in> set (bt_chats bl) \<Longrightarrow> bl_node c \<noteq> fresh_node bl"
proof -
  have "m \<le> fold max ns m \<and> (\<forall>n\<in>set ns. n \<le> fold max ns m)" for ns and m :: nat
  proof (induction ns arbitrary: m)
    case (Cons n ns)
    show ?case using Cons.IH [of "max n m"] by auto
  qed simp
  from this [of 0 "map bl_node (bt_chats bl)"] show "c \<in> set (bt_chats bl) \<Longrightarrow> bl_node c \<noteq> fresh_node bl"
    by (auto simp: fresh_node_def)
qed

lemma new_group_chat_marked: "marked_for account gk ((new_group_chat lp account gk title bl)\<lparr>bl_managed := True\<rparr>)"
  by (simp add: new_group_chat_def marked_for_def signal_chat_matches_def signal_group_sync_chat_id_def chat_component_def)

lemma update_title_synced: "gk \<noteq> [] \<Longrightarrow> title \<noteq> [] \<Longrightarrow> bl_synced_title (signal_group_sync_update_title lp gk title c) = Some title"
  by (simp add: signal_group_sync_update_title_def)

text \<open>The list after a group of the snapshot: its own marked chats are one with its title, or none beside a chat of the user.\<close>

definition group_listed :: "nat \<Rightarrow> string \<Rightarrow> string \<Rightarrow> buddy_list \<Rightarrow> bool" where
  "group_listed account gk title bl \<longleftrightarrow>
     length (filter (marked_for account gk) (bt_chats bl)) \<le> 1 \<and> list_ex (signal_chat_matches account gk) (bt_chats bl) \<and>
     list_all (\<lambda>c. marked_for account gk c \<longrightarrow> bl_synced_title c = Some title) (bt_chats bl)"

lemma group_listed_one:
  assumes "filter (marked_for account gk) (bt_chats bl) = [d]" "bl_synced_title d = Some title"
  shows "group_listed account gk title bl"
proof -
  have *: "set (filter (marked_for account gk) (bt_chats bl)) = {d}" using assms(1) by simp
  then have "d \<in> set (bt_chats bl)" "signal_chat_matches account gk d" by (auto simp: marked_for_def)
  moreover have "c = d" if "c \<in> set (bt_chats bl)" "marked_for account gk c" for c using * that by auto
  ultimately show ?thesis using assms by (auto simp: group_listed_def list_ex_iff list_all_iff)
qed

lemma group_listed_none:
  assumes "filter (marked_for account gk) (bt_chats bl) = []" "c \<in> set (bt_chats bl)" "signal_chat_matches account gk c"
  shows "group_listed account gk title bl"
  using assms by (auto simp: group_listed_def list_ex_iff list_all_iff filter_empty_conv)

lemma blist_add_group_chats:
  assumes "own_nodes bl" "gk \<noteq> []" "title \<noteq> []" "bl1 = blist_add_group lp account gk title bl"
  shows "own_nodes bl1 \<and> group_listed account gk title bl1 \<and>
    filter (\<lambda>c. \<not> marked_for account gk c) (bt_chats bl1) = filter (\<lambda>c. \<not> marked_for account gk c) (bt_chats bl)"
proof -
  let ?rest = "\<lambda>bl. filter (\<lambda>c. \<not> marked_for account gk c) (bt_chats bl)"
  obtain selected bl0 where found: "signal_group_sync_find_chat account gk bl = (selected, bl0)" by force
  note find = find_chat_chats [OF assms(1,2) found]
  have one: ?thesis
    if "own_nodes bl2" "?rest bl2 = ?rest bl" "filter (marked_for account gk) (bt_chats bl2) = [d]"
      "bl1 = update_chat (bl_node d) (signal_group_sync_update_title lp gk title) bl2" for bl2 d
    using update_chat_marked [OF that(1,3), of lp title] that update_title_synced [OF assms(2,3)] by (simp add: group_listed_one)
  show ?thesis
  proof (cases selected)
    case None
    let ?c = "(new_group_chat lp account gk title bl0)\<lparr>bl_managed := True\<rparr>"
    let ?d = "?c\<lparr>bl_group := lp_default_group lp\<rparr>"
    have nodes: "bl_node ?c = fresh_node bl0" by (simp add: new_group_chat_def)
    then have "filter (\<lambda>c. bl_node c \<noteq> bl_node ?c) (bt_chats bl0) = bt_chats bl0" using fresh_node_new by (auto intro!: filter_True)
    then show ?thesis
      using one [of "put_chat lp ?c bl0" ?d] put_chat_chats [OF find(2), where lp = lp and chat = ?c] find(3,4) None
        new_group_chat_marked [of account gk lp title bl0] found assms(4)
      by (simp add: blist_add_group_def signal_blist_sync_add_chat_def Let_def)
  next
    case (Some c)
    then have c: "c \<in> set (bt_chats bl)" "signal_chat_matches account gk c" using lookup_chat_Some find(1) by simp_all
    show ?thesis
    proof (cases "bl_managed c")
      case True
      then have "filter (marked_for account gk) (bt_chats bl0) = [c]" using find(4) Some by simp
      note migrate = migrate_chat_marked [OF find(2) this, of lp]
      then show ?thesis using one [OF migrate(1)] find(3) assms(4) found Some True by (auto simp: blist_add_group_def Let_def)
    next
      case False
      then have "bl1 = bl0" using assms(4) found Some by (simp add: blist_add_group_def signal_blist_sync_migrate_chat_def)
      moreover have "c \<in> set (?rest bl0)" unfolding find(3) using c(1) False by (simp add: marked_for_def)
      then have "c \<in> set (bt_chats bl0)" by simp
      moreover have "filter (marked_for account gk) (bt_chats bl0) = []" using find(4) Some False by simp
      ultimately show ?thesis using find(2,3) c(2) group_listed_none by blast
    qed
  qed
qed

text \<open>The chats of the account that carry the mark.\<close>

definition marked :: "nat \<Rightarrow> chat_node \<Rightarrow> bool" where
  "marked account c \<longleftrightarrow> bl_managed c \<and> bl_account c = account"

lemma filter_weaker: "filter P xs = filter P ys \<Longrightarrow> (\<And>x. Q x \<Longrightarrow> P x) \<Longrightarrow> filter Q xs = filter Q ys"
proof -
  assume a: "filter P xs = filter P ys" and b: "\<And>x. Q x \<Longrightarrow> P x"
  have "filter Q zs = filter Q (filter P zs)" for zs using b by (auto intro!: filter_cong)
  then show ?thesis using a by metis
qed

lemma group_listed_cong:
  assumes "filter (signal_chat_matches account gk) (bt_chats bl1) = filter (signal_chat_matches account gk) (bt_chats bl)"
  shows "group_listed account gk title bl1 = group_listed account gk title bl"
proof -
  have m: "marked_for account gk c \<Longrightarrow> signal_chat_matches account gk c" for c by (simp add: marked_for_def)
  have "filter (marked_for account gk) (bt_chats bl1) = filter (marked_for account gk) (bt_chats bl)" by (rule filter_weaker [OF assms m])
  moreover have "set (filter (signal_chat_matches account gk) (bt_chats bl1)) = set (filter (signal_chat_matches account gk) (bt_chats bl))"
    by (simp only: assms)
  then have "c \<in> set (bt_chats bl1) \<longleftrightarrow> c \<in> set (bt_chats bl)" if "signal_chat_matches account gk c" for c using that by auto
  then have "list_ex (signal_chat_matches account gk) (bt_chats bl1) = list_ex (signal_chat_matches account gk) (bt_chats bl)"
    "list_all (\<lambda>c. marked_for account gk c \<longrightarrow> bl_synced_title c = Some title) (bt_chats bl1) =
     list_all (\<lambda>c. marked_for account gk c \<longrightarrow> bl_synced_title c = Some title) (bt_chats bl)"
    using m by (auto simp: list_ex_iff list_all_iff)
  ultimately show ?thesis by (simp add: group_listed_def)
qed

text \<open>What holds of the list while the groups of a snapshot arrive.\<close>

definition listing :: "nat \<Rightarrow> buddy_list \<Rightarrow> string set \<Rightarrow> plugin \<times> buddy_list \<Rightarrow> bool" where
  "listing account bl0 names = (\<lambda>(pc, bl).
     own_nodes bl \<and> cs_active (pc_group_sync pc) \<and> set (cs_seen (pc_group_sync pc)) = names \<and> [] \<notin> names \<and>
     filter (\<lambda>c. \<not> marked account c) (bt_chats bl) = filter (\<lambda>c. \<not> marked account c) (bt_chats bl0) \<and>
     (\<forall>gk\<in>names. group_listed account gk (signal_group_title pc gk) bl))"

lemma signal_group_title_nonempty [simp]: "signal_group_title pc gk \<noteq> []"
  by (auto simp: signal_group_title_def nonempty_def split: option.splits)

lemma add_group_title:
  assumes "k \<noteq> gk" "ev_chat_id e = Some gk"
  shows "signal_group_title (signal_add_group e pc) k = signal_group_title pc k"
  using assms by (auto simp: signal_add_group_def signal_group_title_def signal_group_id_def signal_group_members_def Let_def split: option.split)

lemma add_group_seen:
  assumes "cs_active (pc_group_sync pc)" "ev_chat_id e = Some gk" "gk \<noteq> []"
  shows "cs_active (pc_group_sync (signal_add_group e pc))"
    and "set (cs_seen (pc_group_sync (signal_add_group e pc))) = insert gk (set (cs_seen (pc_group_sync pc)))"
  using assms
  by (auto simp: signal_add_group_def signal_group_id_def signal_group_members_def signal_contact_sync_mark_def nonempty_def Let_def
      split: option.split)

lemma listing_step:
  assumes "listing account bl0 names (pc, bl)" "ev_chat_id e = Some gk" "gk \<noteq> []"
  shows "listing account bl0 (insert gk names) (add_group_listed lp account e (pc, bl))"
proof -
  define pc1 where "pc1 = signal_add_group e pc"
  define bl1 where "bl1 = blist_add_group lp account gk (signal_group_title pc1 gk) bl"
  have step: "add_group_listed lp account e (pc, bl) = (pc1, bl1)"
    using assms(2,3) by (simp add: add_group_listed_def pc1_def bl1_def nonempty_def Let_def)
  have "own_nodes bl" using assms(1) by (simp add: listing_def)
  note add = blist_add_group_chats [OF this assms(3) signal_group_title_nonempty bl1_def]
  have rest: "filter (\<lambda>c. \<not> marked_for account gk c) (bt_chats bl1) = filter (\<lambda>c. \<not> marked_for account gk c) (bt_chats bl)"
    using add by simp
  have "filter (\<lambda>c. \<not> marked account c) (bt_chats bl1) = filter (\<lambda>c. \<not> marked account c) (bt_chats bl)"
    by (rule filter_weaker [OF rest]) (auto simp: marked_def marked_for_def signal_chat_matches_def)
  moreover have "group_listed account k (signal_group_title pc1 k) bl1" if "k \<in> names" "k \<noteq> gk" for k
  proof -
    have "filter (signal_chat_matches account k) (bt_chats bl1) = filter (signal_chat_matches account k) (bt_chats bl)"
      by (rule filter_weaker [OF rest]) (use that(2) in \<open>auto simp: marked_for_def signal_chat_matches_def\<close>)
    from group_listed_cong [OF this] show ?thesis
      using assms(1) that add_group_title [OF that(2) assms(2)] by (simp add: listing_def pc1_def)
  qed
  ultimately show ?thesis
    using assms add add_group_seen [of pc e gk] unfolding step by (auto simp: listing_def pc1_def)
qed

text \<open>The groups that events name.\<close>

definition named_groups :: "event list \<Rightarrow> string list" where
  "named_groups events = map the (filter nonempty (map ev_chat_id events))"

lemma listing_run:
  "listing account bl0 names s \<Longrightarrow> listing account bl0 (names \<union> set (named_groups events)) (fold (add_group_listed lp account) events s)"
proof (induction events arbitrary: names s)
  case (Cons e events)
  obtain pc bl where s: "s = (pc, bl)" by force
  show ?case
  proof (cases "nonempty (ev_chat_id e)")
    case True
    then obtain gk where gk: "ev_chat_id e = Some gk" "gk \<noteq> []" by (auto simp: nonempty_def split: option.splits)
    have "listing account bl0 (insert gk names) (add_group_listed lp account e s)" using listing_step Cons.prems gk s by blast
    from Cons.IH [OF this] show ?thesis using gk by (simp add: named_groups_def nonempty_def)
  next
    case False
    then have "add_group_listed lp account e s = s"
      by (auto simp: s add_group_listed_def signal_add_group_def nonempty_def Let_def split: option.splits)
    then show ?thesis using Cons False by (simp add: named_groups_def)
  qed
qed (simp add: named_groups_def)

lemma listing_start: "own_nodes bl \<Longrightarrow> listing account bl {} (signal_begin_group_sync pc, bl)"
  by (simp add: listing_def signal_begin_group_sync_def signal_contact_sync_begin_def)

lemma end_listing:
  assumes "listing account bl0 names (pc, bl)" "end_group_sync_listed account rank True (pc, bl) = (pc1, bl1)"
  shows "filter (\<lambda>c. \<not> marked account c) (bt_chats bl1) = filter (\<lambda>c. \<not> marked account c) (bt_chats bl0)"
    and "\<forall>gk\<in>names. group_listed account gk (signal_group_title pc gk) bl1"
    and "\<forall>c\<in>set (bt_chats bl1). marked account c \<longrightarrow> nonempty (signal_group_sync_chat_id c) \<longrightarrow> the (signal_group_sync_chat_id c) \<in> names"
proof -
  define P where "P c \<longleftrightarrow> bl_account c = account \<and> bl_managed c \<and>
    signal_contact_sync_should_remove (pc_group_sync pc) (signal_group_sync_chat_id c)" for c
  have "bt_chats bl1 = bt_chats (remove_chats P bl)"
    using assms(2) by (auto simp: end_group_sync_listed_def P_def [abs_def])
  then have cs: "bt_chats bl1 = filter (\<lambda>c. \<not> P c) (bt_chats bl)"
    using assms(1) remove_chats_chats by (simp add: listing_def)
  have "filter (\<lambda>c. \<not> marked account c) (bt_chats bl1) = filter (\<lambda>c. \<not> marked account c) (bt_chats bl)"
    unfolding cs filter_filter by (rule filter_cong) (auto simp: P_def marked_def)
  then show "filter (\<lambda>c. \<not> marked account c) (bt_chats bl1) = filter (\<lambda>c. \<not> marked account c) (bt_chats bl0)"
    using assms(1) by (simp add: listing_def)
  have same: "filter (signal_chat_matches account gk) (bt_chats bl1) = filter (signal_chat_matches account gk) (bt_chats bl)" if "gk \<in> names" for gk
    unfolding cs filter_filter
    by (rule filter_cong) (use assms(1) that in \<open>auto simp: P_def listing_def signal_chat_matches_def signal_contact_sync_should_remove_def\<close>)
  show "\<forall>gk\<in>names. group_listed account gk (signal_group_title pc gk) bl1"
    using assms(1) group_listed_cong [OF same] by (simp add: listing_def)
  show "\<forall>c\<in>set (bt_chats bl1). marked account c \<longrightarrow> nonempty (signal_group_sync_chat_id c) \<longrightarrow> the (signal_group_sync_chat_id c) \<in> names"
    using assms(1) by (auto simp: cs P_def listing_def marked_def signal_contact_sync_should_remove_def)
qed

text \<open>
  C15. After the groups of an authoritative snapshot the buddy list follows it, whatever was in the list and wherever libpurple puts chats: every
  chat of the user and of other accounts is as it was and in its order; a chat of the account with the mark of the plugin is of a group
  of the snapshot, if it names a group at all, and has the title of that group recorded; and every group of the snapshot has a chat, at most one with the mark.
\<close>

theorem chats_follow_snapshot:
  "if distinct (map bl_node (bt_chats bl))
   then case fold (add_group_listed lp account) events (signal_begin_group_sync pc, bl) of (pc1, bl1) \<Rightarrow>
        case end_group_sync_listed account rank True (pc1, bl1) of (pc2, bl2) \<Rightarrow>
          filter (\<lambda>c. \<not> (bl_managed c \<and> bl_account c = account)) (bt_chats bl2) =
            filter (\<lambda>c. \<not> (bl_managed c \<and> bl_account c = account)) (bt_chats bl) \<and>
          list_all (\<lambda>c. if bl_managed c \<and> bl_account c = account \<and> nonempty (signal_group_sync_chat_id c)
                        then the (signal_group_sync_chat_id c) \<in> set (named_groups events) \<and>
                             bl_synced_title c = Some (signal_group_title pc1 (the (signal_group_sync_chat_id c)))
                        else True) (bt_chats bl2) \<and>
          list_all (\<lambda>gk. list_ex (signal_chat_matches account gk) (bt_chats bl2) \<and>
                         length (filter (\<lambda>c. bl_managed c \<and> signal_chat_matches account gk c) (bt_chats bl2)) \<le> 1) (named_groups events)
   else True"
proof (cases "own_nodes bl")
  case True
  obtain pc1 bl1 where run: "fold (add_group_listed lp account) events (signal_begin_group_sync pc, bl) = (pc1, bl1)" by force
  obtain pc2 bl2 where ended: "end_group_sync_listed account rank True (pc1, bl1) = (pc2, bl2)" by force
  have "listing account bl (set (named_groups events)) (pc1, bl1)"
    using listing_run [OF listing_start [OF True, of account pc], where events = events and lp = lp] run by simp
  note e = end_listing [OF this ended]
  have titled: "bl_synced_title c = Some (signal_group_title pc1 gk)"
    if "c \<in> set (bt_chats bl2)" "bl_managed c" "bl_account c = account" "signal_group_sync_chat_id c = Some gk" "gk \<in> set (named_groups events)" for c gk
    using e(2) that by (auto simp: group_listed_def list_all_iff marked_for_def signal_chat_matches_def)
  have groups: "list_all (\<lambda>gk. list_ex (signal_chat_matches account gk) (bt_chats bl2) \<and>
      length (filter (\<lambda>c. bl_managed c \<and> signal_chat_matches account gk c) (bt_chats bl2)) \<le> 1) (named_groups events)"
    using e(2) by (simp add: group_listed_def list_all_iff marked_for_def [abs_def])
  have chats: "list_all (\<lambda>c. if bl_managed c \<and> bl_account c = account \<and> nonempty (signal_group_sync_chat_id c)
      then the (signal_group_sync_chat_id c) \<in> set (named_groups events) \<and>
        bl_synced_title c = Some (signal_group_title pc1 (the (signal_group_sync_chat_id c))) else True) (bt_chats bl2)"
    using e(3) titled by (auto simp: list_all_iff marked_def nonempty_def split: option.splits)
  show ?thesis using True run ended e(1) groups chats by (simp add: marked_def)
qed simp

end
