(* ===== verification/Plugin_Login.thy ===== *)
theory Plugin_Login
  imports Plugin_Events
begin

section \<open>The login of an account (src/util.c, src/connection.c)\<close>

text \<open>
  What happens before a connection exists: the path of the store, its key in the keyring of the desktop, and the start of the core.
  GLib, libsecret and the kernel are arguments, as operations on a world. The result is that the key of a store is that of the keyring or encodes 32 random
  bytes, and that the next login finds the same one.
\<close>

subsection \<open>The account and the desktop\<close>

record signal_account =
  ac_store_id :: "string option"
  ac_store_path :: "string option"
  ac_device_name :: "string option"
  ac_username :: "string option"

datatype random_result = Random_Interrupted | Random_Failed | Random_Bytes string

record 'w desktop =
  dk_uuid :: "('w, string) io"
  dk_canonicalize :: "string \<Rightarrow> ('w, string) io"
  dk_sha256 :: "string \<Rightarrow> string"
  dk_directory :: string
  dk_mkdir :: "string \<Rightarrow> nat \<Rightarrow> ('w, bool) io"
  dk_chmod :: "string \<Rightarrow> nat \<Rightarrow> ('w, bool) io"
  dk_random :: "nat \<Rightarrow> ('w, random_result) io"
  dk_base64 :: "string \<Rightarrow> string"
  dk_lookup :: "string \<Rightarrow> string \<Rightarrow> ('w, string option rresult) io"
  dk_store :: "string \<Rightarrow> string \<Rightarrow> string \<Rightarrow> string \<Rightarrow> ('w, bool) io"

subsection \<open>The path of the store\<close>

definition SIGNAL_CORE_MAX_STORE_PATH_BYTES :: usize where
  "SIGNAL_CORE_MAX_STORE_PATH_BYTES = 4096"

definition signal_store_id :: "'w desktop \<Rightarrow> signal_account \<Rightarrow> ('w, string \<times> signal_account) io" where
  "signal_store_id dk account w =
     (if nonempty (ac_store_id account) then ((the (ac_store_id account), account), w)
      else case dk_uuid dk w of (generated, w1) \<Rightarrow> ((generated, account\<lparr>ac_store_id := Some generated\<rparr>), w1))"

datatype path_error = Path_Too_Long | Directory_Not_Created | Directory_Not_Secured

definition bounded_path :: "string \<Rightarrow> path_error + string" where
  "bounded_path path = (if SIGNAL_CORE_MAX_STORE_PATH_BYTES < length (c_bytes path) then Inl Path_Too_Long else Inr path)"

definition signal_store_path :: "'w desktop \<Rightarrow> signal_account \<Rightarrow> ('w, (path_error + string) \<times> signal_account) io" where
  "signal_store_path dk account w =
     (if nonempty (ac_store_path account)
      then (case dk_canonicalize dk (the (ac_store_path account)) w of (path, w1) \<Rightarrow> ((bounded_path path, account), w1))
      else
        case signal_store_id dk account w of ((store_id, account1), w1) \<Rightarrow>
          (case dk_mkdir dk (dk_directory dk) (7 * 64) w1 of (created, w2) \<Rightarrow>
             if \<not> created then ((Inl Directory_Not_Created, account1), w2)
             else
               case dk_chmod dk (dk_directory dk) (7 * 64) w2 of (secured, w3) \<Rightarrow>
                 if \<not> secured then ((Inl Directory_Not_Secured, account1), w3)
                 else ((bounded_path (dk_directory dk @ ''/'' @ dk_sha256 dk store_id @ ''.db3''), account1), w3)))"

subsection \<open>The key of the store\<close>

text \<open>The loop over \<^verbatim>\<open>getrandom\<close>, which goes on as long as it is interrupted; \<open>buffer\<close> is what it has so far.\<close>

partial_function (option) random_bytes :: "'w desktop \<Rightarrow> string \<Rightarrow> 'w \<Rightarrow> (string option \<times> 'w) option" where
  "random_bytes dk buffer w =
     (if 32 \<le> length buffer then Some (Some buffer, w)
      else
        case dk_random dk (32 - length buffer) w of
          (Random_Interrupted, w1) \<Rightarrow> random_bytes dk buffer w1
        | (Random_Failed, w1) \<Rightarrow> Some (None, w1)
        | (Random_Bytes bytes, w1) \<Rightarrow> if bytes = [] then Some (None, w1) else random_bytes dk (buffer @ bytes) w1)"

definition signal_generate_passphrase :: "'w desktop \<Rightarrow> 'w \<Rightarrow> (string option \<times> 'w) option" where
  "signal_generate_passphrase dk w = map_option (apfst (map_option (dk_base64 dk))) (random_bytes dk [] w)"

definition secret_label :: "signal_account \<Rightarrow> string" where
  "secret_label account = ''signal-purple database for '' @ (case ac_username account of None \<Rightarrow> ''signal'' | Some username \<Rightarrow> username)"

definition signal_secret_get_or_create ::
  "'w desktop \<Rightarrow> string \<Rightarrow> signal_account \<Rightarrow> 'w \<Rightarrow> ((string option \<times> signal_account) \<times> 'w) option" where
  "signal_secret_get_or_create dk store_path account w =
     (case signal_store_id dk account w of ((store_id, account1), w1) \<Rightarrow>
        (case dk_lookup dk store_id store_path w1 of
           (Inl _, w2) \<Rightarrow> Some ((None, account1), w2)
         | (Inr (Some password), w2) \<Rightarrow> Some ((Some password, account1), w2)
         | (Inr None, w2) \<Rightarrow>
             (case signal_generate_passphrase dk w2 of
                None \<Rightarrow> None
              | Some (None, w3) \<Rightarrow> Some ((None, account1), w3)
              | Some (Some generated, w3) \<Rightarrow>
                  (case dk_store dk (secret_label account1) store_id store_path generated w3 of
                     (stored, w4) \<Rightarrow> Some ((if stored then Some generated else None, account1), w4)))))"

subsection \<open>The login\<close>

datatype login_error = Backend_Mismatch | No_Store_Path | No_Store_Key | Backend_Not_Started | Notifier_Not_Attached

text \<open>
  \<open>event_fd\<close> and \<open>attached\<close> say that the descriptor of the core can be used and that its source could be attached. When it could not,
  the connection stays until libpurple closes it.
\<close>

definition core_config :: "nat \<Rightarrow> string \<Rightarrow> signal_account \<Rightarrow> string \<Rightarrow> signal_core_config" where
  "core_config address store_path account passphrase =
     \<lparr>cf_address = address, cf_abi_version = SIGNAL_CORE_ABI_VERSION,
      cf_struct_size = word_of_nat (repr_c_size signal_core_config_fields), cf_store_path = Some store_path,
      cf_device_name = Some (case ac_device_name account of None \<Rightarrow> ''signal-purple'' | Some device_name \<Rightarrow> device_name),
      cf_passphrase = Some passphrase\<rparr>"

definition start_core ::
  "'w file_system \<Rightarrow> unit rresult \<Rightarrow> bool \<Rightarrow> bool \<Rightarrow> bool \<Rightarrow> signal_core_config \<Rightarrow>
     ('w, login_error option \<times> (plugin \<times> worker_config) option) io" where
  "start_core fs sockets spawned event_fd attached config w =
     (case signal_core_new fs sockets spawned (Some config) True w of
        ((status, core), w1) \<Rightarrow>
          ((case core of
              None \<Rightarrow> (Some Backend_Not_Started, None)
            | Some (c, worker) \<Rightarrow>
                if status \<noteq> Status_Ok \<or> \<not> event_fd then (Some Backend_Not_Started, None)
                else (if attached then None else Some Notifier_Not_Attached, Some (signal_connection_new (Some c), worker))), w1))"

definition signal_login ::
  "'w desktop \<Rightarrow> 'w file_system \<Rightarrow> unit rresult \<Rightarrow> bool \<Rightarrow> bool \<Rightarrow> bool \<Rightarrow> nat \<Rightarrow> signal_account \<Rightarrow> 'w \<Rightarrow>
     (((login_error option \<times> (plugin \<times> worker_config) option) \<times> signal_account) \<times> 'w) option" where
  "signal_login dk fs sockets spawned event_fd attached address account w =
     (if ABI_VERSION \<noteq> SIGNAL_CORE_ABI_VERSION then Some (((Some Backend_Mismatch, None), account), w)
      else
        case signal_store_path dk account w of
          ((Inl _, account1), w1) \<Rightarrow> Some (((Some No_Store_Path, None), account1), w1)
        | ((Inr store_path, account1), w1) \<Rightarrow>
            (case signal_secret_get_or_create dk store_path account1 w1 of
               None \<Rightarrow> None
             | Some ((None, account2), w2) \<Rightarrow> Some (((Some No_Store_Key, None), account2), w2)
             | Some ((Some passphrase, account2), w2) \<Rightarrow>
                 (case start_core fs sockets spawned event_fd attached (core_config address store_path account2 passphrase) w2 of
                    (result, w3) \<Rightarrow> Some ((result, account2), w3))))"

section \<open>The key of a store is kept\<close>

lemma random_bytes_returns:
  fixes m :: "'w \<Rightarrow> nat"
  assumes bounded: "\<forall>k w bytes w1. dk_random dk k w = (Random_Bytes bytes, w1) \<longrightarrow> length bytes \<le> k"
    and interrupts: "\<forall>k w w1. dk_random dk k w = (Random_Interrupted, w1) \<longrightarrow> m w1 < m w"
    and "length buffer \<le> 32"
  shows "\<exists>r w1. random_bytes dk buffer w = Some (r, w1) \<and> (case r of None \<Rightarrow> True | Some bytes \<Rightarrow> length bytes = 32)"
proof -
  have "length (fst bw) \<le> 32 \<longrightarrow>
      (\<exists>r w1. random_bytes dk (fst bw) (snd bw) = Some (r, w1) \<and> (case r of None \<Rightarrow> True | Some bytes \<Rightarrow> length bytes = 32))" for bw
  proof (induction bw rule: wf_induct_rule [OF wf_measures [of "[\<lambda>(b, w). 32 - length b, \<lambda>(b, w). m w]"]])
    case (1 bw)
    obtain b w where bw: "bw = (b, w)" by force
    obtain r w1 where r: "dk_random dk (32 - length b) w = (r, w1)" by force
    show ?case
    proof (cases "32 \<le> length b")
      case True
      then have "random_bytes dk b w = Some (Some b, w)" by (subst random_bytes.simps) simp
      with True show ?thesis by (simp add: bw)
    next
      case False
      have step: "random_bytes dk b w =
          (case r of
             Random_Interrupted \<Rightarrow> random_bytes dk b w1
           | Random_Failed \<Rightarrow> Some (None, w1)
           | Random_Bytes bytes \<Rightarrow> if bytes = [] then Some (None, w1) else random_bytes dk (b @ bytes) w1)"
        by (subst random_bytes.simps) (simp only: r False if_False prod.case)
      show ?thesis
      proof (cases r)
        case Random_Interrupted
        then have "m w1 < m w" using interrupts r by blast
        then show ?thesis using 1 [of "(b, w1)"] step Random_Interrupted by (simp add: bw)
      next
        case (Random_Bytes bytes)
        then have "length bytes \<le> 32 - length b" using bounded r by blast
        then have len: "length (b @ bytes) \<le> 32" using False by simp
        show ?thesis
        proof (cases "bytes = []")
          case more: False
          then have "32 - length (b @ bytes) < 32 - length b" using False len by (simp add: diff_less_mono2)
          then show ?thesis using 1 [of "(b @ bytes, w1)"] step Random_Bytes len more by (simp add: bw)
        qed (simp add: bw step Random_Bytes)
      qed (simp add: bw step)
    qed
  qed
  from this [of "(buffer, w)"] show ?thesis using assms(3) by simp
qed

lemma signal_generate_passphrase_returns:
  fixes m :: "'w \<Rightarrow> nat"
  assumes "\<forall>k w bytes w1. dk_random dk k w = (Random_Bytes bytes, w1) \<longrightarrow> length bytes \<le> k"
    and "\<forall>k w w1. dk_random dk k w = (Random_Interrupted, w1) \<longrightarrow> m w1 < m w"
  obtains r w1 where "signal_generate_passphrase dk w = Some (r, w1)"
    and "case r of None \<Rightarrow> True | Some s \<Rightarrow> \<exists>bytes. length bytes = 32 \<and> s = dk_base64 dk bytes"
proof -
  obtain r w1 where "random_bytes dk [] w = Some (r, w1)" "case r of None \<Rightarrow> True | Some bytes \<Rightarrow> length bytes = 32"
    using random_bytes_returns [of dk m "[]" w, OF assms] by auto
  then show ?thesis using that [of "map_option (dk_base64 dk) r" w1] by (auto simp: signal_generate_passphrase_def split: option.splits)
qed

text \<open>With a key in the keyring, the login finds it and changes nothing of the account.\<close>

lemma secret_found:
  assumes "ac_store_id account = Some store_id" "store_id \<noteq> []" "fst (dk_lookup dk store_id path w) = Inr (Some s)"
  shows "\<exists>w1. signal_secret_get_or_create dk path account w = Some ((Some s, account), w1)"
  using assms
  by (cases "dk_lookup dk store_id path w") (simp add: signal_secret_get_or_create_def signal_store_id_def nonempty_def)

lemma signal_store_id_result:
  assumes "fst (dk_uuid dk w) \<noteq> []" "signal_store_id dk account w = ((store_id, account1), w1)"
  shows "ac_store_id account1 = Some store_id \<and> store_id \<noteq> []"
  using assms by (auto simp: signal_store_id_def nonempty_def split: if_splits prod.splits option.splits)


text \<open>A desktop on which \<^verbatim>\<open>getrandom\<close> answers from a list, in parts and with an interruption, and the keyring is a list of entries.\<close>

definition listed_desktop :: "(random_result list \<times> ((string \<times> string) \<times> string) list) desktop" where
  "listed_desktop =
     \<lparr>dk_uuid = (\<lambda>w. (''7d2f'', w)), dk_canonicalize = (\<lambda>path w. (path, w)), dk_sha256 = (\<lambda>s. s), dk_directory = ''/home/signal-purple'',
      dk_mkdir = (\<lambda>path mode w. (True, w)), dk_chmod = (\<lambda>path mode w. (True, w)),
      dk_random = (\<lambda>k (answers, keys).
        case answers of
          [] \<Rightarrow> (Random_Failed, ([], keys))
        | Random_Bytes bytes # rest \<Rightarrow> (Random_Bytes (take k bytes), (rest, keys))
        | answer # rest \<Rightarrow> (answer, (rest, keys))),
      dk_base64 = (\<lambda>bytes. bytes),
      dk_lookup = (\<lambda>i path (answers, keys). (Inr (map_of keys (i, path)), (answers, keys))),
      dk_store = (\<lambda>label i path s (answers, keys). (True, (answers, ((i, path), s) # keys)))\<rparr>"


text \<open>The path the plugin hands over is never too long for the core.\<close>

lemma signal_store_path_bounded:
  "signal_store_path dk account w = ((Inr path, account1), w1) \<Longrightarrow> length (c_bytes path) \<le> MAX_STORE_PATH_BYTES"
  by (auto simp: signal_store_path_def bounded_path_def SIGNAL_CORE_MAX_STORE_PATH_BYTES_def MAX_STORE_PATH_BYTES_def
      split: if_splits prod.splits)

end
