(* ===== verification/Spec2Isabelle.thy ===== *)
theory Spec2Isabelle
  imports Core_System Plugin_Image Plugin_Delivery Plugin_Chats Plugin_Login
begin

text \<open>
  \<^bold>\<open>A verification library of signal-purple\<close>

  signal-purple connects libpurple to Signal. Its core is a Rust library (\<^verbatim>\<open>rust/signal-core/src\<close>, below which
  the Rust files named here are found) that runs a worker thread and is used from a C plugin (\<^verbatim>\<open>src\<close>, below which the C files are found) through a C
  interface. The library models both: every theory translates one part, in the order of the code, and proves what the other parts rely on.

  \<^bold>\<open>How the parts interact.\<close> The plugin calls \<^verbatim>\<open>ffi.rs\<close>, which validates its arguments and puts commands into a bounded channel, admits
  attachments and takes acknowledgments. The worker (\<^verbatim>\<open>backend/worker.rs\<close>) takes the commands, serves them with the handlers
  of \<^verbatim>\<open>backend/coordinator.rs\<close> and \<^verbatim>\<open>backend/outbox.rs\<close>, shows received messages with those of \<^verbatim>\<open>backend/projection.rs\<close>, and
  emits events into the bounded queue of \<^verbatim>\<open>event_queue.rs\<close>, from which the plugin polls them. A message that was shown is
  recorded as handled only after the plugin has acknowledged it (\<^verbatim>\<open>acknowledgment.rs\<close>). The plugin (\<^verbatim>\<open>connection.c\<close>) dispatches each event to
  a handler that changes its tables and libpurple's lists, and turns what the user does into calls of the core.

  \<^bold>\<open>Correspondence.\<close> Structs are records, enums are datatypes, a function of the source is the definition of the same name, with a
  suffix or prefix where a name is taken. \<^verbatim>\<open>u64\<close> is \<^typ>\<open>64 word\<close>, \<^verbatim>\<open>usize\<close> is a natural number with the limit of
  64 bits written out where the code checks it, \<^verbatim>\<open>Result<T, String>\<close> is a sum, a panic is \<open>None\<close>. Code that mutates takes the state and
  returns it; shared controls live in an explicit store.

  \<^item> \<open>Prelude\<close>: integers, strings and options of Rust, and the locales \<open>guarded_system\<close> and \<open>op_system\<close> of an invariant that the operations of a
    component preserve. Every component with a life of its own is an interpretation of one of them.
  \<^item> \<open>Events\<close> (\<^verbatim>\<open>event.rs\<close>), \<open>Event_Queue\<close> (\<^verbatim>\<open>event_queue.rs\<close>), \<open>Ack_Inbox\<close> (\<^verbatim>\<open>acknowledgment.rs\<close>), \<open>Attachment_Admission\<close>
    (\<^verbatim>\<open>attachment.rs\<close>): the shared structures. Each operation runs under a lock and is one atomic step; a producer that sleeps on the
    condition variable is part of the state. The results are bounds, exact counters, order, the absence of lost wake-ups, and that of all cancellations
    and completions of a request one wins. The locale \<open>event_sink\<close> is what an emitter may rely on; the list of events of the later theories and the
    queue both interpret it.
  \<^item> \<open>Session_State\<close> (\<^verbatim>\<open>backend/group_state.rs\<close>, \<^verbatim>\<open>SessionState\<close>, \<^verbatim>\<open>RecoveryBackoff\<close>, \<^verbatim>\<open>MonotonicTimestamp\<close> and \<^verbatim>\<open>MetadataCache\<close> of
    coordinator.rs), \<open>Error_Class\<close> (\<^verbatim>\<open>store/errors.rs\<close> and the classifiers of coordinator.rs), \<open>Content_Model\<close> (messages, quotes, mentions and identities),
    \<open>Media\<close> and \<open>Media_Files\<close> (\<^verbatim>\<open>backend/media.rs\<close>: the bounded GIF parser, file names, transcoding, the avatar cache).
  \<^item> \<open>Storage\<close>, \<open>Storage_Fake\<close> (\<^verbatim>\<open>store/traits.rs\<close>, \<^verbatim>\<open>store/repository.rs\<close>, \<^verbatim>\<open>backend/protocol.rs\<close>): the traits of the backend as records of operations on
    an abstract world, the repository over a database that is a parameter, and the in-memory implementations. The locale
    \<open>outbox_store\<close> is the contract of the outbox table.
  \<^item> \<open>Backend\<close>, \<open>Outbox\<close> (\<^verbatim>\<open>backend/outbox.rs\<close>), \<open>Message_Projection\<close>, \<open>Projection\<close> (\<^verbatim>\<open>backend/projection.rs\<close>), \<open>Incoming\<close>, \<open>Commands\<close>,
    \<open>Snapshots\<close> (\<^verbatim>\<open>backend/coordinator.rs\<close>, \<^verbatim>\<open>backend/command.rs\<close>): the handlers, for any storage and network. The results say what a handler emits, sends and
    stores on every path: a message that can be retried stays in the outbox, a message is shown once and acknowledged last, a command is answered, a
    group message is shown to and sent by members only, and a snapshot of the groups can be read back from its events.
  \<^item> \<open>Attachment_Tasks\<close>, \<open>Attachment_Answers\<close>: the tasks of outgoing attachments in worker.rs, and that each request is answered once.
  \<^item> \<open>Worker\<close>, \<open>Worker_Order\<close> (\<^verbatim>\<open>backend/worker.rs\<close>, \<^verbatim>\<open>backend/shutdown.rs\<close>): the connection loop. The position of the loop is the datatype \<open>worker_position\<close>; one
    step is one wait of the loop with the branch of its \<^verbatim>\<open>select!\<close> that ran. It refines an abstract link that has a phase and a queue of commands.
  \<^item> \<open>Ffi\<close> (\<^verbatim>\<open>ffi.rs\<close>), \<open>Launch\<close> (\<^verbatim>\<open>run\<close>, \<^verbatim>\<open>link_device\<close> and the end of \<^verbatim>\<open>run_worker\<close>), \<open>Event_Log\<close>, \<open>Core_System\<close>: the calls of the plugin, the life of the
    worker thread, and both together with the queue on the state they share, in any interleaving: commands are served in the order of the calls that returned
    OK, events are polled in the order they were emitted, and the end of the worker is final.
  \<^item> \<open>Plugin_State\<close> (\<^verbatim>\<open>contact_sync.c\<close>, \<^verbatim>\<open>group_sync.c\<close>, the tables of \<^verbatim>\<open>connection.c\<close>), \<open>Plugin_Transfers\<close> (\<^verbatim>\<open>attachment_file.c\<close>,
    \<^verbatim>\<open>connection_transfers.c\<close>), \<open>Plugin_Events\<close> (\<^verbatim>\<open>signal_dispatch_event\<close>, \<^verbatim>\<open>signal_poll_backend\<close>), \<open>Plugin_Delivery\<close>: the record \<open>plugin\<close> holds the tables of
    \<^verbatim>\<open>SignalConnection\<close> and the core, a table is a list of keys or a map. Read receipts are bounded and follow the reader, a transfer the core can still answer is alive, and,
    through the handlers of the core, a snapshot of groups arrives as it was sent and a message that is shown is acknowledged once.
  \<^item> \<open>Plugin_Send\<close> (the callbacks of the user in \<^verbatim>\<open>connection.c\<close>), \<open>Plugin_Chats\<close> (\<^verbatim>\<open>group_sync.c\<close>, \<^verbatim>\<open>blist_sync.c\<close>), \<open>Plugin_Login\<close> (\<^verbatim>\<open>util.c\<close>, \<^verbatim>\<open>signal_login\<close>),
    \<open>Plugin_Image\<close> (\<^verbatim>\<open>inline_image.c\<close>): a message is queued exactly when libpurple is told so, the number of a chat never comes to mean another group, the
    saved chats follow a snapshot without touching those of the user, the key of a store is kept, and the plugin and the core agree on GIF images.

  \<^bold>\<open>Bounds and arguments.\<close> What the code cannot decide is an argument: which branch of a \<^verbatim>\<open>select!\<close> is taken, when a shutdown or a timeout arrives (as the number of
  phases completed before it), whether a compare-and-exchange fails spuriously, what reads and writes of the notification sockets return, how a child process
  ends. Theorems hold for all of them. Loops over data are structural recursions. The passes of the event queue take the list of results of its system calls and are \<open>None\<close>
  when it ends before the pass does; no step is made then. The polling of the transcoder takes the list of its results and is proved to end
  within 751 polls, its deadline divided by its interval. A run of the event source of the plugin takes 64 events at most, the limit of the code, and
  its loop recurses on that number; at most 4096 read receipts wait. The loop of the plugin over \<^verbatim>\<open>getrandom\<close>, which may be interrupted any number of times, is a partial
  function, and is proved to return when the interruptions end. Iteration over a hash table is in the order of an arbitrary rank.

  \<^bold>\<open>Not modelled.\<close> Signal's protocol library, the database, the image, QR and hash libraries and ffmpeg are not part of the
  repository: they are parameters, with what is assumed of them as hypotheses or locale assumptions. A phase of the worker is not interrupted in the
  middle: where the code drops a future at a shutdown or timeout, the model stops between two operations. Memory management
  (\<^verbatim>\<open>signal_core_free\<close>, \<^verbatim>\<open>signal_event_free\<close>, zeroing of the passphrase), the descriptor handed out by \<^verbatim>\<open>signal_core_event_fd\<close>, the creation of threads and
  runtimes and the catching of panics at the C boundary have no counterpart in the values a model computes. Of the C plugin, what only draws or notifies through libpurple is left out: the text and
  titles of conversations, the dialogs and the link code, the markup of inline images, and the file a received attachment is written to. What libpurple
  answers is an argument. Callbacks that libpurple runs inside a call of the plugin are steps of their own; in particular \<open>signal_group_sync_timeout\<close> opens each join once,
  while the C code changes the table it iterates over. Finding, adopting and moving the buddies of contacts (\<^verbatim>\<open>blist_sync.c\<close>) depends on how libpurple merges
  contacts and is not modelled, beyond the names a snapshot of contacts keeps. \<^verbatim>\<open>plugin.c\<close> is the table of the callbacks.
\<close>

end
